(* ===== verification/Gem_Prelude.thy ===== *)
theory Gem_Prelude
  imports Complex_Main "HOL-Library.Word" "HOL-Library.Multiset" "HOL-Library.Monad_Syntax"
    "HOL-Library.Signed_Division"
begin

text \<open>
  The shared vocabulary of the development: names for the C++ machine types, the fixed-width
  integer operations the sources rely on, the sorting contract of \<^verbatim>\<open>std::sort\<close>, and
  reachability of a step relation.

  \<^item> A \<^verbatim>\<open>double\<close> is a real number: every computation with doubles in the sources is modelled in
    exact arithmetic, so rounding, infinities and NaN are outside the model.
    On the wire a double is its 64-bit pattern.
  \<^item> \<^verbatim>\<open>size_t\<close> is a 64-bit word and wraps; \<^verbatim>\<open>int\<close>, \<^verbatim>\<open>reqid_t\<close> and enumerations are
    32-bit words; the platform is the little-endian LP64 ABI the Makefile builds for.
  \<^item> An access outside a buffer, a read of an uninitialised variable or a null dereference is the
    value \<open>None\<close> (or \<open>Inl\<close> with the kind of the error).
\<close>

type_synonym byte = "8 word"
type_synonym size_t = "64 word"
type_synonym int32 = "32 word"
type_synonym double = real
type_synonym double_bits = "64 word"
type_synonym sockfd = int

named_theorems wire_simps \<open>rewriting of message buffers\<close>

section \<open>Signed 64-bit arithmetic\<close>

text \<open>Two's complement wrap-around of a 64-bit signed result, and the fact that a result that fits
  is not changed.\<close>

definition wrap64 :: "int \<Rightarrow> int" where
  "wrap64 x = (x + 2 ^ 63) mod 2 ^ 64 - 2 ^ 63"

definition fits64 :: "int \<Rightarrow> bool" where
  "fits64 x \<longleftrightarrow> - (2 ^ 63) \<le> x \<and> x < 2 ^ 63"

lemma wrap64_fits [simp]: "fits64 x \<Longrightarrow> wrap64 x = x"
  by (simp add: wrap64_def fits64_def)

lemma fits64_wrap64: "fits64 (wrap64 x)"
  using pos_mod_bound [of "2 ^ 64 :: int" "x + 2 ^ 63"] pos_mod_sign [of "2 ^ 64 :: int" "x + 2 ^ 63"]
  by (auto simp: wrap64_def fits64_def)

lemma unat_size_t_less: "unat (w :: size_t) < 2 ^ 64"
  by (rule order.strict_trans2 [OF unsigned_less]) simp

lemma unat_int32_less: "unat (w :: int32) < 2 ^ 32"
  by (rule order.strict_trans2 [OF unsigned_less]) simp

text \<open>C++ integer division truncates towards zero.\<close>

lemma sdiv_nonneg: "0 \<le> (a::int) \<Longrightarrow> 0 < b \<Longrightarrow> a sdiv b = a div b"
  by (cases "a = 0") (simp_all add: signed_divide_int_def)

lemma sdiv_mono: "(a::int) \<le> b \<Longrightarrow> 0 < c \<Longrightarrow> a sdiv c \<le> b sdiv c"
proof -
  assume le: "a \<le> b" and c: "0 < c"
  have neg: "x sdiv c = - ((- x) div c)" if "x < 0" for x :: int
    using that c by (simp add: signed_divide_int_def)
  consider "0 \<le> a" | "a < 0" "0 \<le> b" | "b < 0" using le by linarith
  then show ?thesis
  proof cases
    case 1
    then show ?thesis using le c by (simp add: sdiv_nonneg zdiv_mono1)
  next
    case 2
    have "0 \<le> (- a) div c" "0 \<le> b div c" using 2 c by (simp_all add: pos_imp_zdiv_nonneg_iff)
    then show ?thesis using 2 c neg [of a] by (simp add: sdiv_nonneg)
  next
    case 3
    have "(- b) div c \<le> (- a) div c" using le c by (simp add: zdiv_mono1)
    then show ?thesis using 3 le neg [of a] neg [of b] by simp
  qed
qed

section \<open>The contract of std::sort\<close>

text \<open>What the standard requires of a comparator, and what it promises in return.\<close>

definition strict_weak_order :: "'a set \<Rightarrow> ('a \<Rightarrow> 'a \<Rightarrow> bool) \<Rightarrow> bool" where
  "strict_weak_order A lt \<longleftrightarrow>
     (\<forall>x\<in>A. \<not> lt x x) \<and>
     (\<forall>x\<in>A. \<forall>y\<in>A. \<forall>z\<in>A. lt x y \<longrightarrow> lt y z \<longrightarrow> lt x z) \<and>
     (\<forall>x\<in>A. \<forall>y\<in>A. \<forall>z\<in>A. \<not> lt x y \<longrightarrow> \<not> lt y z \<longrightarrow> \<not> lt x z)"

lemma strict_weak_orderI:
  assumes "\<And>x. x \<in> A \<Longrightarrow> \<not> lt x x"
    and "\<And>x y z. x \<in> A \<Longrightarrow> y \<in> A \<Longrightarrow> z \<in> A \<Longrightarrow> lt x y \<Longrightarrow> lt y z \<Longrightarrow> lt x z"
    and "\<And>x y z. x \<in> A \<Longrightarrow> y \<in> A \<Longrightarrow> z \<in> A \<Longrightarrow> \<not> lt x y \<Longrightarrow> \<not> lt y z \<Longrightarrow> \<not> lt x z"
  shows "strict_weak_order A lt"
  using assms unfolding strict_weak_order_def by blast

lemma strict_weak_order_asym:
  "strict_weak_order A lt \<Longrightarrow> x \<in> A \<Longrightarrow> y \<in> A \<Longrightarrow> lt x y \<Longrightarrow> \<not> lt y x"
  unfolding strict_weak_order_def by blast

lemma strict_weak_order_trans:
  "strict_weak_order A lt \<Longrightarrow> x \<in> A \<Longrightarrow> y \<in> A \<Longrightarrow> z \<in> A \<Longrightarrow> lt x y \<Longrightarrow> lt y z \<Longrightarrow> lt x z"
  unfolding strict_weak_order_def by blast

lemma strict_weak_order_nless_trans:
  "strict_weak_order A lt \<Longrightarrow> x \<in> A \<Longrightarrow> y \<in> A \<Longrightarrow> z \<in> A \<Longrightarrow> \<not> lt x y \<Longrightarrow> \<not> lt y z \<Longrightarrow> \<not> lt x z"
  unfolding strict_weak_order_def by blast

lemma strict_weak_order_subset: "strict_weak_order A lt \<Longrightarrow> B \<subseteq> A \<Longrightarrow> strict_weak_order B lt"
  unfolding strict_weak_order_def by (meson subsetD)

text \<open>Comparing by a key in a linear order is a strict weak order.\<close>

lemma strict_weak_order_key: "strict_weak_order A (\<lambda>x y. (key x :: 'k :: linorder) < key y)"
  by (rule strict_weak_orderI) auto

abbreviation sorted_by :: "('a \<Rightarrow> 'a \<Rightarrow> bool) \<Rightarrow> 'a list \<Rightarrow> bool" where
  "sorted_by lt \<equiv> sorted_wrt (\<lambda>x y. \<not> lt y x)"

text \<open>
  libstdc++ sorts a range of at most sixteen elements by insertion (\<^verbatim>\<open>std::__insertion_sort\<close>): an
  element that compares less than the first one is moved to the front; any other one moves left from
  the back of the sorted part past every element it compares less than
  (\<^verbatim>\<open>std::__unguarded_linear_insert\<close>, here on the reversed sorted part). On a longer range libstdc++
  partitions first; what is proved about longer ranges uses the contract below only.
\<close>

fun linear_insert :: "('a \<Rightarrow> 'a \<Rightarrow> bool) \<Rightarrow> 'a \<Rightarrow> 'a list \<Rightarrow> 'a list" where
  "linear_insert lt x [] = [x]"
| "linear_insert lt x (y # ys) = (if lt x y then y # linear_insert lt x ys else x # y # ys)"

definition insert_back :: "('a \<Rightarrow> 'a \<Rightarrow> bool) \<Rightarrow> 'a \<Rightarrow> 'a list \<Rightarrow> 'a list" where
  "insert_back lt x ys =
     (if ys \<noteq> [] \<and> lt x (hd ys) then x # ys else rev (linear_insert lt x (rev ys)))"

definition std_sort :: "('a \<Rightarrow> 'a \<Rightarrow> bool) \<Rightarrow> 'a list \<Rightarrow> 'a list" where
  "std_sort lt xs = fold (insert_back lt) xs []"

text \<open>The interface a client of \<^verbatim>\<open>std::sort\<close> may rely on, and what follows from it alone.\<close>

locale sort_contract =
  fixes srt :: "('a \<Rightarrow> 'a \<Rightarrow> bool) \<Rightarrow> 'a list \<Rightarrow> 'a list"
  assumes srt_perm: "mset (srt lt xs) = mset xs"
    and srt_sorted: "strict_weak_order (set xs) lt \<Longrightarrow> sorted_by lt (srt lt xs)"
begin

lemma srt_set: "set (srt lt xs) = set xs"
  using srt_perm [of lt xs] by (metis set_mset_mset)

lemma srt_length: "length (srt lt xs) = length xs"
  using srt_perm [of lt xs] by (metis size_mset)

lemma srt_Nil_iff: "srt lt xs = [] \<longleftrightarrow> xs = []"
  using srt_length [of lt xs] by (metis length_0_conv)

lemma srt_hd_in: "xs \<noteq> [] \<Longrightarrow> hd (srt lt xs) \<in> set xs"
  using srt_set [of lt xs] srt_Nil_iff [of lt xs] by (metis hd_in_set)

lemma srt_hd_minimal:
  assumes "strict_weak_order (set xs) lt" and "y \<in> set xs"
  shows "\<not> lt y (hd (srt lt xs))"
proof -
  have sorted: "sorted_by lt (srt lt xs)" using assms(1) by (rule srt_sorted)
  have y: "y \<in> set (srt lt xs)" using assms(2) by (simp add: srt_set)
  then obtain z zs where z: "srt lt xs = z # zs" by (cases "srt lt xs") auto
  have "z \<in> set xs" using z srt_set [of lt xs] by auto
  then have "\<not> lt z z" using assms(1) by (auto simp: strict_weak_order_def)
  then show ?thesis using sorted y z by auto
qed

end

lemma mset_linear_insert: "mset (linear_insert lt x ys) = add_mset x (mset ys)"
  by (induction ys) auto

lemma set_linear_insert [simp]: "set (linear_insert lt x ys) = insert x (set ys)"
  using mset_linear_insert [of lt x ys] by (metis set_mset_add_mset_insert set_mset_mset)

lemma mset_insert_back: "mset (insert_back lt x ys) = add_mset x (mset ys)"
  by (simp add: insert_back_def mset_linear_insert)

lemma set_insert_back [simp]: "set (insert_back lt x ys) = insert x (set ys)"
  using mset_insert_back [of lt x ys] by (metis set_mset_add_mset_insert set_mset_mset)

lemma mset_fold_insert_back: "mset (fold (insert_back lt) xs ys) = mset xs + mset ys"
  by (induction xs arbitrary: ys) (auto simp: mset_insert_back)

text \<open>The sorted part is read from its back, so it is sorted the other way round.\<close>

lemma sorted_linear_insert:
  assumes "strict_weak_order A lt" and "insert x (set ys) \<subseteq> A" and "sorted_wrt (\<lambda>a b. \<not> lt a b) ys"
  shows "sorted_wrt (\<lambda>a b. \<not> lt a b) (linear_insert lt x ys)"
  using assms(2,3)
proof (induction ys)
  case Nil
  then show ?case by simp
next
  case (Cons y ys)
  show ?case
  proof (cases "lt x y")
    case True
    have "\<not> lt y x" using strict_weak_order_asym [OF assms(1)] Cons.prems(1) True by simp
    then show ?thesis using True Cons by auto
  next
    case False
    then have "\<not> lt x z" if "z \<in> set ys" for z
      using strict_weak_order_nless_trans [OF assms(1), of x y z] Cons.prems that by auto
    then show ?thesis using False Cons.prems by auto
  qed
qed

lemma sorted_insert_back:
  assumes "strict_weak_order A lt" and "insert x (set ys) \<subseteq> A" and "sorted_by lt ys"
  shows "sorted_by lt (insert_back lt x ys)"
proof (cases "ys \<noteq> [] \<and> lt x (hd ys)")
  case True
  then obtain y zs where ys: "ys = y # zs" "lt x y" by (cases ys) auto
  have yx: "\<not> lt y x" using strict_weak_order_asym [OF assms(1) _ _ ys(2)] assms(2) ys(1) by simp
  then have "\<not> lt z x" if "z \<in> set zs" for z
    using strict_weak_order_nless_trans [OF assms(1), of z y x] assms(2,3) ys(1) that by auto
  then show ?thesis using yx ys assms(3) by (auto simp: insert_back_def)
next
  case False
  then show ?thesis
    using sorted_linear_insert [OF assms(1), of x "rev ys"] assms(2,3)
    by (auto simp: insert_back_def sorted_wrt_rev)
qed

lemma sorted_fold_insert_back:
  assumes "strict_weak_order A lt" and "set xs \<union> set ys \<subseteq> A" and "sorted_by lt ys"
  shows "sorted_by lt (fold (insert_back lt) xs ys)"
  using assms(2,3)
  by (induction xs arbitrary: ys) (auto simp: sorted_insert_back [OF assms(1)])

interpretation std: sort_contract std_sort
proof
  show "mset (std_sort lt xs) = mset xs" for lt :: "'a \<Rightarrow> 'a \<Rightarrow> bool" and xs
    by (simp add: std_sort_def mset_fold_insert_back)
  show "sorted_by lt (std_sort lt xs)" if "strict_weak_order (set xs) lt"
    for lt :: "'a \<Rightarrow> 'a \<Rightarrow> bool" and xs
    using sorted_fold_insert_back [OF that, of xs "[]"] by (simp add: std_sort_def)
qed

text \<open>A range that is already sorted is left as it is.\<close>

lemma insert_back_last:
  assumes "\<And>y. y \<in> set ys \<Longrightarrow> \<not> lt x y"
  shows "insert_back lt x ys = ys @ [x]"
proof -
  have "linear_insert lt x (rev ys) = x # rev ys"
    using assms by (cases "rev ys") (auto simp: in_set_conv_decomp rev_eq_Cons_iff)
  then show ?thesis using assms hd_in_set [of ys] by (auto simp: insert_back_def)
qed

lemma fold_insert_back_id:
  "sorted_by lt (ys @ xs) \<Longrightarrow> fold (insert_back lt) xs ys = ys @ xs"
proof (induction xs arbitrary: ys)
  case Nil
  then show ?case by simp
next
  case (Cons x xs)
  have "insert_back lt x ys = ys @ [x]"
    using Cons.prems by (intro insert_back_last) (auto simp: sorted_wrt_append)
  then show ?case using Cons.IH [of "ys @ [x]"] Cons.prems by simp
qed

lemma std_sort_id: "sorted_by lt xs \<Longrightarrow> std_sort lt xs = xs"
  using fold_insert_back_id [of lt "[]" xs] by (simp add: std_sort_def)

section \<open>Reachability and invariants\<close>

inductive reach :: "('s \<Rightarrow> bool) \<Rightarrow> ('s \<Rightarrow> 's \<Rightarrow> bool) \<Rightarrow> 's \<Rightarrow> bool" for init step where
  reach_init: "init s \<Longrightarrow> reach init step s"
| reach_step: "reach init step s \<Longrightarrow> step s t \<Longrightarrow> reach init step t"

text \<open>An inductive invariant of a step relation holds in every reachable state.\<close>

locale inductive_invariant =
  fixes init :: "'s \<Rightarrow> bool" and step :: "'s \<Rightarrow> 's \<Rightarrow> bool" and inv :: "'s \<Rightarrow> bool"
  assumes init_inv: "init s \<Longrightarrow> inv s"
    and step_inv: "inv s \<Longrightarrow> step s t \<Longrightarrow> inv t"
begin

lemma reach_inv: "reach init step s \<Longrightarrow> inv s"
  by (induction rule: reach.induct) (auto intro: init_inv step_inv)

end

end
