(* ===== verification/Gem_Comm.thy ===== *)
theory Gem_Comm
  imports Gem_Prelude
begin

text \<open>
  The message layer, \<^verbatim>\<open>src/src/comm.h\<close> and \<^verbatim>\<open>src/src/comm.cpp\<close>: fixed-size request and
  response buffers, the copy helpers \<^verbatim>\<open>append_msg_data\<close> and \<^verbatim>\<open>get_msg_data\<close>, the four
  \<^verbatim>\<open>prepare\<close>/\<^verbatim>\<open>parse\<close> functions and the retry loop \<^verbatim>\<open>multiple_attempt\<close>.

  A buffer is a byte list of its declared length; a copy that would leave it is \<open>None\<close>.
  The static variables of \<^verbatim>\<open>prepare_request\<close> are the record \<open>comm_state\<close> (the counter of the ids wraps as a word; after
  \<open>2^31\<close> requests \<^verbatim>\<open>id++\<close> is a signed overflow in C++), the environment it
  reads (\<^verbatim>\<open>getenv\<close>, \<^verbatim>\<open>gethostname\<close>) is the record \<open>comm_env\<close>, and the variable arguments are
  a list of tagged values, so that reading one with another type than it was passed with is an
  error too.
\<close>

section \<open>Objects as bytes\<close>

fun le_bytes :: "nat \<Rightarrow> nat \<Rightarrow> byte list" where
  "le_bytes 0 v = []"
| "le_bytes (Suc n) v = word_of_nat (v mod 256) # le_bytes n (v div 256)"

fun le_value :: "byte list \<Rightarrow> nat" where
  "le_value [] = 0"
| "le_value (b # bs) = unat b + 256 * le_value bs"

lemma length_le_bytes [simp]: "length (le_bytes n v) = n"
  by (induction n arbitrary: v) auto

lemma unat_byte_of_nat: "unat (word_of_nat (v mod 256) :: byte) = v mod 256"
  by (simp add: unat_of_nat)

lemma le_value_le_bytes: "le_value (le_bytes n v) = v mod 256 ^ n"
proof (induction n arbitrary: v)
  case 0
  then show ?case by simp
next
  case (Suc n)
  then show ?case
    by (simp add: unat_byte_of_nat mod_mult2_eq add.commute del: word_of_nat_eq_0_iff)
qed

definition bytes64 :: "64 word \<Rightarrow> byte list" where
  "bytes64 w = le_bytes 8 (unat w)"

definition word64 :: "byte list \<Rightarrow> 64 word" where
  "word64 bs = word_of_nat (le_value bs)"

definition bytes32 :: "int32 \<Rightarrow> byte list" where
  "bytes32 w = le_bytes 4 (unat w)"

definition word32 :: "byte list \<Rightarrow> int32" where
  "word32 bs = word_of_nat (le_value bs)"

definition byte_of_char :: "char \<Rightarrow> byte" where
  "byte_of_char c = word_of_nat (of_char c)"

definition char_of_byte :: "byte \<Rightarrow> char" where
  "char_of_byte b = char_of (unat b)"

definition bytes_char :: "char \<Rightarrow> byte list" where
  "bytes_char c = [byte_of_char c]"

definition char_bytes :: "byte list \<Rightarrow> char" where
  "char_bytes bs = char_of_byte (hd bs)"

datatype comm_request_t = REQ_QUOTA | REQ_MEM_LIMIT | REQ_MEM_UPDATE | REQ_UNKNOWN int32

text \<open>An enumeration object holds the 32-bit value of its enumerator; a value read from a message
  need not be one of the three.\<close>

fun enum_value :: "comm_request_t \<Rightarrow> int32" where
  "enum_value REQ_QUOTA = 0"
| "enum_value REQ_MEM_LIMIT = 1"
| "enum_value REQ_MEM_UPDATE = 2"
| "enum_value (REQ_UNKNOWN w) = w"

definition enum_of :: "int32 \<Rightarrow> comm_request_t" where
  "enum_of w = (if w = 0 then REQ_QUOTA else if w = 1 then REQ_MEM_LIMIT
     else if w = 2 then REQ_MEM_UPDATE else REQ_UNKNOWN w)"

definition known_request :: "comm_request_t \<Rightarrow> bool" where
  "known_request t \<longleftrightarrow> enum_of (enum_value t) = t"

lemma known_request_simps [simp]:
  "known_request REQ_QUOTA" "known_request REQ_MEM_LIMIT" "known_request REQ_MEM_UPDATE"
  by (simp_all add: known_request_def enum_of_def)

definition bytes_enum :: "comm_request_t \<Rightarrow> byte list" where
  "bytes_enum t = bytes32 (enum_value t)"

definition enum_bytes :: "byte list \<Rightarrow> comm_request_t" where
  "enum_bytes bs = enum_of (word32 bs)"

section \<open>append_msg_data and get_msg_data\<close>

definition append_msg_data :: "byte list \<Rightarrow> size_t \<Rightarrow> byte list \<Rightarrow> (byte list \<times> size_t) option" where
  "append_msg_data buf pos data =
     (if unat pos + length data \<le> length buf
      then Some (take (unat pos) buf @ data @ drop (unat pos + length data) buf,
                 pos + word_of_nat (length data))
      else None)"

definition get_msg_data :: "nat \<Rightarrow> (byte list \<Rightarrow> 'a) \<Rightarrow> byte list \<Rightarrow> size_t \<Rightarrow> ('a \<times> size_t) option" where
  "get_msg_data size_of decode buf pos =
     (if unat pos + size_of \<le> length buf
      then Some (decode (take size_of (drop (unat pos) buf)), pos + word_of_nat size_of)
      else None)"

text \<open>The variable arguments of \<^verbatim>\<open>prepare_request\<close> and \<^verbatim>\<open>prepare_response\<close>: each value with
  the type it is passed with.\<close>

datatype vararg = ADouble double_bits | ASize size_t | AInt int32 | APointer "64 word"

fun va_double :: "vararg list \<Rightarrow> (double_bits \<times> vararg list) option" where
  "va_double (ADouble d # vl) = Some (d, vl)"
| "va_double _ = None"

fun va_size :: "vararg list \<Rightarrow> (size_t \<times> vararg list) option" where
  "va_size (ASize n # vl) = Some (n, vl)"
| "va_size _ = None"

fun va_int :: "vararg list \<Rightarrow> (int32 \<times> vararg list) option" where
  "va_int (AInt n # vl) = Some (n, vl)"
| "va_int _ = None"

section \<open>prepare_request, parse_request\<close>

definition REQ_MSG_LEN :: nat where "REQ_MSG_LEN = 80"
definition RSP_MSG_LEN :: nat where "RSP_MSG_LEN = 40"

record comm_env =
  env_pod_name :: "string option"
  env_hostname :: string

record comm_state =
  client_name :: "string option"
  next_id :: int32

definition comm_init :: comm_state where
  "comm_init = \<lparr>client_name = None, next_id = 0\<rparr>"

definition resolve_name :: "comm_env \<Rightarrow> comm_state \<Rightarrow> string" where
  "resolve_name env st = (case client_name st of Some n \<Rightarrow> n | None \<Rightarrow>
     (case env_pod_name env of Some n \<Rightarrow> n | None \<Rightarrow> env_hostname env))"

definition name_bytes :: "string \<Rightarrow> byte list" where
  "name_bytes s = map byte_of_char s"

definition append_request_extra ::
  "comm_request_t \<Rightarrow> vararg list \<Rightarrow> byte list \<Rightarrow> size_t \<Rightarrow> (byte list \<times> size_t) option" where
  "append_request_extra type vl buf pos =
     (if type = REQ_QUOTA then do {
        (d, vl) \<leftarrow> va_double vl;
        (buf, pos) \<leftarrow> append_msg_data buf pos (bytes64 d);
        (d, vl) \<leftarrow> va_double vl;
        append_msg_data buf pos (bytes64 d)
      }
      else if type = REQ_MEM_UPDATE then do {
        (n, vl) \<leftarrow> va_size vl;
        (buf, pos) \<leftarrow> append_msg_data buf pos (bytes64 n);
        (i, vl) \<leftarrow> va_int vl;
        append_msg_data buf pos (bytes32 i)
      }
      else Some (buf, pos))"

definition prepare_request ::
  "comm_env \<Rightarrow> comm_state \<Rightarrow> byte list \<Rightarrow> comm_request_t \<Rightarrow> vararg list
    \<Rightarrow> (int32 \<times> comm_state \<times> byte list) option" where
  "prepare_request env st buf type vl =
     (let name = resolve_name env st; rid = next_id st in do {
        (buf, pos) \<leftarrow> append_msg_data buf 0 (bytes64 (word_of_nat (length name)));
        (buf, pos) \<leftarrow> append_msg_data buf pos (name_bytes name);
        (buf, pos) \<leftarrow> append_msg_data buf pos (bytes_char (CHR 0x00));
        (buf, pos) \<leftarrow> append_msg_data buf pos (bytes32 rid);
        (buf, pos) \<leftarrow> append_msg_data buf pos (bytes_enum type);
        (buf, pos) \<leftarrow> append_request_extra type vl buf pos;
        Some (rid, \<lparr>client_name = Some name, next_id = rid + 1\<rparr>, buf)
      })"

text \<open>The fields \<^verbatim>\<open>parse_request\<close> stores through its arguments, and the offset of the attached data
  it returns. The name is a pointer into the buffer, at \<^verbatim>\<open>sizeof(size_t)\<close>.\<close>

record parsed_request =
  pr_name :: size_t
  pr_name_len :: size_t
  pr_id :: int32
  pr_type :: comm_request_t
  pr_attached :: size_t

definition parse_request :: "byte list \<Rightarrow> parsed_request option" where
  "parse_request buf = do {
     (name_len, pos) \<leftarrow> get_msg_data 8 word64 buf 0;
     let pos = pos + (name_len + 1);
     (rid, pos) \<leftarrow> get_msg_data 4 word32 buf pos;
     (type, pos) \<leftarrow> get_msg_data 4 enum_bytes buf pos;
     Some \<lparr>pr_name = 8, pr_name_len = name_len, pr_id = rid, pr_type = type, pr_attached = pos\<rparr>
   }"

text \<open>\<^verbatim>\<open>string(p)\<close> for a pointer into a buffer: the characters up to the first NUL.\<close>

definition c_string :: "byte list \<Rightarrow> size_t \<Rightarrow> string option" where
  "c_string buf p =
     (let bs = drop (unat p) buf in
      if 0 \<in> set bs then Some (map char_of_byte (takeWhile (\<lambda>b. b \<noteq> 0) bs)) else None)"

definition attached_data :: "byte list \<Rightarrow> size_t \<Rightarrow> byte list" where
  "attached_data buf off = drop (unat off) buf"

section \<open>prepare_response, parse_response\<close>

definition append_response_extra ::
  "comm_request_t \<Rightarrow> vararg list \<Rightarrow> byte list \<Rightarrow> size_t \<Rightarrow> (byte list \<times> size_t) option" where
  "append_response_extra type vl buf pos =
     (if type = REQ_QUOTA then do {
        (d, vl) \<leftarrow> va_double vl;
        append_msg_data buf pos (bytes64 d)
      }
      else if type = REQ_MEM_UPDATE then do {
        (i, vl) \<leftarrow> va_int vl;
        append_msg_data buf pos (bytes32 i)
      }
      else if type = REQ_MEM_LIMIT then do {
        (n, vl) \<leftarrow> va_size vl;
        (buf, pos) \<leftarrow> append_msg_data buf pos (bytes64 n);
        (n, vl) \<leftarrow> va_size vl;
        append_msg_data buf pos (bytes64 n)
      }
      else Some (buf, pos))"

definition prepare_response ::
  "byte list \<Rightarrow> comm_request_t \<Rightarrow> int32 \<Rightarrow> vararg list \<Rightarrow> (byte list \<times> size_t) option" where
  "prepare_response buf type rid vl = do {
     (buf, pos) \<leftarrow> append_msg_data buf 0 (bytes32 rid);
     append_response_extra type vl buf pos
   }"

definition parse_response :: "byte list \<Rightarrow> (int32 \<times> size_t) option" where
  "parse_response buf = get_msg_data 4 word32 buf 0"

section \<open>multiple_attempt\<close>

text \<open>
  The callback runs in a state \<open>'s\<close> (the network, say) and returns its result and the value it
  leaves in \<^verbatim>\<open>errno\<close>; \<open>slp\<close> is the effect of \<^verbatim>\<open>sleep(interval)\<close>.
  \<open>attempt_loop\<close> is the body of the \<^verbatim>\<open>for\<close> loop with \<open>n\<close> attempts left; the result is \<open>None\<close>
  when \<^verbatim>\<open>rc\<close> is returned uninitialised.
\<close>

fun attempt_loop ::
  "('s \<Rightarrow> int \<times> int \<times> 's) \<Rightarrow> ('s \<Rightarrow> 's) \<Rightarrow> int \<Rightarrow> nat \<Rightarrow> int option \<Rightarrow> 's \<Rightarrow> int option \<times> 's" where
  "attempt_loop func slp interval 0 rc s = (rc, s)"
| "attempt_loop func slp interval (Suc n) rc s =
     (let (r, errno, s') = func s in
      if r = 0 then (Some r, s')
      else let r' = (if r = -1 then errno else r);
               s'' = (if interval > 0 then slp s' else s')
           in attempt_loop func slp interval n (Some r') s'')"

definition multiple_attempt ::
  "('s \<Rightarrow> int \<times> int \<times> 's) \<Rightarrow> ('s \<Rightarrow> 's) \<Rightarrow> int \<Rightarrow> int \<Rightarrow> 's \<Rightarrow> int option \<times> 's" where
  "multiple_attempt func slp max_attempt interval s =
     attempt_loop func slp interval (nat max_attempt) None s"

section \<open>The copy helpers write and read one object\<close>

text \<open>A buffer whose first bytes are already written, and the position after them.\<close>

definition filled :: "byte list \<Rightarrow> byte list \<Rightarrow> byte list" where
  "filled p buf = p @ drop (length p) buf"

definition after :: "byte list \<Rightarrow> size_t" where
  "after p = word_of_nat (length p)"

lemma filled_Nil: "filled [] buf = buf"
  by (simp add: filled_def)

lemma after_Nil: "after [] = 0"
  by (simp add: after_def)

lemma length_filled: "length p \<le> length buf \<Longrightarrow> length (filled p buf) = length buf"
  by (simp add: filled_def)

lemma unat_length: "length (xs :: 'a list) < 2 ^ 64 \<Longrightarrow> unat (word_of_nat (length xs) :: size_t) = length xs"
  by (simp add: unat_of_nat)

lemma unat_after: "length p < 2 ^ 64 \<Longrightarrow> unat (after p) = length p"
  by (simp add: after_def unat_length)

lemma append_msg_data_filled [wire_simps]:
  assumes "length buf < 2 ^ 64" and "length p \<le> length buf"
  shows "append_msg_data (filled p buf) (after p) d =
    (if length p + length d \<le> length buf then Some (filled (p @ d) buf, after (p @ d)) else None)"
proof -
  have u: "unat (after p) = length p" using assms by (simp add: unat_after)
  have "after p + word_of_nat (length d) = after (p @ d)" by (simp add: after_def)
  then show ?thesis
    using assms by (simp add: append_msg_data_def length_filled u filled_def add.commute)
qed

lemma append_msg_data_first [wire_simps]:
  assumes "length buf < 2 ^ 64"
  shows "append_msg_data buf 0 d =
    (if length d \<le> length buf then Some (filled d buf, after d) else None)"
  using append_msg_data_filled [OF assms, of "[]" d] by (simp add: filled_Nil after_Nil)

text \<open>The interface of one wire type: a fixed width, and decoding undoes encoding.\<close>

locale msg_datum =
  fixes size_of :: nat and encode :: "'a \<Rightarrow> byte list" and decode :: "byte list \<Rightarrow> 'a"
    and valid :: "'a \<Rightarrow> bool"
  assumes encode_length: "length (encode x) = size_of"
    and decode_encode: "valid x \<Longrightarrow> decode (encode x) = x"
begin

lemma get_at:
  assumes "length (p @ encode x @ r) < 2 ^ 64" and "valid x"
  shows "get_msg_data size_of decode (p @ encode x @ r) (after p) = Some (x, after (p @ encode x))"
  using assms unat_after [of p]
  by (simp add: get_msg_data_def encode_length decode_encode) (simp add: after_def encode_length)

lemma append_then_get:
  assumes "length buf < 2 ^ 64" and "length p + size_of \<le> length buf" and "valid x"
  shows "\<exists>buf' pos'. append_msg_data (filled p buf) (after p) (encode x) = Some (buf', pos')
    \<and> get_msg_data size_of decode buf' (after p) = Some (x, pos')"
proof -
  have "filled (p @ encode x) buf = p @ encode x @ drop (length p + size_of) buf"
    by (simp add: filled_def encode_length add.commute)
  then show ?thesis
    using assms get_at [of p x "drop (length p + size_of) buf"]
    by (simp add: append_msg_data_filled encode_length)
qed

end

lemma length_bytes64 [simp]: "length (bytes64 w) = 8"
  by (simp add: bytes64_def)

lemma length_bytes32 [simp]: "length (bytes32 w) = 4"
  by (simp add: bytes32_def)

lemma length_bytes_enum [simp]: "length (bytes_enum t) = 4"
  by (simp add: bytes_enum_def)

lemma length_bytes_char [simp]: "length (bytes_char c) = 1"
  by (simp add: bytes_char_def)

lemma length_name_bytes [simp]: "length (name_bytes s) = length s"
  by (simp add: name_bytes_def)

lemma word64_bytes64 [simp]: "word64 (bytes64 w) = w"
  using unat_size_t_less [of w] by (simp add: word64_def bytes64_def le_value_le_bytes)

lemma word32_bytes32 [simp]: "word32 (bytes32 w) = w"
  using unat_int32_less [of w] by (simp add: word32_def bytes32_def le_value_le_bytes)

lemma char_of_byte_of_char [simp]: "char_of_byte (byte_of_char c) = c"
  by (simp add: char_of_byte_def byte_of_char_def unat_of_nat)

interpretation d64: msg_datum 8 bytes64 word64 "\<lambda>_. True"
  by unfold_locales simp_all

interpretation d32: msg_datum 4 bytes32 word32 "\<lambda>_. True"
  by unfold_locales simp_all

interpretation denum: msg_datum 4 bytes_enum enum_bytes known_request
  by unfold_locales (simp_all add: bytes_enum_def enum_bytes_def known_request_def)

interpretation dchar: msg_datum 1 bytes_char char_bytes "\<lambda>_. True"
  by unfold_locales (simp_all add: bytes_char_def char_bytes_def)

section \<open>Layout of the prepared buffers\<close>

definition request_header :: "string \<Rightarrow> int32 \<Rightarrow> comm_request_t \<Rightarrow> byte list" where
  "request_header name rid type =
     bytes64 (word_of_nat (length name)) @ name_bytes name @ bytes_char (CHR 0x00) @ bytes32 rid
       @ bytes_enum type"

lemma length_request_header [simp]: "length (request_header name rid type) = 17 + length name"
  by (simp add: request_header_def)

fun request_extra :: "comm_request_t \<Rightarrow> vararg list \<Rightarrow> byte list option" where
  "request_extra REQ_QUOTA (ADouble a # ADouble b # _) = Some (bytes64 a @ bytes64 b)"
| "request_extra REQ_MEM_UPDATE (ASize n # AInt i # _) = Some (bytes64 n @ bytes32 i)"
| "request_extra REQ_MEM_LIMIT _ = Some []"
| "request_extra _ _ = None"

lemma append_request_extra_filled:
  assumes "length buf < 2 ^ 64" and "length p \<le> length buf" and "request_extra type vl = Some e"
  shows "append_request_extra type vl (filled p buf) (after p) =
    (if length p + length e \<le> length buf then Some (filled (p @ e) buf, after (p @ e)) else None)"
  using assms
  by (cases "(type, vl)" rule: request_extra.cases) (auto simp: append_request_extra_def wire_simps)

lemma prepare_request_layout:
  assumes "length buf < 2 ^ 64" and "request_extra type vl = Some e"
  shows "prepare_request env st buf type vl =
    (let name = resolve_name env st; msg = request_header name (next_id st) type @ e in
     if length msg \<le> length buf
     then Some (next_id st, \<lparr>client_name = Some name, next_id = next_id st + 1\<rparr>, filled msg buf)
     else None)"
  using assms
  by (auto simp: prepare_request_def Let_def wire_simps append_request_extra_filled request_header_def)

section \<open>Parsing what was prepared\<close>

definition c_safe :: "string \<Rightarrow> bool" where
  "c_safe s \<longleftrightarrow> CHR 0x00 \<notin> set s"

lemma byte_of_char_NUL [simp]: "byte_of_char (CHR 0x00) = 0"
  by (simp add: byte_of_char_def)

lemma byte_of_char_0_iff: "byte_of_char c = 0 \<longleftrightarrow> c = CHR 0x00"
  by (metis byte_of_char_NUL char_of_byte_of_char)

lemma takeWhile_name_bytes:
  "c_safe s \<Longrightarrow> takeWhile (\<lambda>b. b \<noteq> 0) (name_bytes s @ 0 # r) = name_bytes s"
  by (rule takeWhile_append2 [THEN trans])
     (auto simp: name_bytes_def c_safe_def byte_of_char_0_iff)

lemma c_string_request_header:
  "c_safe name \<Longrightarrow> c_string (request_header name rid type @ r) 8 = Some name"
  by (simp add: c_string_def request_header_def bytes_char_def
      takeWhile_name_bytes Let_def) (simp add: name_bytes_def comp_def)

lemma parse_request_header:
  assumes "length (request_header name rid type @ r) < 2 ^ 64" and "known_request type"
  shows "parse_request (request_header name rid type @ r) =
    Some \<lparr>pr_name = 8, pr_name_len = word_of_nat (length name), pr_id = rid, pr_type = type,
          pr_attached = after (request_header name rid type)\<rparr>"
proof -
  let ?n = "bytes64 (word_of_nat (length name))"
  let ?p = "?n @ name_bytes name @ bytes_char (CHR 0x00)"
  have skip: "after ?n + (word_of_nat (length name) + 1) = after ?p"
    by (simp add: after_def)
  show ?thesis
    using assms d64.get_at [of "[]" "word_of_nat (length name)" "name_bytes name @ _"]
      d32.get_at [of ?p rid "bytes_enum type @ r"] denum.get_at [of "?p @ bytes32 rid" type r]
    by (simp add: parse_request_def request_header_def after_Nil skip)
qed

lemma attached_data_after: "length p < 2 ^ 64 \<Longrightarrow> attached_data (p @ r) (after p) = r"
  by (simp add: attached_data_def unat_after)

lemma filled_append: "length p \<le> length buf \<Longrightarrow> filled (p @ e) buf = p @ (e @ drop (length p + length e) buf)"
  by (simp add: filled_def add.commute)

text \<open>The two objects a request carries after its header, read one after the other.\<close>

lemma get_two_64: "length (bytes64 a @ bytes64 b @ r) < 2 ^ 64 \<Longrightarrow>
  get_msg_data 8 word64 (bytes64 a @ bytes64 b @ r) 0 = Some (a, 8) \<and>
  get_msg_data 8 word64 (bytes64 a @ bytes64 b @ r) 8 = Some (b, 16)"
  using d64.get_at [of "[]" a "bytes64 b @ r"] d64.get_at [of "bytes64 a" b r]
  by (simp add: after_Nil) (simp add: after_def)

lemma get_64_32: "length (bytes64 a @ bytes32 i @ r) < 2 ^ 64 \<Longrightarrow>
  get_msg_data 8 word64 (bytes64 a @ bytes32 i @ r) 0 = Some (a, 8) \<and>
  get_msg_data 4 word32 (bytes64 a @ bytes32 i @ r) 8 = Some (i, 12)"
  using d64.get_at [of "[]" a "bytes32 i @ r"] d32.get_at [of "bytes64 a" i r]
  by (simp add: after_Nil) (simp add: after_def)

text \<open>What a receiver sees of a buffer: the name, the id and the type.\<close>

definition carries :: "byte list \<Rightarrow> string \<Rightarrow> int32 \<Rightarrow> comm_request_t \<Rightarrow> byte list \<Rightarrow> bool" where
  "carries buf name rid type att \<longleftrightarrow>
     (\<exists>pr. parse_request buf = Some pr \<and> c_string buf (pr_name pr) = Some name
        \<and> pr_name_len pr = word_of_nat (length name) \<and> pr_id pr = rid \<and> pr_type pr = type
        \<and> attached_data buf (pr_attached pr) = att)"

lemma carries_request_header:
  assumes "length (request_header name rid type @ r) < 2 ^ 64" and "known_request type" and "c_safe name"
  shows "carries (request_header name rid type @ r) name rid type r"
  using assms parse_request_header [OF assms(1,2)] c_string_request_header [OF assms(3)]
  by (auto simp: carries_def attached_data_after)

lemma prepare_request_carries:
  assumes "length buf < 2 ^ 64" and "request_extra type vl = Some e" and "known_request type"
    and "c_safe (resolve_name env st)" and "17 + length (resolve_name env st) + length e \<le> length buf"
  shows "\<exists>buf'. prepare_request env st buf type vl =
      Some (next_id st, \<lparr>client_name = Some (resolve_name env st), next_id = next_id st + 1\<rparr>, buf')
    \<and> length buf' = length buf
    \<and> carries buf' (resolve_name env st) (next_id st) type
        (e @ drop (17 + length (resolve_name env st) + length e) buf)"
proof -
  let ?h = "request_header (resolve_name env st) (next_id st) type"
  have eq: "filled (?h @ e) buf = ?h @ (e @ drop (17 + length (resolve_name env st) + length e) buf)"
    using assms(5) filled_append [of ?h buf e] by simp
  have "carries (filled (?h @ e) buf) (resolve_name env st) (next_id st) type
      (e @ drop (17 + length (resolve_name env st) + length e) buf)"
    unfolding eq using assms by (intro carries_request_header) auto
  then show ?thesis
    using assms by (auto simp: prepare_request_layout Let_def length_filled)
qed

lemma append_msg_data_length: "append_msg_data buf pos bs = Some (buf', pos') \<Longrightarrow> length buf' = length buf"
  by (auto simp: append_msg_data_def split: if_splits)

lemma prepare_response_length:
  "prepare_response buf type rid vl = Some (buf', pos) \<Longrightarrow> length buf' = length buf"
  by (auto simp: prepare_response_def append_response_extra_def bind_eq_Some_conv Let_def dest!: append_msg_data_length split: if_splits)

lemma append_request_extra_length:
  "append_request_extra type vl buf pos = Some (buf', pos') \<Longrightarrow> length buf' = length buf"
  by (cases type) (auto simp: append_request_extra_def bind_eq_Some_conv dest!: append_msg_data_length split: if_splits)

lemma prepare_request_length:
  assumes "prepare_request env st buf type vl = Some (rid, st', buf')"
  shows "length buf' = length buf"
proof -
  obtain b1 p1 b2 p2 b3 p3 b4 p4 b5 p5 p6 where
      "append_msg_data buf 0 (bytes64 (word_of_nat (length (resolve_name env st)))) = Some (b1, p1)"
      "append_msg_data b1 p1 (name_bytes (resolve_name env st)) = Some (b2, p2)"
      "append_msg_data b2 p2 (bytes_char (CHR 0x00)) = Some (b3, p3)"
      "append_msg_data b3 p3 (bytes32 (next_id st)) = Some (b4, p4)"
      "append_msg_data b4 p4 (bytes_enum type) = Some (b5, p5)"
      "append_request_extra type vl b5 p5 = Some (buf', p6)"
    using assms by (auto simp: prepare_request_def Let_def bind_eq_Some_conv)
  then show ?thesis using append_msg_data_length append_request_extra_length by metis
qed

lemma prepare_request_id:
  "prepare_request env st buf type vl = Some (rid, st', buf') \<Longrightarrow> rid = next_id st \<and> next_id st' = next_id st + 1"
  by (auto simp: prepare_request_def Let_def bind_eq_Some_conv)

lemma length_request_extra:
  "request_extra type vl = Some e \<Longrightarrow> length e = (if type = REQ_QUOTA then 16 else if type = REQ_MEM_UPDATE then 12 else 0)"
  by (cases "(type, vl)" rule: request_extra.cases) auto

fun response_extra :: "comm_request_t \<Rightarrow> vararg list \<Rightarrow> byte list option" where
  "response_extra REQ_QUOTA (ADouble a # _) = Some (bytes64 a)"
| "response_extra REQ_MEM_UPDATE (AInt i # _) = Some (bytes32 i)"
| "response_extra REQ_MEM_LIMIT (ASize n # ASize m # _) = Some (bytes64 n @ bytes64 m)"
| "response_extra _ _ = None"

lemma length_response_extra: "response_extra type vl = Some e \<Longrightarrow> length e \<le> 16"
  by (cases "(type, vl)" rule: response_extra.cases) auto

lemma prepare_response_layout:
  assumes "length buf < 2 ^ 64" and "response_extra type vl = Some e"
  shows "prepare_response buf type rid vl =
    (if 4 + length e \<le> length buf then Some (filled (bytes32 rid @ e) buf, after (bytes32 rid @ e)) else None)"
  using assms
  by (cases "(type, vl)" rule: response_extra.cases)
     (auto simp: prepare_response_def append_response_extra_def wire_simps)

lemma parse_response_layout:
  "length (bytes32 rid @ r) < 2 ^ 64 \<Longrightarrow>
   \<exists>off. parse_response (bytes32 rid @ r) = Some (rid, off) \<and> attached_data (bytes32 rid @ r) off = r"
  using d32.get_at [of "[]" rid r] attached_data_after [of "bytes32 rid" r]
  by (simp add: parse_response_def after_Nil)

lemma prepare_response_parses:
  assumes "length buf = RSP_MSG_LEN" and "response_extra type vl = Some e"
  shows "\<exists>buf' off. prepare_response buf type rid vl = Some (buf', word_of_nat (4 + length e))
    \<and> length buf' = RSP_MSG_LEN \<and> parse_response buf' = Some (rid, off)
    \<and> attached_data buf' off = e @ drop (4 + length e) buf"
proof -
  have fit: "4 + length e \<le> length buf"
    using assms(1) length_response_extra [OF assms(2)] by (simp add: RSP_MSG_LEN_def)
  have eq: "filled (bytes32 rid @ e) buf = bytes32 rid @ (e @ drop (4 + length e) buf)"
    using fit filled_append [of "bytes32 rid" buf e] by simp
  have len: "length (bytes32 rid @ (e @ drop (4 + length e) buf)) = RSP_MSG_LEN"
    using fit assms(1) by simp
  then obtain off where off: "parse_response (bytes32 rid @ (e @ drop (4 + length e) buf)) = Some (rid, off)"
      "attached_data (bytes32 rid @ (e @ drop (4 + length e) buf)) off = e @ drop (4 + length e) buf"
    using parse_response_layout [of rid "e @ drop (4 + length e) buf"] by (auto simp: RSP_MSG_LEN_def)
  show ?thesis
    using fit assms(1) prepare_response_layout [OF _ assms(2), of buf rid] off len
    by (auto simp: eq RSP_MSG_LEN_def after_def)
qed

section \<open>The retry loop\<close>

text \<open>The state before the \<open>k\<close>-th attempt of a loop in which every earlier attempt failed.\<close>

fun attempt_state ::
  "('s \<Rightarrow> int \<times> int \<times> 's) \<Rightarrow> ('s \<Rightarrow> 's) \<Rightarrow> int \<Rightarrow> 's \<Rightarrow> nat \<Rightarrow> 's" where
  "attempt_state func slp interval s 0 = s"
| "attempt_state func slp interval s (Suc k) =
     attempt_state func slp interval
       (let s' = snd (snd (func s)) in if interval > 0 then slp s' else s') k"

lemma attempt_loop_success:
  assumes "k < n" and "\<And>j. j < k \<Longrightarrow> fst (func (attempt_state func slp interval s j)) \<noteq> 0"
    and "fst (func (attempt_state func slp interval s k)) = 0"
  shows "attempt_loop func slp interval n rc s =
    (Some 0, snd (snd (func (attempt_state func slp interval s k))))"
  using assms
proof (induction n arbitrary: k rc s)
  case 0
  then show ?case by simp
next
  case (Suc n)
  show ?case
  proof (cases k)
    case 0
    then show ?thesis using Suc.prems(3) by (auto split: prod.splits)
  next
    case (Suc k')
    have "fst (func s) \<noteq> 0" using Suc.prems(2) [of 0] Suc by simp
    moreover have "fst (func (attempt_state func slp interval (attempt_state func slp interval s 1) j)) \<noteq> 0"
      if "j < k'" for j
      using Suc.prems(2) [of "Suc j"] that Suc by simp
    ultimately show ?thesis
      using Suc.IH [of k' "attempt_state func slp interval s 1"] Suc.prems(1,3) Suc
      by (auto simp: Let_def split: prod.splits)
  qed
qed

lemma attempt_loop_failure:
  assumes "0 < n" and "\<And>j. j < n \<Longrightarrow> fst (func (attempt_state func slp interval s j)) \<noteq> 0"
  shows "attempt_loop func slp interval n rc s =
    (let (r, errno, s') = func (attempt_state func slp interval s (n - 1)) in
     (Some (if r = -1 then errno else r), if interval > 0 then slp s' else s'))"
  using assms
proof (induction n arbitrary: rc s)
  case 0
  then show ?case by simp
next
  case (Suc n)
  obtain r e s' where f: "func s = (r, e, s')" by (cases "func s") auto
  define s1 where "s1 = (if interval > 0 then slp s' else s')"
  have r: "r \<noteq> 0" using Suc.prems(2) [of 0] f by simp
  have next_state: "attempt_state func slp interval s (Suc j) = attempt_state func slp interval s1 j" for j
    by (simp add: f s1_def)
  have unfold: "attempt_loop func slp interval (Suc n) rc s =
      attempt_loop func slp interval n (Some (if r = -1 then e else r)) s1"
    using r by (simp add: f s1_def)
  show ?case
  proof (cases "n = 0")
    case True
    then show ?thesis using unfold by (simp add: f s1_def)
  next
    case False
    have "fst (func (attempt_state func slp interval s1 j)) \<noteq> 0" if "j < n" for j
      using Suc.prems(2) [of "Suc j"] that by (simp only: next_state) simp
    moreover have "attempt_state func slp interval s1 (n - 1) = attempt_state func slp interval s (Suc n - 1)"
      using next_state [of "n - 1"] False by simp
    ultimately show ?thesis
      using Suc.IH [of s1 "Some (if r = -1 then e else r)"] False by (simp only: unfold) simp
  qed
qed

section \<open>Properties\<close>

text \<open>C20. A quota request survives the wire: for a client name of at most 47 characters,
  \<^verbatim>\<open>prepare_request\<close> fills the 80-byte buffer, numbers the request with the current id and
  advances it, and \<^verbatim>\<open>parse_request\<close> on the receiving side gives back the name, its length, the
  id, the type, and attached data from which the two doubles (overuse and burst) are read in
  order.\<close>

theorem quota_request_roundtrip:
  assumes "length buf = REQ_MSG_LEN" and "c_safe (resolve_name env st)"
    and "length (resolve_name env st) \<le> 47"
  shows "\<exists>st' buf' att.
    prepare_request env st buf REQ_QUOTA [ADouble overuse, ADouble burst] = Some (next_id st, st', buf')
    \<and> length buf' = REQ_MSG_LEN \<and> client_name st' = Some (resolve_name env st)
    \<and> next_id st' = next_id st + 1
    \<and> carries buf' (resolve_name env st) (next_id st) REQ_QUOTA att
    \<and> get_msg_data 8 word64 att 0 = Some (overuse, 8)
    \<and> get_msg_data 8 word64 att 8 = Some (burst, 16)"
proof -
  let ?rest = "drop (17 + length (resolve_name env st) + 16) buf"
  have "length (bytes64 overuse @ bytes64 burst @ ?rest) < 2 ^ 64"
    using assms(1) by (simp add: REQ_MSG_LEN_def)
  then show ?thesis
    using prepare_request_carries [of buf REQ_QUOTA "[ADouble overuse, ADouble burst]" _ env st]
      get_two_64 [of overuse burst ?rest] assms
    by (fastforce simp: REQ_MSG_LEN_def)
qed

theorem quota_request_roundtrip_witness:
  "\<exists>st' buf' att.
    prepare_request \<lparr>env_pod_name = Some ''pod1'', env_hostname = ''node''\<rparr> comm_init (replicate 80 0)
      REQ_QUOTA [ADouble 5, ADouble 7] = Some (0, st', buf')
    \<and> length buf' = REQ_MSG_LEN \<and> next_id st' = 1 \<and> carries buf' ''pod1'' 0 REQ_QUOTA att
    \<and> get_msg_data 8 word64 att 0 = Some (5, 8) \<and> get_msg_data 8 word64 att 8 = Some (7, 16)"
  using quota_request_roundtrip [of "replicate 80 0"
      "\<lparr>env_pod_name = Some ''pod1'', env_hostname = ''node''\<rparr>" comm_init 5 7]
  by (auto simp: REQ_MSG_LEN_def resolve_name_def comm_init_def c_safe_def)

text \<open>A memory request survives the wire: for a client name of at most 51 characters, the byte
  count and the allocate flag of a memory update are read back from the attached data, with the
  name, id and type of the request.\<close>

lemma mem_update_request_roundtrip:
  assumes "length buf = REQ_MSG_LEN" and "c_safe (resolve_name env st)"
    and "length (resolve_name env st) \<le> 51"
  shows "\<exists>st' buf' att.
    prepare_request env st buf REQ_MEM_UPDATE [ASize bytes, AInt is_allocate] = Some (next_id st, st', buf')
    \<and> length buf' = REQ_MSG_LEN \<and> next_id st' = next_id st + 1
    \<and> carries buf' (resolve_name env st) (next_id st) REQ_MEM_UPDATE att
    \<and> get_msg_data 8 word64 att 0 = Some (bytes, 8)
    \<and> get_msg_data 4 word32 att 8 = Some (is_allocate, 12)"
proof -
  let ?rest = "drop (17 + length (resolve_name env st) + 12) buf"
  have "length (bytes64 bytes @ bytes32 is_allocate @ ?rest) < 2 ^ 64"
    using assms(1) by (simp add: REQ_MSG_LEN_def)
  then show ?thesis
    using prepare_request_carries [of buf REQ_MEM_UPDATE "[ASize bytes, AInt is_allocate]" _ env st]
      get_64_32 [of bytes is_allocate ?rest] assms
    by (fastforce simp: REQ_MSG_LEN_def)
qed

text \<open>C37. The exact bound on client names: with well-typed arguments, \<^verbatim>\<open>prepare_request\<close> writes
  outside its 80-byte buffer exactly when the name is longer than 47 characters (quota request),
  51 characters (memory update) or 63 characters (memory limit). Names of 48 to 62 characters are
  allowed by the README and overflow the buffer of a quota request.\<close>

theorem request_overflow_iff:
  assumes "length buf = REQ_MSG_LEN" and "request_extra type vl = Some e"
  shows "prepare_request env st buf type vl = None \<longleftrightarrow>
    (if type = REQ_QUOTA then 47 else if type = REQ_MEM_UPDATE then 51 else 63)
      < length (resolve_name env st)"
  using assms length_request_extra [OF assms(2)]
  by (auto simp: prepare_request_layout REQ_MSG_LEN_def Let_def)

theorem request_overflow_iff_witness:
  "prepare_request \<lparr>env_pod_name = Some (replicate 48 (CHR ''a'')), env_hostname = ''node''\<rparr> comm_init
     (replicate 80 0) REQ_QUOTA [ADouble 5, ADouble 7] = None"
  using request_overflow_iff [of "replicate 80 0" REQ_QUOTA "[ADouble 5, ADouble 7]" _
      "\<lparr>env_pod_name = Some (replicate 48 (CHR ''a'')), env_hostname = ''node''\<rparr>" comm_init]
  by (simp add: REQ_MSG_LEN_def resolve_name_def comm_init_def)

text \<open>Every response fits its 40-byte buffer and is read back: whatever the buffer held, the id
  comes first, and the attached data start with the quota, the verdict, or used and total
  memory.\<close>

lemma response_roundtrip:
  assumes "length buf = RSP_MSG_LEN"
  shows "(\<exists>buf' off. prepare_response buf REQ_QUOTA rid [ADouble quota] = Some (buf', 12)
      \<and> length buf' = RSP_MSG_LEN \<and> parse_response buf' = Some (rid, off)
      \<and> get_msg_data 8 word64 (attached_data buf' off) 0 = Some (quota, 8))
    \<and> (\<exists>buf' off. prepare_response buf REQ_MEM_UPDATE rid [AInt verdict] = Some (buf', 8)
      \<and> length buf' = RSP_MSG_LEN \<and> parse_response buf' = Some (rid, off)
      \<and> get_msg_data 4 word32 (attached_data buf' off) 0 = Some (verdict, 4))
    \<and> (\<exists>buf' off. prepare_response buf REQ_MEM_LIMIT rid [ASize used, ASize limit] = Some (buf', 20)
      \<and> length buf' = RSP_MSG_LEN \<and> parse_response buf' = Some (rid, off)
      \<and> get_msg_data 8 word64 (attached_data buf' off) 0 = Some (used, 8)
      \<and> get_msg_data 8 word64 (attached_data buf' off) 8 = Some (limit, 16))"
proof (intro conjI)
  have small: "length (drop n buf) < 2 ^ 60" for n
    using assms by (simp add: RSP_MSG_LEN_def)
  show "\<exists>buf' off. prepare_response buf REQ_QUOTA rid [ADouble quota] = Some (buf', 12)
      \<and> length buf' = RSP_MSG_LEN \<and> parse_response buf' = Some (rid, off)
      \<and> get_msg_data 8 word64 (attached_data buf' off) 0 = Some (quota, 8)"
    using prepare_response_parses [OF assms, of REQ_QUOTA "[ADouble quota]" _ rid]
      d64.get_at [of "[]" quota "drop 12 buf"] small [of 12]
    by (fastforce simp: after_Nil after_def)
  show "\<exists>buf' off. prepare_response buf REQ_MEM_UPDATE rid [AInt verdict] = Some (buf', 8)
      \<and> length buf' = RSP_MSG_LEN \<and> parse_response buf' = Some (rid, off)
      \<and> get_msg_data 4 word32 (attached_data buf' off) 0 = Some (verdict, 4)"
    using prepare_response_parses [OF assms, of REQ_MEM_UPDATE "[AInt verdict]" _ rid]
      d32.get_at [of "[]" verdict "drop 8 buf"] small [of 8]
    by (fastforce simp: after_Nil after_def)
  show "\<exists>buf' off. prepare_response buf REQ_MEM_LIMIT rid [ASize used, ASize limit] = Some (buf', 20)
      \<and> length buf' = RSP_MSG_LEN \<and> parse_response buf' = Some (rid, off)
      \<and> get_msg_data 8 word64 (attached_data buf' off) 0 = Some (used, 8)
      \<and> get_msg_data 8 word64 (attached_data buf' off) 8 = Some (limit, 16)"
    using prepare_response_parses [OF assms, of REQ_MEM_LIMIT "[ASize used, ASize limit]" _ rid]
      get_two_64 [of used limit "drop 20 buf"] small [of 20]
    by fastforce
qed

text \<open>\<^verbatim>\<open>multiple_attempt\<close> stops at the first attempt that returns zero and returns zero;
  if every one of the \<^verbatim>\<open>max_attempt\<close> attempts fails, it has made them all and returns the last
  result, with \<open>-1\<close> replaced by \<^verbatim>\<open>errno\<close>. It sleeps after every failed attempt (the last one
  too) when \<^verbatim>\<open>interval\<close> is positive.\<close>

lemma multiple_attempt_spec:
  assumes "0 < max_attempt"
  shows "let st = attempt_state func slp interval s; n = nat max_attempt;
      result = multiple_attempt func slp max_attempt interval s in
    (\<exists>k<n. (\<forall>j<k. fst (func (st j)) \<noteq> 0) \<and> fst (func (st k)) = 0
      \<and> result = (Some 0, snd (snd (func (st k)))))
    \<or> ((\<forall>j<n. fst (func (st j)) \<noteq> 0)
      \<and> result = (let (r, errno, s') = func (st (n - 1)) in
           (Some (if r = -1 then errno else r), if interval > 0 then slp s' else s')))"
proof (cases "\<exists>k<nat max_attempt. fst (func (attempt_state func slp interval s k)) = 0")
  case True
  define k where "k = (LEAST k. fst (func (attempt_state func slp interval s k)) = 0)"
  have k: "fst (func (attempt_state func slp interval s k)) = 0" "k < nat max_attempt"
      "\<And>j. j < k \<Longrightarrow> fst (func (attempt_state func slp interval s j)) \<noteq> 0"
    using True unfolding k_def by (auto dest: not_less_Least intro: LeastI elim: le_less_trans [OF Least_le])
  then show ?thesis
    using attempt_loop_success [of k "nat max_attempt" func slp interval s None]
    unfolding Let_def multiple_attempt_def by blast
next
  case False
  then show ?thesis
    using assms attempt_loop_failure [of "nat max_attempt" func slp interval s None]
    unfolding multiple_attempt_def by (simp add: Let_def)
qed

end
