(* ===== verification/Gem_Double.thy ===== *)
theory Gem_Double
  imports Gem_Prelude "HOL-Library.Log_Nat"
begin

text \<open>
  The object representation of \<^verbatim>\<open>double\<close>: the IEEE 754 binary64 format that the messages carry.
  \<open>double_of_bits\<close> reads a pattern as a real number (patterns of infinities and NaNs are excluded by
  \<open>finite_bits\<close>), \<open>bits_of_double\<close> rounds a real number to the nearest pattern, ties to even. A
  number that has a pattern is transported exactly.
\<close>

definition bits_exponent :: "double_bits \<Rightarrow> nat" where
  "bits_exponent w = (unat w div 2 ^ 52) mod 2 ^ 11"

definition bits_mantissa :: "double_bits \<Rightarrow> nat" where
  "bits_mantissa w = unat w mod 2 ^ 52"

definition finite_bits :: "double_bits \<Rightarrow> bool" where
  "finite_bits w \<longleftrightarrow> bits_exponent w \<noteq> 2047"

definition magnitude :: "nat \<Rightarrow> nat \<Rightarrow> double" where
  "magnitude e m =
     (if e = 0 then real m * 2 powi (- 1074) else real (2 ^ 52 + m) * 2 powi (int e - 1075))"

definition double_of_bits :: "double_bits \<Rightarrow> double" where
  "double_of_bits w =
     (if unat w < 2 ^ 63 then 1 else - 1) * magnitude (bits_exponent w) (bits_mantissa w)"

definition binary_exponent :: "double \<Rightarrow> int" where
  "binary_exponent a =
     (if 1 \<le> a then int (floorlog 2 (nat \<lfloor>a\<rfloor>)) - 1 else - int (ceillog2 (nat \<lceil>1 / a\<rceil>)))"

definition round_even :: "double \<Rightarrow> int" where
  "round_even x =
     (let f = \<lfloor>x\<rfloor>; d = x - of_int f in
      if d < 1 / 2 then f else if d > 1 / 2 then f + 1 else if even f then f else f + 1)"

definition encode_magnitude :: "double \<Rightarrow> nat" where
  "encode_magnitude a =
     (let e = max (binary_exponent a) (- 1022)
      in nat (min ((e + 1022) * 2 ^ 52 + round_even (a * 2 powi (52 - e))) (2047 * 2 ^ 52)))"

definition bits_of_double :: "double \<Rightarrow> double_bits" where
  "bits_of_double x =
     (if x = 0 then 0 else word_of_nat ((if x < 0 then 2 ^ 63 else 0) + encode_magnitude \<bar>x\<bar>))"

definition representable :: "double \<Rightarrow> bool" where
  "representable x \<longleftrightarrow> (\<exists>w. finite_bits w \<and> x = double_of_bits w)"

lemma round_even_int [simp]: "round_even (real_of_int k) = k"
  by (simp add: round_even_def)

lemma round_even_nat [simp]: "round_even (real n) = int n"
  using round_even_int [of "int n"] by simp

lemma binary_exponent_nonneg:
  assumes "2 ^ k \<le> a" and "a < 2 ^ (k + 1)"
  shows "binary_exponent a = int k"
proof -
  have "1 \<le> a" using assms(1) one_le_power [of "2 :: real" k] by linarith
  have "(2 :: nat) ^ k \<le> nat \<lfloor>a\<rfloor>" using assms(1) le_nat_floor [of "2 ^ k" a] by simp
  moreover have "nat \<lfloor>a\<rfloor> < 2 ^ (k + 1)"
    using assms(2) \<open>1 \<le> a\<close> by (simp add: nat_less_iff floor_less_iff)
  ultimately have "floorlog 2 (nat \<lfloor>a\<rfloor>) = k + 1"
    using floorlog_ge_SucI [of 2 k "nat \<lfloor>a\<rfloor>"] floorlog_leI [of "nat \<lfloor>a\<rfloor>" 2 "k + 1"] by simp
  then show ?thesis using \<open>1 \<le> a\<close> by (simp add: binary_exponent_def)
qed

lemma binary_exponent_neg_le:
  assumes "0 < a" and "a * 2 ^ k < 1"
  shows "binary_exponent a \<le> - int k - 1"
proof -
  have inv: "2 ^ k < 1 / a" using assms by (simp add: field_simps)
  have "1 \<le> (2 :: real) ^ k" by simp
  then have "1 < 1 / a" using inv by linarith
  then have "a < 1" using assms(1) by (simp add: field_simps)
  have "real (2 ^ k) < real (nat \<lceil>1 / a\<rceil>)"
    using inv real_nat_ceiling_ge [of "1 / a"] by (simp only: of_nat_power of_nat_numeral)
  then have "(2 :: nat) ^ Suc k < 2 * nat \<lceil>1 / a\<rceil>" by (simp only: of_nat_less_iff) simp
  moreover have "0 < nat \<lceil>1 / a\<rceil>" using \<open>1 < 1 / a\<close> by linarith
  ultimately have "Suc k \<le> ceillog2 (nat \<lceil>1 / a\<rceil>)" by (simp only: ceillog2_ge_iff)
  then show ?thesis using \<open>a < 1\<close> by (simp add: binary_exponent_def)
qed

lemma binary_exponent_neg:
  assumes "1 \<le> a * 2 ^ Suc k" and "a * 2 ^ k < 1"
  shows "binary_exponent a = - int k - 1"
proof -
  have pos: "0 < a"
  proof (rule ccontr)
    assume "\<not> 0 < a"
    then have "a * 2 ^ Suc k \<le> 0" by (intro mult_nonpos_nonneg) auto
    then show False using assms(1) by linarith
  qed
  have "a * 1 \<le> a * 2 ^ k" using pos by (intro mult_left_mono) auto
  then have "a < 1" using assms(2) by linarith
  have "1 / a \<le> 2 ^ Suc k" using assms(1) pos by (simp add: field_simps)
  then have "nat \<lceil>1 / a\<rceil> \<le> 2 ^ Suc k" by (simp add: nat_le_iff ceiling_le_iff)
  moreover have "0 < nat \<lceil>1 / a\<rceil>" using pos by simp
  ultimately have "ceillog2 (nat \<lceil>1 / a\<rceil>) \<le> Suc k" by (simp only: ceillog2_le_iff)
  then show ?thesis using binary_exponent_neg_le [OF pos assms(2)] \<open>a < 1\<close>
    by (simp add: binary_exponent_def)
qed

lemma binary_exponent_eq:
  assumes "2 powi e \<le> a" and "a < 2 powi (e + 1)"
  shows "binary_exponent a = e"
proof (cases e rule: int_cases)
  case (nonneg k)
  then show ?thesis using assms binary_exponent_nonneg [of k a]
    by (simp add: power_int_add_1 mult.commute)
next
  case (neg k)
  have "2 powi e * 2 ^ Suc k = (1 :: real)"
    by (simp add: neg power_int_minus del: power_Suc of_nat_Suc)
  moreover have "e + 1 = - int k" using neg by simp
  then have "2 powi (e + 1) * 2 ^ k = (1 :: real)" by (simp add: power_int_minus)
  ultimately show ?thesis
    using binary_exponent_neg [of a k] assms neg
      mult_right_mono [OF assms(1), of "2 ^ Suc k"] mult_strict_right_mono [OF assms(2), of "2 ^ k"]
    by simp
qed

lemma encode_normal:
  assumes "1 \<le> e" and "e \<le> 2046" and "m < 2 ^ 52"
  shows "encode_magnitude (magnitude e m) = e * 2 ^ 52 + m"
proof -
  let ?a = "real (2 ^ 52 + m) * 2 powi (int e - 1075)"
  have a: "magnitude e m = ?a" using assms(1) by (simp add: magnitude_def)
  have shift: "2 powi (x + y) = 2 powi x * (2 :: real) powi y" for x y by (simp add: power_int_add)
  have "binary_exponent ?a = int e - 1023"
  proof (rule binary_exponent_eq)
    show "2 powi (int e - 1023) \<le> ?a"
      using shift [of 52 "int e - 1075"] by (simp add: mult_right_mono)
    show "?a < 2 powi (int e - 1023 + 1)"
      using shift [of 53 "int e - 1075"] assms(3) by (simp add: mult_strict_right_mono)
  qed
  moreover have "?a * 2 powi (52 - (int e - 1023)) = real (2 ^ 52 + m)"
    using shift [of "int e - 1075" "52 - (int e - 1023)"] by (simp add: mult.assoc)
  moreover have "max (int e - 1023) (- 1022) = int e - 1023" using assms(1) by simp
  ultimately have "encode_magnitude ?a =
      nat (min ((int e - 1023 + 1022) * 2 ^ 52 + int (2 ^ 52 + m)) (2047 * 2 ^ 52))"
    unfolding encode_magnitude_def Let_def by (simp only: round_even_nat)
  moreover have "(int e - 1023 + 1022) * 2 ^ 52 + int (2 ^ 52 + m) = int (e * 2 ^ 52 + m)"
    by simp
  moreover have "int (e * 2 ^ 52 + m) \<le> 2047 * 2 ^ 52" using assms(2,3) by simp
  ultimately show ?thesis by (simp only: a min_absorb1 nat_int)
qed

lemma encode_subnormal:
  assumes "0 < m" and "m < 2 ^ 52"
  shows "encode_magnitude (magnitude 0 m) = m"
proof -
  let ?a = "real m * 2 powi (- 1074)"
  have "?a * 2 ^ 1022 = real m * (2 powi (- 1074) * 2 powi 1022)" by simp
  also have "\<dots> = real m * 2 powi (- 52)"
    using power_int_add [of "2 :: real" "- 1074" 1022] by simp
  also have "\<dots> < 1" using assms(2) by (simp add: power_int_minus field_simps)
  finally have "?a * 2 ^ 1022 < 1" .
  then have "binary_exponent ?a \<le> - int 1022 - 1"
    using assms(1) by (intro binary_exponent_neg_le) simp_all
  moreover have "?a * 2 powi 1074 = real m"
    using power_int_add [of "2 :: real" "- 1074" 1074] by (simp only: mult.assoc) simp
  moreover have "52 - (- 1022 :: int) = 1074" by simp
  ultimately have "encode_magnitude ?a = nat (min ((- 1022 + 1022) * 2 ^ 52 + int m) (2047 * 2 ^ 52))"
    unfolding encode_magnitude_def Let_def by (simp only: max_absorb2 round_even_nat)
  then have "encode_magnitude ?a = m" using assms(2) by simp
  then show ?thesis by (simp only: magnitude_def simp_thms if_True)
qed

lemma encode_magnitude_magnitude:
  "e \<le> 2046 \<Longrightarrow> m < 2 ^ 52 \<Longrightarrow> magnitude e m \<noteq> 0 \<Longrightarrow> encode_magnitude (magnitude e m) = e * 2 ^ 52 + m"
  using encode_normal [of e m] encode_subnormal [of m] by (cases "e = 0"; cases "m = 0") (auto simp: magnitude_def)

lemma magnitude_nonneg: "0 \<le> magnitude e m"
  by (simp add: magnitude_def)

lemma bits_decompose:
  "unat w = (if unat w < 2 ^ 63 then 0 else 2 ^ 63) + bits_exponent w * 2 ^ 52 + bits_mantissa w"
proof -
  have "unat w div 2 ^ 52 = (unat w div 2 ^ 63) * 2 ^ 11 + bits_exponent w"
    using div_mult_mod_eq [of "unat w div 2 ^ 52" "2 ^ 11"] by (simp add: bits_exponent_def div_mult2_eq [symmetric])
  moreover have "unat w = unat w div 2 ^ 52 * 2 ^ 52 + bits_mantissa w"
    by (simp add: bits_mantissa_def)
  moreover have "unat w div 2 ^ 63 = (if unat w < 2 ^ 63 then 0 else 1)"
    using unat_size_t_less [of w] by (auto simp: div_nat_eqI)
  ultimately show ?thesis by (auto split: if_splits)
qed

lemma bits_of_double_of_bits:
  assumes "finite_bits w" and "double_of_bits w \<noteq> 0"
  shows "bits_of_double (double_of_bits w) = w"
proof -
  let ?e = "bits_exponent w" and ?m = "bits_mantissa w"
  have e: "?e \<le> 2046" "?m < 2 ^ 52"
    using assms(1) by (auto simp: finite_bits_def bits_exponent_def bits_mantissa_def
        intro!: less_Suc_eq_le [THEN iffD1] le_neq_implies_less [of _ 2047] less_Suc_eq_le [THEN iffD1])
  have nz: "magnitude ?e ?m \<noteq> 0" using assms(2) by (auto simp: double_of_bits_def)
  then have "0 < magnitude ?e ?m" using magnitude_nonneg [of ?e ?m] by simp
  then have "\<bar>double_of_bits w\<bar> = magnitude ?e ?m" "double_of_bits w < 0 \<longleftrightarrow> \<not> unat w < 2 ^ 63"
    by (auto simp: double_of_bits_def)
  then have "bits_of_double (double_of_bits w) =
      word_of_nat ((if \<not> unat w < 2 ^ 63 then 2 ^ 63 else 0) + (?e * 2 ^ 52 + ?m))"
    using assms(2) encode_magnitude_magnitude [OF e nz] by (simp only: bits_of_double_def if_False)
  also have "\<dots> = word_of_nat (unat w)"
    using bits_decompose [of w] by (cases "unat w < 2 ^ 63") (simp_all only: add.assoc if_True if_False not_not not_True_eq_False not_False_eq_True simp_thms)
  also have "\<dots> = w" by simp
  finally show ?thesis .
qed

lemma bits_of_double_exact: "representable x \<Longrightarrow> double_of_bits (bits_of_double x) = x"
proof -
  assume "representable x"
  then obtain w where w: "finite_bits w" "x = double_of_bits w" by (auto simp: representable_def)
  show ?thesis
  proof (cases "x = 0")
    case True
    then show ?thesis by (simp add: bits_of_double_def double_of_bits_def magnitude_def bits_exponent_def bits_mantissa_def)
  next
    case False
    then show ?thesis using w bits_of_double_of_bits by simp
  qed
qed

end
