(* ===== verification/Gem_Predictor.thy ===== *)
theory Gem_Predictor
  imports Gem_Prelude
begin

text \<open>
  Kernel burst and window period prediction, \<^verbatim>\<open>src/src/predictor.h\<close> and
  \<^verbatim>\<open>src/src/predictor.cpp\<close>: the class \<^verbatim>\<open>RecordKeeper\<close> (a deque of decreasing records) and the
  class \<^verbatim>\<open>Predictor\<close> on top of it.

  A time point is the signed 64-bit nanosecond count of the steady clock; the extreme values serve
  the code as ``no time point''. Subtraction wraps. The reading of the clock is an argument of the
  operations that read it. The mutex makes every operation of a predictor atomic, so an operation
  is one function. \<^verbatim>\<open>NO_PREDICT\<close> is not defined.

  The specification keeps every completed period for ever and answers with the longest one that is
  recent enough; the refinement theorem says that the code, which drops records early, gives the
  same answers.
\<close>

section \<open>Time points\<close>

type_synonym timepoint = int

definition TP_MAX :: timepoint where "TP_MAX = 2 ^ 63 - 1"
definition TP_MIN :: timepoint where "TP_MIN = - (2 ^ 63)"

definition tp_diff :: "timepoint \<Rightarrow> timepoint \<Rightarrow> int" where
  "tp_diff a b = wrap64 (a - b)"

text \<open>\<^verbatim>\<open>duration_cast\<close> of nanoseconds to milliseconds and to microseconds, and the number of
  milliseconds the code computes from the latter.\<close>

definition to_milliseconds :: "int \<Rightarrow> int" where "to_milliseconds d = d sdiv 1000000"
definition to_microseconds :: "int \<Rightarrow> int" where "to_microseconds d = d sdiv 1000"
definition ms_of :: "int \<Rightarrow> double" where "ms_of d = real_of_int (to_microseconds d) / 1000"

section \<open>RecordKeeper\<close>

record RecordKeeper =
  VALID_TIME :: int
  records :: "(timepoint \<times> double) list"

definition new_RecordKeeper :: "int \<Rightarrow> RecordKeeper" where
  "new_RecordKeeper valid_time = \<lparr>VALID_TIME = valid_time, records = []\<rparr>"

function pop_back_less :: "(timepoint \<times> double) list \<Rightarrow> double \<Rightarrow> (timepoint \<times> double) list" where
  "pop_back_less rs data =
     (if rs \<noteq> [] \<and> snd (last rs) < data then pop_back_less (butlast rs) data else rs)"
  by pat_completeness auto
termination
  by (relation "measure (\<lambda>(rs, data). length rs)") auto

definition rk_add :: "RecordKeeper \<Rightarrow> double \<Rightarrow> timepoint \<Rightarrow> RecordKeeper" where
  "rk_add k data tp = k\<lparr>records := pop_back_less (records k) data @ [(tp, data)]\<rparr>"

fun pop_front_outdated ::
  "int \<Rightarrow> timepoint \<Rightarrow> (timepoint \<times> double) list \<Rightarrow> (timepoint \<times> double) list" where
  "pop_front_outdated valid tp [] = []"
| "pop_front_outdated valid tp (r # rs) =
     (if to_milliseconds (tp_diff tp (fst r)) > valid then pop_front_outdated valid tp rs else r # rs)"

definition rk_drop_outdated :: "RecordKeeper \<Rightarrow> timepoint \<Rightarrow> RecordKeeper" where
  "rk_drop_outdated k tp = k\<lparr>records := pop_front_outdated (VALID_TIME k) tp (records k)\<rparr>"

definition rk_get_max :: "RecordKeeper \<Rightarrow> double" where
  "rk_get_max k = (case records k of [] \<Rightarrow> 0 | r # rs \<Rightarrow> snd r)"

definition rk_clear :: "RecordKeeper \<Rightarrow> RecordKeeper" where
  "rk_clear k = k\<lparr>records := []\<rparr>"

section \<open>Predictor\<close>

definition PREDICT_MAX_KEEP :: int where "PREDICT_MAX_KEEP = 3000"

record Predictor =
  pname :: string
  MERGE_THRES :: double
  period_begin :: timepoint
  long_period_begin :: timepoint
  long_period_end :: timepoint
  normal_records :: RecordKeeper
  long_records :: RecordKeeper
  upperbound :: double

text \<open>\<open>DBL_MAX\<close> stands for \<^verbatim>\<open>std::numeric_limits<double>::max()\<close>.\<close>

definition DBL_MAX :: double where "DBL_MAX = (2 - (1 / 2) ^ 52) * 2 ^ 1023"

definition new_Predictor :: "string \<Rightarrow> double \<Rightarrow> Predictor" where
  "new_Predictor nm thres =
     \<lparr>pname = nm, MERGE_THRES = thres, period_begin = TP_MAX, long_period_begin = TP_MAX,
      long_period_end = TP_MIN, normal_records = new_RecordKeeper PREDICT_MAX_KEEP,
      long_records = new_RecordKeeper PREDICT_MAX_KEEP, upperbound = DBL_MAX\<rparr>"

definition ongoing_unmerged :: "Predictor \<Rightarrow> bool" where
  "ongoing_unmerged p \<longleftrightarrow> period_begin p \<noteq> TP_MAX"

definition ongoing_merged :: "Predictor \<Rightarrow> bool" where
  "ongoing_merged p \<longleftrightarrow> long_period_begin p \<noteq> TP_MAX"

definition record_stop :: "timepoint \<Rightarrow> Predictor \<Rightarrow> Predictor" where
  "record_stop tp p =
     (let p = (if ongoing_unmerged p
        then let duration = ms_of (tp_diff tp (period_begin p));
                 p = p\<lparr>normal_records := rk_add (normal_records p) duration tp\<rparr>;
                 p = p\<lparr>long_period_end := tp\<rparr>
             in p\<lparr>long_records := rk_add (long_records p)
                    (ms_of (tp_diff (long_period_end p) (long_period_begin p))) tp\<rparr>
        else p)
      in p\<lparr>period_begin := TP_MAX\<rparr>)"

definition record_start :: "timepoint \<Rightarrow> Predictor \<Rightarrow> Predictor" where
  "record_start now p =
     (if \<not> ongoing_unmerged p
      then let p = p\<lparr>period_begin := now\<rparr>;
               intv = ms_of (tp_diff (period_begin p) (long_period_end p))
           in if \<not> ongoing_merged p \<or> intv > MERGE_THRES p
              then p\<lparr>long_period_begin := period_begin p, long_period_end := TP_MIN\<rparr>
              else p
      else p)"

definition interrupt :: "Predictor \<Rightarrow> Predictor" where
  "interrupt p =
     p\<lparr>period_begin := TP_MAX, long_period_begin := TP_MAX, long_period_end := TP_MIN\<rparr>"

definition predict_unmerged :: "timepoint \<Rightarrow> Predictor \<Rightarrow> double \<times> Predictor" where
  "predict_unmerged now p =
     (let p = p\<lparr>normal_records := rk_drop_outdated (normal_records p) now\<rparr>
      in (rk_get_max (normal_records p), p))"

definition predict_merged :: "timepoint \<Rightarrow> Predictor \<Rightarrow> double \<times> Predictor" where
  "predict_merged now p =
     (let p = p\<lparr>long_records := rk_drop_outdated (long_records p) now\<rparr>
      in (rk_get_max (long_records p), p))"

definition set_upperbound :: "double \<Rightarrow> Predictor \<Rightarrow> Predictor" where
  "set_upperbound bound p = p\<lparr>upperbound := bound\<rparr>"

definition predictor_reset :: "Predictor \<Rightarrow> Predictor" where
  "predictor_reset p =
     (let p = p\<lparr>normal_records := rk_clear (normal_records p), long_records := rk_clear (long_records p)\<rparr>
      in p\<lparr>period_begin := TP_MAX, long_period_begin := TP_MAX, long_period_end := TP_MIN\<rparr>)"

text \<open>A history of calls on one predictor, and the answers it gives.\<close>

datatype pred_call = RecordStart timepoint | RecordStop timepoint | Interrupt | PredictUnmerged timepoint
  | PredictMerged timepoint | SetUpperbound double | ResetAll

fun pred_step :: "pred_call \<Rightarrow> Predictor \<Rightarrow> double list \<times> Predictor" where
  "pred_step (RecordStart t) p = ([], record_start t p)"
| "pred_step (RecordStop t) p = ([], record_stop t p)"
| "pred_step Interrupt p = ([], interrupt p)"
| "pred_step (PredictUnmerged t) p = (let (v, p') = predict_unmerged t p in ([v], p'))"
| "pred_step (PredictMerged t) p = (let (v, p') = predict_merged t p in ([v], p'))"
| "pred_step (SetUpperbound b) p = ([], set_upperbound b p)"
| "pred_step ResetAll p = ([], predictor_reset p)"

fun pred_run :: "pred_call list \<Rightarrow> Predictor \<Rightarrow> double list" where
  "pred_run [] p = []"
| "pred_run (c # cs) p = (let (vs, p') = pred_step c p in vs @ pred_run cs p')"

section \<open>Specification\<close>

text \<open>The longest record that is not older than \<open>valid\<close> milliseconds, zero if there is none.\<close>

definition live :: "int \<Rightarrow> timepoint \<Rightarrow> timepoint \<times> double \<Rightarrow> bool" where
  "live valid now r \<longleftrightarrow> to_milliseconds (now - fst r) \<le> valid"

definition window_max :: "int \<Rightarrow> timepoint \<Rightarrow> (timepoint \<times> double) list \<Rightarrow> double" where
  "window_max valid now H =
     (case map snd (filter (live valid now) H) of [] \<Rightarrow> 0 | d # ds \<Rightarrow> fold max ds d)"

text \<open>
  The periods as the documentation describes them: the current one, the long one that consecutive
  periods are merged into, and every completed one with the time of its completion.
\<close>

record burst_spec =
  sp_period :: "timepoint option"
  sp_long :: "(timepoint \<times> timepoint option) option"
  sp_normal :: "(timepoint \<times> double) list"
  sp_merged :: "(timepoint \<times> double) list"

definition spec_init :: burst_spec where
  "spec_init = \<lparr>sp_period = None, sp_long = None, sp_normal = [], sp_merged = []\<rparr>"

fun spec_step :: "double \<Rightarrow> pred_call \<Rightarrow> burst_spec \<Rightarrow> double list \<times> burst_spec" where
  "spec_step thres (RecordStart t) s = ([], case sp_period s of
     Some _ \<Rightarrow> s
   | None \<Rightarrow> s\<lparr>sp_period := Some t,
       sp_long := (case sp_long s of
         Some (b, Some e) \<Rightarrow> if ms_of (t - e) > thres then Some (t, None) else Some (b, Some e)
       | _ \<Rightarrow> Some (t, None))\<rparr>)"
| "spec_step thres (RecordStop t) s = ([], case (sp_period s, sp_long s) of
     (Some c, Some (b, _)) \<Rightarrow>
       \<lparr>sp_period = None, sp_long = Some (b, Some t),
        sp_normal = sp_normal s @ [(t, ms_of (t - c))],
        sp_merged = sp_merged s @ [(t, ms_of (t - b))]\<rparr>
   | _ \<Rightarrow> s\<lparr>sp_period := None\<rparr>)"
| "spec_step thres Interrupt s = ([], s\<lparr>sp_period := None, sp_long := None\<rparr>)"
| "spec_step thres (PredictUnmerged t) s = ([window_max PREDICT_MAX_KEEP t (sp_normal s)], s)"
| "spec_step thres (PredictMerged t) s = ([window_max PREDICT_MAX_KEEP t (sp_merged s)], s)"
| "spec_step thres (SetUpperbound b) s = ([], s)"
| "spec_step thres ResetAll s = ([], spec_init)"

fun spec_run :: "double \<Rightarrow> pred_call list \<Rightarrow> burst_spec \<Rightarrow> double list" where
  "spec_run thres [] s = []"
| "spec_run thres (c # cs) s = (let (vs, s') = spec_step thres c s in vs @ spec_run thres cs s')"

text \<open>A steady clock: every reading lies between zero and the largest time point, and no reading is
  smaller than an earlier one.\<close>

fun call_time :: "pred_call \<Rightarrow> timepoint option" where
  "call_time (RecordStart t) = Some t"
| "call_time (RecordStop t) = Some t"
| "call_time (PredictUnmerged t) = Some t"
| "call_time (PredictMerged t) = Some t"
| "call_time _ = None"

fun steady :: "timepoint \<Rightarrow> pred_call list \<Rightarrow> bool" where
  "steady t0 [] = True"
| "steady t0 (c # cs) = (case call_time c of
     None \<Rightarrow> steady t0 cs
   | Some t \<Rightarrow> t0 \<le> t \<and> t < TP_MAX \<and> steady t cs)"

section \<open>The record keeper is a sliding-window maximum\<close>

declare pop_back_less.simps [simp del]

lemma pop_back_less_split:
  "\<exists>ys. rs = pop_back_less rs data @ ys \<and> (\<forall>y\<in>set ys. snd y < data)
     \<and> (pop_back_less rs data \<noteq> [] \<longrightarrow> data \<le> snd (last (pop_back_less rs data)))"
proof (induction rs data rule: pop_back_less.induct)
  case (1 rs data)
  show ?case
  proof (cases "rs \<noteq> [] \<and> snd (last rs) < data")
    case True
    with 1 obtain ys where ys: "butlast rs = pop_back_less (butlast rs) data @ ys"
      "\<forall>y\<in>set ys. snd y < data"
      "pop_back_less (butlast rs) data \<noteq> [] \<longrightarrow> data \<le> snd (last (pop_back_less (butlast rs) data))"
      by blast
    have "rs = pop_back_less (butlast rs) data @ (ys @ [last rs])"
      using True ys(1) by (metis append_assoc append_butlast_last_id)
    moreover have "pop_back_less rs data = pop_back_less (butlast rs) data"
      using True by (simp add: pop_back_less.simps [of rs])
    moreover have "\<forall>y\<in>set (ys @ [last rs]). snd y < data" using True ys(2) by simp
    ultimately show ?thesis using ys(3) by metis
  next
    case False
    then have "pop_back_less rs data = rs" by (auto simp: pop_back_less.simps [of rs])
    then show ?thesis using False by (auto simp: not_less)
  qed
qed

lemma pop_front_outdated_dropWhile:
  "pop_front_outdated valid tp rs =
     dropWhile (\<lambda>r. to_milliseconds (tp_diff tp (fst r)) > valid) rs"
  by (induction rs) auto

lemma to_milliseconds_mono: "a \<le> b \<Longrightarrow> to_milliseconds a \<le> to_milliseconds b"
  by (simp add: to_milliseconds_def sdiv_mono)

lemma live_later: "live valid now r \<Longrightarrow> fst r \<le> fst r' \<Longrightarrow> live valid now r'"
  unfolding live_def using to_milliseconds_mono [of "now - fst r'" "now - fst r"] by simp

lemma live_before: "live valid now r \<Longrightarrow> t \<le> now \<Longrightarrow> live valid t r"
  unfolding live_def using to_milliseconds_mono [of "t - fst r" "now - fst r"] by simp

lemma tp_diff_clock [simp]: "0 \<le> b \<Longrightarrow> b \<le> a \<Longrightarrow> a < TP_MAX \<Longrightarrow> tp_diff a b = a - b"
  by (simp add: tp_diff_def fits64_def TP_MAX_def)

text \<open>\<open>fold max\<close> over a list is its maximum.\<close>

lemma fold_max_ge_acc: "(d :: double) \<le> fold max ds d"
proof (induction ds arbitrary: d)
  case (Cons x ds)
  have "d \<le> max x d" by simp
  also have "\<dots> \<le> fold max ds (max x d)" by (rule Cons.IH)
  finally show ?case by simp
qed simp

lemma fold_max_ge: "x \<in> set ds \<Longrightarrow> (x :: double) \<le> fold max ds d"
proof (induction ds arbitrary: d)
  case (Cons y ds)
  show ?case
  proof (cases "x = y")
    case True
    then show ?thesis using fold_max_ge_acc [of "max y d" ds] by simp
  qed (use Cons in auto)
qed simp

lemma fold_max_in: "fold max ds d \<in> insert (d :: double) (set ds)"
proof (induction ds arbitrary: d)
  case (Cons x ds)
  show ?case using Cons.IH [of "max x d"] by (auto simp: max_def)
qed simp

lemma window_max_empty: "(\<And>r. r \<in> set H \<Longrightarrow> \<not> live valid now r) \<Longrightarrow> window_max valid now H = 0"
  by (simp add: window_max_def filter_empty_conv [THEN iffD2])

lemma window_max_eqI:
  assumes "r \<in> set H" and "live valid now r"
    and "\<And>r'. r' \<in> set H \<Longrightarrow> live valid now r' \<Longrightarrow> snd r' \<le> snd r"
  shows "window_max valid now H = snd r"
proof -
  let ?ds = "map snd (filter (live valid now) H)"
  have r: "snd r \<in> set ?ds" using assms(1,2) by force
  then obtain d ds where d: "?ds = d # ds" by (cases ?ds) auto
  have all: "x \<le> snd r" if "x \<in> set (d # ds)" for x
    using that assms(3) d [symmetric] by auto
  have "fold max ds d \<in> set (d # ds)" using fold_max_in [of ds d] by simp
  moreover have "snd r \<le> fold max ds d" using r d fold_max_ge [of _ ds d] fold_max_ge_acc [of d ds] by auto
  ultimately have "fold max ds d = snd r" using all by (meson antisym)
  then show ?thesis by (simp add: window_max_def d)
qed

text \<open>
  The invariant between a keeper and the list of everything added so far, at the time \<open>t\<close> of
  the last operation: the records kept are in order of time and of decreasing value, and a record
  that is missing is dominated by a later one that is kept, or has expired.
\<close>

definition rk_tracks :: "(timepoint \<times> double) list \<Rightarrow> timepoint \<Rightarrow> RecordKeeper \<Rightarrow> bool" where
  "rk_tracks H t k \<longleftrightarrow>
     VALID_TIME k = PREDICT_MAX_KEEP \<and> 0 \<le> t \<and> t < TP_MAX
     \<and> (\<forall>r\<in>set H. 0 \<le> fst r \<and> fst r \<le> t)
     \<and> set (records k) \<subseteq> set H
     \<and> sorted_wrt (\<lambda>r r'. fst r \<le> fst r') (records k)
     \<and> sorted_wrt (\<lambda>r r'. snd r' \<le> snd r) (records k)
     \<and> (\<forall>r\<in>set H. live PREDICT_MAX_KEEP t r \<longrightarrow> (\<exists>r'\<in>set (records k). fst r \<le> fst r' \<and> snd r \<le> snd r'))"

lemma rk_tracks_times: "rk_tracks H t k \<Longrightarrow> r \<in> set (records k) \<Longrightarrow> 0 \<le> fst r \<and> fst r \<le> t"
  unfolding rk_tracks_def by blast

lemma rk_tracks_dominated:
  "rk_tracks H t k \<Longrightarrow> r \<in> set H \<Longrightarrow> live PREDICT_MAX_KEEP t r \<Longrightarrow>
   \<exists>r'\<in>set (records k). fst r \<le> fst r' \<and> snd r \<le> snd r'"
  unfolding rk_tracks_def by blast

lemma rk_tracks_later: "rk_tracks H t k \<Longrightarrow> t \<le> now \<Longrightarrow> now < TP_MAX \<Longrightarrow> rk_tracks H now k"
  unfolding rk_tracks_def by (fastforce dest: live_before [where t = t])

lemma rk_tracks_add:
  assumes "rk_tracks H t k" and "t \<le> tp" and "tp < TP_MAX"
  shows "rk_tracks (H @ [(tp, d)]) tp (rk_add k d tp)"
proof -
  have k: "rk_tracks H tp k" using rk_tracks_later assms by blast
  obtain ys where ys: "records k = pop_back_less (records k) d @ ys" "\<forall>y\<in>set ys. snd y < d"
    "pop_back_less (records k) d \<noteq> [] \<longrightarrow> d \<le> snd (last (pop_back_less (records k) d))"
    using pop_back_less_split by blast
  define zs where "zs = pop_back_less (records k) d"
  have rec: "records k = zs @ ys" using ys(1) zs_def by simp
  have sorted_t: "sorted_wrt (\<lambda>r r'. fst r \<le> fst r') zs" and sorted_v: "sorted_wrt (\<lambda>r r'. snd r' \<le> snd r) zs"
    using k rec by (auto simp: rk_tracks_def sorted_wrt_append)
  have big: "d \<le> snd z" if z: "z \<in> set zs" for z
  proof -
    obtain bs b where b: "zs = bs @ [b]" using z by (cases zs rule: rev_cases) auto
    then have "d \<le> snd b" using ys(3) zs_def by (metis last_snoc snoc_eq_iff_butlast)
    then show ?thesis using sorted_v z b by (auto simp: sorted_wrt_append)
  qed
  have early: "fst z \<le> tp" if "z \<in> set zs" for z
    using k rec that rk_tracks_times [OF k, of z] by auto
  have dom: "\<exists>r'\<in>set (zs @ [(tp, d)]). fst r \<le> fst r' \<and> snd r \<le> snd r'"
    if r: "r \<in> set H" "live PREDICT_MAX_KEEP tp r" for r
  proof -
    obtain r' where r': "r' \<in> set zs \<or> r' \<in> set ys" "fst r \<le> fst r'" "snd r \<le> snd r'"
      using rk_tracks_dominated [OF k r] rec by auto
    show ?thesis
    proof (cases "r' \<in> set zs")
      case False
      then have "snd r' < d" using r'(1) ys(2) by blast
      moreover have "fst r \<le> tp" using k r(1) by (auto simp: rk_tracks_def)
      ultimately show ?thesis using r'(3) by auto
    qed (use r' in auto)
  qed
  show ?thesis
    using k rec sorted_t sorted_v big early dom
    unfolding rk_tracks_def rk_add_def zs_def [symmetric]
    by (auto simp: sorted_wrt_append)
qed

lemma rk_tracks_drop:
  assumes "rk_tracks H t k" and "t \<le> now" and "now < TP_MAX"
  shows "rk_tracks H now (rk_drop_outdated k now)"
    and "rk_get_max (rk_drop_outdated k now) = window_max PREDICT_MAX_KEEP now H"
proof -
  let ?R = "records k" and ?R' = "records (rk_drop_outdated k now)"
  have k: "rk_tracks H now k" using rk_tracks_later assms by blast
  have "to_milliseconds (tp_diff now (fst r)) > PREDICT_MAX_KEEP \<longleftrightarrow> \<not> live PREDICT_MAX_KEEP now r"
    if "r \<in> set ?R" for r
    using rk_tracks_times [OF k that] assms(3) by (auto simp: live_def)
  then have R': "?R' = dropWhile (\<lambda>r. \<not> live PREDICT_MAX_KEEP now r) ?R"
    using k by (auto simp: rk_drop_outdated_def pop_front_outdated_dropWhile rk_tracks_def cong: dropWhile_cong)
  have split: "?R = takeWhile (\<lambda>r. \<not> live PREDICT_MAX_KEEP now r) ?R @ ?R'"
    by (simp add: R')
  have kept: "r \<in> set ?R'" if "r \<in> set ?R" "live PREDICT_MAX_KEEP now r" for r
    using that split by (metis (no_types, lifting) Un_iff set_append set_takeWhileD)
  have sub: "set ?R' \<subseteq> set ?R" by (simp add: R' set_dropWhileD subsetI)
  have dom: "\<exists>r'\<in>set ?R'. fst r \<le> fst r' \<and> snd r \<le> snd r'"
    if "r \<in> set H" "live PREDICT_MAX_KEEP now r" for r
    using rk_tracks_dominated [OF k that] kept live_later [OF that(2)] by meson
  have "sorted_wrt (\<lambda>r r'. fst r \<le> fst r') (takeWhile (\<lambda>r. \<not> live PREDICT_MAX_KEEP now r) ?R @ ?R')"
    "sorted_wrt (\<lambda>r r'. snd r' \<le> snd r) (takeWhile (\<lambda>r. \<not> live PREDICT_MAX_KEEP now r) ?R @ ?R')"
    using k split [symmetric] by (simp_all add: rk_tracks_def)
  then have sorted: "sorted_wrt (\<lambda>r r'. fst r \<le> fst r') ?R'" "sorted_wrt (\<lambda>r r'. snd r' \<le> snd r) ?R'"
    by (simp_all add: sorted_wrt_append)
  show "rk_tracks H now (rk_drop_outdated k now)"
    using k sub sorted dom unfolding rk_tracks_def by (auto simp: rk_drop_outdated_def)
  show "rk_get_max (rk_drop_outdated k now) = window_max PREDICT_MAX_KEEP now H"
  proof (cases ?R')
    case Nil
    then have "\<not> live PREDICT_MAX_KEEP now r" if "r \<in> set H" for r using dom [OF that] by auto
    then show ?thesis using Nil window_max_empty by (simp add: rk_get_max_def)
  next
    case (Cons r rs)
    have "live PREDICT_MAX_KEEP now r" using R' Cons by (metis hd_dropWhile list.distinct(1) list.sel(1))
    moreover have "r \<in> set H" using sub Cons k by (auto simp: rk_tracks_def)
    moreover have "snd r' \<le> snd r" if "r' \<in> set ?R'" for r' using that sorted(2) Cons by auto
    then have "snd x \<le> snd r" if "x \<in> set H" "live PREDICT_MAX_KEEP now x" for x
      using dom [OF that] by (meson order_trans)
    ultimately have "window_max PREDICT_MAX_KEEP now H = snd r"
      by (intro window_max_eqI)
    then show ?thesis using Cons by (simp add: rk_get_max_def)
  qed
qed

text \<open>The interface the predictor relies on.\<close>

locale sliding_max =
  fixes add :: "'k \<Rightarrow> double \<Rightarrow> timepoint \<Rightarrow> 'k" and drop_old :: "'k \<Rightarrow> timepoint \<Rightarrow> 'k"
    and get_max :: "'k \<Rightarrow> double" and clear :: "'k \<Rightarrow> 'k"
    and tracks :: "(timepoint \<times> double) list \<Rightarrow> timepoint \<Rightarrow> 'k \<Rightarrow> bool"
  assumes tracks_add: "tracks H t k \<Longrightarrow> t \<le> tp \<Longrightarrow> tp < TP_MAX \<Longrightarrow> tracks (H @ [(tp, d)]) tp (add k d tp)"
    and tracks_drop: "tracks H t k \<Longrightarrow> t \<le> now \<Longrightarrow> now < TP_MAX \<Longrightarrow> tracks H now (drop_old k now)"
    and get_max_drop: "tracks H t k \<Longrightarrow> t \<le> now \<Longrightarrow> now < TP_MAX \<Longrightarrow>
      get_max (drop_old k now) = window_max PREDICT_MAX_KEEP now H"
    and tracks_clear: "tracks H t k \<Longrightarrow> tracks [] t (clear k)"
    and tracks_later: "tracks H t k \<Longrightarrow> t \<le> now \<Longrightarrow> now < TP_MAX \<Longrightarrow> tracks H now k"
begin

lemma feed_tracks:
  assumes "tracks H t k" and "sorted (t # map fst rs)" and "\<forall>r\<in>set rs. fst r < TP_MAX"
  shows "tracks (H @ rs) (last (t # map fst rs)) (fold (\<lambda>(tp, d) k. add k d tp) rs k)"
  using assms
proof (induction rs arbitrary: H t k)
  case Nil
  then show ?case by simp
next
  case (Cons r rs)
  obtain tp d where r: "r = (tp, d)" by (cases r)
  have "tracks (H @ [(tp, d)]) tp (add k d tp)"
    using Cons.prems r by (intro tracks_add [of H t]) auto
  then show ?case using Cons.IH [of "H @ [(tp, d)]" tp "add k d tp"] Cons.prems r by auto
qed

lemma feed_query:
  assumes "tracks [] t k" and "sorted (t # map fst rs @ [now])" and "now < TP_MAX"
  shows "get_max (drop_old (fold (\<lambda>(tp, d) k. add k d tp) rs k) now) = window_max PREDICT_MAX_KEEP now rs"
proof -
  have "tracks ([] @ rs) (last (t # map fst rs)) (fold (\<lambda>(tp, d) k. add k d tp) rs k)"
    using assms by (intro feed_tracks) (force simp: sorted_append)+
  moreover have "last (t # map fst rs) \<in> set (t # map fst rs)" by (rule last_in_set) simp
  then have "last (t # map fst rs) \<le> now" using assms(2) by (auto simp: sorted_append)
  ultimately show ?thesis using assms(3) by (auto intro: get_max_drop)
qed

end

lemma rk_tracks_clear: "rk_tracks H t k \<Longrightarrow> rk_tracks [] t (rk_clear k)"
  by (simp add: rk_tracks_def rk_clear_def)

interpretation rk: sliding_max rk_add rk_drop_outdated rk_get_max rk_clear rk_tracks
  by unfold_locales (fact rk_tracks_add rk_tracks_drop rk_tracks_clear rk_tracks_later)+

lemma rk_tracks_new: "0 \<le> t \<Longrightarrow> t < TP_MAX \<Longrightarrow> rk_tracks [] t (new_RecordKeeper PREDICT_MAX_KEEP)"
  by (simp add: rk_tracks_def new_RecordKeeper_def)

section \<open>Refinement\<close>

definition spec_wf :: "timepoint \<Rightarrow> burst_spec \<Rightarrow> bool" where
  "spec_wf t s \<longleftrightarrow>
     (\<forall>c. sp_period s = Some c \<longrightarrow> 0 \<le> c \<and> c \<le> t \<and> sp_long s \<noteq> None)
     \<and> (\<forall>b e. sp_long s = Some (b, e) \<longrightarrow> 0 \<le> b \<and> b \<le> t \<and> (\<forall>x. e = Some x \<longrightarrow> b \<le> x \<and> x \<le> t))
     \<and> (\<forall>b. sp_long s = Some (b, None) \<longrightarrow> sp_period s \<noteq> None)"

definition pred_refines :: "timepoint \<Rightarrow> Predictor \<Rightarrow> burst_spec \<Rightarrow> bool" where
  "pred_refines t p s \<longleftrightarrow>
     spec_wf t s \<and> 0 \<le> t \<and> t < TP_MAX
     \<and> rk_tracks (sp_normal s) t (normal_records p) \<and> rk_tracks (sp_merged s) t (long_records p)
     \<and> period_begin p = (case sp_period s of None \<Rightarrow> TP_MAX | Some c \<Rightarrow> c)
     \<and> long_period_begin p = (case sp_long s of None \<Rightarrow> TP_MAX | Some (b, _) \<Rightarrow> b)
     \<and> long_period_end p = (case sp_long s of Some (_, Some e) \<Rightarrow> e | _ \<Rightarrow> TP_MIN)"

lemma pred_refines_later:
  "pred_refines t p s \<Longrightarrow> t \<le> now \<Longrightarrow> now < TP_MAX \<Longrightarrow> pred_refines now p s"
  unfolding pred_refines_def spec_wf_def by (auto intro: rk.tracks_later)

lemma ongoing_unmerged_iff: "pred_refines t p s \<Longrightarrow> ongoing_unmerged p \<longleftrightarrow> sp_period s \<noteq> None"
  unfolding pred_refines_def spec_wf_def ongoing_unmerged_def by (auto split: option.splits)

lemma ongoing_merged_iff: "pred_refines t p s \<Longrightarrow> ongoing_merged p \<longleftrightarrow> sp_long s \<noteq> None"
  unfolding pred_refines_def spec_wf_def ongoing_merged_def by (auto split: option.splits)

lemma record_start_refines:
  assumes "pred_refines t p s" and "t \<le> now" and "now < TP_MAX"
  shows "pred_refines now (record_start now p) (snd (spec_step (MERGE_THRES p) (RecordStart now) s))"
proof -
  have r: "pred_refines now p s" using pred_refines_later assms by blast
  note iffs = ongoing_unmerged_iff [OF r] ongoing_merged_iff [OF r]
  have um: "ongoing_merged (p\<lparr>period_begin := x\<rparr>) = ongoing_merged p" for x
    by (simp add: ongoing_merged_def)
  show ?thesis
  proof (cases "sp_period s")
    case (Some c)
    then show ?thesis using r iffs by (simp add: record_start_def)
  next
    case None
    show ?thesis
    proof (cases "sp_long s")
      case None': None
      then show ?thesis
        using None r iffs by (simp add: record_start_def um pred_refines_def spec_wf_def)
    next
      case (Some bl)
      then obtain b e where be: "sp_long s = Some (b, Some e)" "0 \<le> b" "b \<le> e" "e \<le> now"
        using None r by (cases bl; cases "snd bl") (auto simp: pred_refines_def spec_wf_def)
      then have "tp_diff now (long_period_end p) = now - e"
        using r by (simp add: pred_refines_def)
      then show ?thesis
        using None r iffs be by (auto simp: record_start_def um Let_def pred_refines_def spec_wf_def)
    qed
  qed
qed

lemma record_stop_refines:
  assumes "pred_refines t p s" and "t \<le> now" and "now < TP_MAX"
  shows "pred_refines now (record_stop now p) (snd (spec_step (MERGE_THRES p) (RecordStop now) s))"
proof -
  have r: "pred_refines now p s" using pred_refines_later assms by blast
  show ?thesis
  proof (cases "sp_period s")
    case None
    then show ?thesis
      using r ongoing_unmerged_iff [OF r] by (auto simp: record_stop_def pred_refines_def spec_wf_def)
  next
    case (Some c)
    then obtain b e where be: "sp_long s = Some (b, e)" "0 \<le> b" "b \<le> now" "0 \<le> c" "c \<le> now"
      using r by (auto simp: pred_refines_def spec_wf_def)
    have "tp_diff now (period_begin p) = now - c" "tp_diff now (long_period_begin p) = now - b"
      using r Some be assms(3) by (simp_all add: pred_refines_def)
    moreover have "rk_tracks (sp_normal s) now (normal_records p)" "rk_tracks (sp_merged s) now (long_records p)"
      using r by (simp_all add: pred_refines_def)
    ultimately show ?thesis
      using Some r be assms(3) ongoing_unmerged_iff [OF r]
      by (auto simp: record_stop_def Let_def pred_refines_def spec_wf_def intro!: rk.tracks_add)
  qed
qed

lemma pred_step_thres [simp]: "MERGE_THRES (snd (pred_step c p)) = MERGE_THRES p"
  by (cases c) (simp_all add: record_start_def record_stop_def interrupt_def predict_unmerged_def
      predict_merged_def set_upperbound_def predictor_reset_def Let_def)

lemma pred_step_refines:
  assumes "pred_refines t p s" and "case call_time c of None \<Rightarrow> now = t | Some x \<Rightarrow> t \<le> x \<and> x < TP_MAX \<and> now = x"
  shows "fst (pred_step c p) = fst (spec_step (MERGE_THRES p) c s)
    \<and> pred_refines now (snd (pred_step c p)) (snd (spec_step (MERGE_THRES p) c s))"
proof (cases c)
  case (RecordStart x)
  then show ?thesis using assms record_start_refines by simp
next
  case (RecordStop x)
  then show ?thesis using assms record_stop_refines by simp
next
  case Interrupt
  then show ?thesis using assms by (auto simp: interrupt_def pred_refines_def spec_wf_def)
next
  case (PredictUnmerged x)
  then have "pred_refines x p s" using assms pred_refines_later by auto
  then show ?thesis
    using assms PredictUnmerged rk.get_max_drop [of _ x] rk.tracks_drop [of _ x]
    by (auto simp: predict_unmerged_def Let_def pred_refines_def)
next
  case (PredictMerged x)
  then have "pred_refines x p s" using assms pred_refines_later by auto
  then show ?thesis
    using assms PredictMerged rk.get_max_drop [of _ x] rk.tracks_drop [of _ x]
    by (auto simp: predict_merged_def Let_def pred_refines_def)
next
  case (SetUpperbound b)
  then show ?thesis using assms by (auto simp: set_upperbound_def pred_refines_def)
next
  case ResetAll
  then show ?thesis
    using assms rk.tracks_clear
    by (auto simp: predictor_reset_def pred_refines_def spec_wf_def spec_init_def Let_def)
qed

lemma pred_run_refines:
  "pred_refines t p s \<Longrightarrow> steady t cs \<Longrightarrow> pred_run cs p = spec_run (MERGE_THRES p) cs s"
proof (induction cs arbitrary: t p s)
  case Nil
  then show ?case by simp
next
  case (Cons c cs)
  define now where "now = (case call_time c of None \<Rightarrow> t | Some x \<Rightarrow> x)"
  have "steady now cs" "case call_time c of None \<Rightarrow> now = t | Some x \<Rightarrow> t \<le> x \<and> x < TP_MAX \<and> now = x"
    using Cons.prems(2) by (auto simp: now_def split: option.splits)
  then show ?case
    using Cons.IH [of now "snd (pred_step c p)" "snd (spec_step (MERGE_THRES p) c s)"]
      pred_step_refines [OF Cons.prems(1), where c = c and now = now]
    by (simp add: case_prod_unfold Let_def)
qed

lemma new_Predictor_refines: "pred_refines 0 (new_Predictor nm thres) spec_init"
  by (simp add: pred_refines_def spec_wf_def spec_init_def new_Predictor_def rk_tracks_new TP_MAX_def)

lemma new_Predictor_run:
  "steady 0 cs \<Longrightarrow> pred_run cs (new_Predictor nm thres) = spec_run thres cs spec_init"
  using pred_run_refines [OF new_Predictor_refines, of cs nm thres] by (simp add: new_Predictor_def)

text \<open>The state after a history of calls, and what holds of it.\<close>

definition pred_exec :: "pred_call list \<Rightarrow> Predictor \<Rightarrow> Predictor" where
  "pred_exec cs p = fold (\<lambda>c p. snd (pred_step c p)) cs p"

lemma pred_exec_refines:
  "pred_refines t p s \<Longrightarrow> steady t (cs @ [RecordStart now]) \<Longrightarrow> \<exists>s' t'. pred_refines t' (pred_exec cs p) s' \<and> t' \<le> now \<and> now < TP_MAX"
proof (induction cs arbitrary: t p s)
  case Nil
  then show ?case by (auto simp: pred_exec_def)
next
  case (Cons c cs)
  define x where "x = (case call_time c of None \<Rightarrow> t | Some x \<Rightarrow> x)"
  have "steady x (cs @ [RecordStart now])" "case call_time c of None \<Rightarrow> x = t | Some y \<Rightarrow> t \<le> y \<and> y < TP_MAX \<and> x = y"
    using Cons.prems(2) by (auto simp: x_def split: option.splits)
  then show ?case
    using Cons.IH [of x "snd (pred_step c p)" "snd (spec_step (MERGE_THRES p) c s)"]
      pred_step_refines [OF Cons.prems(1), where c = c and now = x]
    by (simp add: pred_exec_def)
qed

lemma merged_interval_fits:
  assumes "pred_refines t p s" and "t \<le> now" and "now < TP_MAX"
    and "\<not> ongoing_unmerged p" and "ongoing_merged p"
  shows "fits64 (now - long_period_end p) \<and> long_period_end p \<le> now"
proof -
  obtain b e where "sp_long s = Some (b, Some e)"
    using assms ongoing_unmerged_iff [OF assms(1)] ongoing_merged_iff [OF assms(1)]
    unfolding pred_refines_def spec_wf_def by (metis not_None_eq surj_pair)
  then show ?thesis
    using assms by (auto simp: pred_refines_def spec_wf_def fits64_def TP_MAX_def)
qed

lemma ms_of_mono: "a \<le> b \<Longrightarrow> ms_of a \<le> ms_of b"
  by (simp add: ms_of_def to_microseconds_def sdiv_mono divide_right_mono)

text \<open>The bound set by \<^verbatim>\<open>set_upperbound\<close> has no influence on any prediction.\<close>

lemma predictions_ignore_upperbound:
  "fst (predict_unmerged now (set_upperbound b p)) = fst (predict_unmerged now p)"
  "fst (predict_merged now (set_upperbound b p)) = fst (predict_merged now p)"
  by (simp_all add: predict_unmerged_def predict_merged_def set_upperbound_def Let_def)

text \<open>The first \<^verbatim>\<open>record_start\<close> after construction, an interrupt or a reset subtracts
  \<^verbatim>\<open>timepoint_t::min()\<close> from the clock reading, which does not fit the signed type; the result is
  not used.\<close>

lemma first_interval_overflows: "0 \<le> now \<Longrightarrow> \<not> fits64 (now - TP_MIN)"
  by (simp add: fits64_def TP_MIN_def)

section \<open>Properties\<close>

text \<open>The deque of decreasing records is a sliding-window maximum: after any records have been
  added in order of time, dropping the outdated ones and reading the front gives the longest of all
  added records that are at most \<^verbatim>\<open>PREDICT_MAX_KEEP\<close> milliseconds old, and zero if there is
  none.\<close>

lemma record_keeper_window_max:
  assumes "sorted (0 # map fst rs @ [now])" and "now < TP_MAX"
  shows "rk_get_max (rk_drop_outdated
      (fold (\<lambda>(tp, d) k. rk_add k d tp) rs (new_RecordKeeper PREDICT_MAX_KEEP)) now)
    = window_max PREDICT_MAX_KEEP now rs"
  using assms by (intro rk.feed_query [of 0] rk_tracks_new) (simp_all add: TP_MAX_def)

text \<open>C18. The predictor refines its specification: whatever is called on a new predictor, with
  clock readings that never decrease, every prediction it returns is the longest recently completed
  period (or merged period) of a specification that forgets nothing and has no sentinel time
  points.\<close>

theorem predictor_refines_spec:
  assumes "steady 0 cs"
  shows "pred_run cs (new_Predictor nm thres) = spec_run thres cs spec_init"
  using assms by (rule new_Predictor_run)

theorem predictor_refines_spec_witness:
  "pred_run [RecordStart 1000000, RecordStop 4000000, RecordStart 5000000, RecordStop 7000000,
     PredictUnmerged 8000000, PredictMerged 9000000] (new_Predictor ''burst'' 2) = [3, 6]"
  using predictor_refines_spec [of "[RecordStart 1000000, RecordStop 4000000, RecordStart 5000000,
      RecordStop 7000000, PredictUnmerged 8000000, PredictMerged 9000000]" "''burst''" 2]
  by (simp add: TP_MAX_def spec_init_def window_max_def live_def to_milliseconds_def
      PREDICT_MAX_KEEP_def signed_divide_int_def ms_of_def to_microseconds_def)

text \<open>Two bursts that follow each other are merged exactly when the gap between them is at most
  the merge threshold: the merged prediction is then the length from the beginning of the first to
  the end of the second, otherwise it is the longer of the two.\<close>

lemma two_bursts_merged:
  assumes "0 \<le> t0" "t0 \<le> t1" "t1 \<le> t2" "t2 \<le> t3" "t3 \<le> now" "now < TP_MAX"
    and "to_milliseconds (now - t1) \<le> PREDICT_MAX_KEEP"
  shows "pred_run [RecordStart t0, RecordStop t1, RecordStart t2, RecordStop t3, PredictMerged now]
      (new_Predictor nm thres) =
    [if ms_of (t2 - t1) > thres then max (ms_of (t1 - t0)) (ms_of (t3 - t2)) else ms_of (t3 - t0)]"
proof -
  have "pred_run [RecordStart t0, RecordStop t1, RecordStart t2, RecordStop t3, PredictMerged now]
      (new_Predictor nm thres) =
    spec_run thres [RecordStart t0, RecordStop t1, RecordStart t2, RecordStop t3, PredictMerged now] spec_init"
    by (rule new_Predictor_run) (use assms in simp)
  moreover have "live PREDICT_MAX_KEEP now (t1, x)" "live PREDICT_MAX_KEEP now (t3, x)" for x
    using assms(7) live_later [of PREDICT_MAX_KEEP now "(t1, x)" "(t3, x)"] assms by (simp_all add: live_def)
  moreover have "ms_of (t1 - t0) \<le> ms_of (t3 - t0)" using assms by (intro ms_of_mono) simp
  ultimately show ?thesis
    by (auto simp: spec_init_def window_max_def max.commute max_def)
qed

text \<open>No prediction rests on a wrapped subtraction: after any history of calls, when
  \<^verbatim>\<open>record_start\<close> compares the gap since the last merged period with the threshold (a long
  period is open and no period is), the gap is a non-negative number that fits the signed 64-bit
  type.\<close>

lemma merge_gap_in_range:
  assumes "steady 0 (cs @ [RecordStart now])"
    and "\<not> ongoing_unmerged (pred_exec cs (new_Predictor nm thres))"
    and "ongoing_merged (pred_exec cs (new_Predictor nm thres))"
  shows "fits64 (now - long_period_end (pred_exec cs (new_Predictor nm thres)))
    \<and> long_period_end (pred_exec cs (new_Predictor nm thres)) \<le> now"
  using pred_exec_refines [OF new_Predictor_refines assms(1), of nm thres] merged_interval_fits assms(2,3)
  by blast

end
