(* ===== verification/Gem_Client.thy ===== *)
theory Gem_Client
  imports Gem_Prelude
begin

text \<open>
  The scheduler's record of its clients and of the tokens it gave out:
  \<^verbatim>\<open>src/src/scheduler.h\<close> and the methods of \<^verbatim>\<open>ClientInfo\<close> in \<^verbatim>\<open>src/src/scheduler.cpp\<close>.

  The global \<^verbatim>\<open>history_list\<close> is a list of \<open>History\<close> records, oldest first; the methods that read or
  write it take it as an argument. The reading of \<^verbatim>\<open>ms_since_start()\<close> is an argument, in
  milliseconds. The macros \<^verbatim>\<open>_DEBUG\<close> (see \<open>Gem_Log\<close>) and \<^verbatim>\<open>RANDOM_QUOTA\<close> are not defined.
\<close>

record History =
  h_name :: string
  h_start :: double
  h_end :: double

record ClientInfo =
  memory_map :: "64 word \<rightharpoonup> size_t"
  c_name :: string
  gpu_mem_limit :: size_t
  MIN_FRAC :: double
  MAX_FRAC :: double
  BASE_QUOTA :: double
  MIN_QUOTA :: double
  MAX_QUOTA :: double
  quota :: double
  latest_overuse :: double
  latest_actual_usage :: double
  burst :: double

text \<open>The constructor leaves the public members default-initialised (\<^verbatim>\<open>gpu_mem_limit\<close> is set by the
  caller before it is read).\<close>

definition new_ClientInfo :: "double \<Rightarrow> double \<Rightarrow> double \<Rightarrow> double \<Rightarrow> double \<Rightarrow> ClientInfo" where
  "new_ClientInfo baseq minq maxq minf maxf =
     \<lparr>memory_map = Map.empty, c_name = [], gpu_mem_limit = 0, MIN_FRAC = minf, MAX_FRAC = maxf,
      BASE_QUOTA = baseq, MIN_QUOTA = minq, MAX_QUOTA = maxq, quota = baseq, latest_overuse = 0,
      latest_actual_usage = 0, burst = 0\<rparr>"

definition set_burst :: "double \<Rightarrow> ClientInfo \<Rightarrow> ClientInfo" where
  "set_burst estimated_burst c = c\<lparr>burst := estimated_burst\<rparr>"

text \<open>The loop over the reversed history: the first record with the client's name gets its new end,
  and the loop stops. The second component is the usage it computes, if it found one.\<close>

fun close_latest ::
  "string \<Rightarrow> double \<Rightarrow> double \<Rightarrow> History list \<Rightarrow> History list \<times> double option" where
  "close_latest name now overuse [] = ([], None)"
| "close_latest name now overuse (h # hs) =
     (if h_name h = name
      then let h' = h\<lparr>h_end := min now (h_end h + overuse)\<rparr> in (h' # hs, Some (h_end h' - h_start h'))
      else let (hs', u) = close_latest name now overuse hs in (h # hs', u))"

definition update_return_time ::
  "double \<Rightarrow> double \<Rightarrow> ClientInfo \<Rightarrow> History list \<Rightarrow> ClientInfo \<times> History list" where
  "update_return_time now overuse c history_list =
     (let (rev_list, u) = close_latest (c_name c) now overuse (rev history_list);
          c = (case u of None \<Rightarrow> c | Some x \<Rightarrow> c\<lparr>latest_actual_usage := x\<rparr>)
      in (c\<lparr>latest_overuse := overuse\<rparr>, rev rev_list))"

definition Record :: "double \<Rightarrow> double \<Rightarrow> ClientInfo \<Rightarrow> History list \<Rightarrow> History list" where
  "Record now q c history_list =
     history_list @ [\<lparr>h_name = c_name c, h_start = now, h_end = now + q\<rparr>]"

definition get_min_fraction :: "ClientInfo \<Rightarrow> double" where
  "get_min_fraction c = MIN_FRAC c"

definition get_max_fraction :: "ClientInfo \<Rightarrow> double" where
  "get_max_fraction c = MAX_FRAC c"

definition UPDATE_RATE :: double where "UPDATE_RATE = 1 / 2"

definition get_quota :: "ClientInfo \<Rightarrow> double \<times> ClientInfo" where
  "get_quota c =
     (if burst c < 1 / 10 ^ 9
      then let c = c\<lparr>quota := BASE_QUOTA c\<rparr> in (quota c, c)
      else let c = c\<lparr>quota := burst c * UPDATE_RATE + quota c * (1 - UPDATE_RATE)\<rparr>;
               c = c\<lparr>quota := max (quota c) (MIN_QUOTA c)\<rparr>;
               c = c\<lparr>quota := min (quota c) (MAX_QUOTA c)\<rparr>
           in (quota c, c))"

section \<open>update_return_time\<close>

lemma close_latest_absent:
  "name \<notin> h_name ` set hs \<Longrightarrow> close_latest name now overuse hs = (hs, None)"
  by (induction hs) auto

lemma close_latest_found:
  "name \<notin> h_name ` set post \<Longrightarrow> h_name h = name \<Longrightarrow>
   close_latest name now overuse (post @ h # pre) =
     (post @ h\<lparr>h_end := min now (h_end h + overuse)\<rparr> # pre,
      Some (min now (h_end h + overuse) - h_start h))"
  by (induction post) auto

lemma update_return_time_absent:
  "c_name c \<notin> h_name ` set hs \<Longrightarrow>
   update_return_time now overuse c hs = (c\<lparr>latest_overuse := overuse\<rparr>, hs)"
  by (simp add: update_return_time_def close_latest_absent)

lemma update_return_time_found:
  "c_name c \<notin> h_name ` set post \<Longrightarrow> h_name h = c_name c \<Longrightarrow>
   update_return_time now overuse c (pre @ h # post) =
     (c\<lparr>latest_actual_usage := min now (h_end h + overuse) - h_start h, latest_overuse := overuse\<rparr>,
      pre @ h\<lparr>h_end := min now (h_end h + overuse)\<rparr> # post)"
  using close_latest_found [of "c_name c" "rev post" h now overuse "rev pre"]
  by (simp add: update_return_time_def)

text \<open>Either the client has no record, or there is a latest one.\<close>

lemma latest_record_cases:
  obtains (absent) "name \<notin> h_name ` set hs"
  | (latest) pre h post where "hs = pre @ h # post" "h_name h = name" "name \<notin> h_name ` set post"
proof (cases "name \<in> h_name ` set hs")
  case True
  then obtain h where "h \<in> set hs" "h_name h = name" by auto
  then obtain pre h post where "hs = pre @ h # post" "h_name h = name" "\<forall>x\<in>set post. h_name x \<noteq> name"
    using split_list_last_prop [of hs "\<lambda>h. h_name h = name"] by blast
  then show ?thesis by (intro latest) auto
qed (rule absent)

lemma update_return_time_client:
  "c_name (fst (update_return_time now overuse c hs)) = c_name c"
  "MAX_FRAC (fst (update_return_time now overuse c hs)) = MAX_FRAC c"
  "MIN_FRAC (fst (update_return_time now overuse c hs)) = MIN_FRAC c"
  "gpu_mem_limit (fst (update_return_time now overuse c hs)) = gpu_mem_limit c"
  by (auto simp: update_return_time_def Let_def split: prod.splits option.splits)

section \<open>get_quota\<close>

definition clamp :: "double \<Rightarrow> double \<Rightarrow> double \<Rightarrow> double" where
  "clamp lo hi x = min (max x lo) hi"

lemma get_quota_adaptive:
  "\<not> burst c < 1 / 10 ^ 9 \<Longrightarrow>
   get_quota c = (clamp (MIN_QUOTA c) (MAX_QUOTA c) ((burst c + quota c) / 2),
     c\<lparr>quota := clamp (MIN_QUOTA c) (MAX_QUOTA c) ((burst c + quota c) / 2)\<rparr>)"
  by (simp add: get_quota_def UPDATE_RATE_def clamp_def Let_def field_simps)

lemma get_quota_static: "burst c < 1 / 10 ^ 9 \<Longrightarrow> get_quota c = (BASE_QUOTA c, c\<lparr>quota := BASE_QUOTA c\<rparr>)"
  by (simp add: get_quota_def)

lemma get_quota_frame [simp]:
  "c_name (snd (get_quota c)) = c_name c" "burst (snd (get_quota c)) = burst c"
  "MIN_FRAC (snd (get_quota c)) = MIN_FRAC c" "MAX_FRAC (snd (get_quota c)) = MAX_FRAC c"
  "MIN_QUOTA (snd (get_quota c)) = MIN_QUOTA c" "MAX_QUOTA (snd (get_quota c)) = MAX_QUOTA c"
  "BASE_QUOTA (snd (get_quota c)) = BASE_QUOTA c" "gpu_mem_limit (snd (get_quota c)) = gpu_mem_limit c"
  by (simp_all add: get_quota_def Let_def)

lemma quota_get_quota [simp]: "quota (snd (get_quota c)) = fst (get_quota c)"
  by (simp add: get_quota_def Let_def)

text \<open>One step halves the distance to the clamped burst.\<close>

lemma clamp_step:
  "lo \<le> hi \<Longrightarrow> \<bar>clamp lo hi ((b + q) / 2) - clamp lo hi b\<bar> \<le> \<bar>q - clamp lo hi b\<bar> / 2"
proof -
  assume "lo \<le> hi"
  then have "2 * \<bar>clamp lo hi m - clamp lo hi b\<bar> \<le> \<bar>2 * m - b - clamp lo hi b\<bar>" for m
    by (auto simp: clamp_def min_def max_def abs_if split: if_splits)
  moreover have "2 * ((b + q) / 2) - b = q" by (simp add: field_simps)
  ultimately have "2 * \<bar>clamp lo hi ((b + q) / 2) - clamp lo hi b\<bar> \<le> \<bar>q - clamp lo hi b\<bar>" by metis
  then show ?thesis by simp
qed

definition requote :: "nat \<Rightarrow> ClientInfo \<Rightarrow> ClientInfo" where
  "requote n c = ((\<lambda>c. snd (get_quota c)) ^^ n) c"

lemma requote_frame [simp]:
  "burst (requote n c) = burst c" "MIN_QUOTA (requote n c) = MIN_QUOTA c"
  "MAX_QUOTA (requote n c) = MAX_QUOTA c"
  by (induction n) (simp_all add: requote_def)

lemma requote_converges:
  assumes "\<not> burst c < 1 / 10 ^ 9" and "MIN_QUOTA c \<le> MAX_QUOTA c"
  shows "\<bar>quota (requote n c) - clamp (MIN_QUOTA c) (MAX_QUOTA c) (burst c)\<bar>
    \<le> \<bar>quota c - clamp (MIN_QUOTA c) (MAX_QUOTA c) (burst c)\<bar> / 2 ^ n"
proof (induction n)
  case 0
  then show ?case by (simp add: requote_def)
next
  case (Suc n)
  have "quota (requote (Suc n) c) =
      clamp (MIN_QUOTA c) (MAX_QUOTA c) ((burst c + quota (requote n c)) / 2)"
    using get_quota_adaptive [of "requote n c"] assms(1) by (simp add: requote_def [of "Suc n"] requote_def [symmetric])
  then have "\<bar>quota (requote (Suc n) c) - clamp (MIN_QUOTA c) (MAX_QUOTA c) (burst c)\<bar>
      \<le> \<bar>quota (requote n c) - clamp (MIN_QUOTA c) (MAX_QUOTA c) (burst c)\<bar> / 2"
    using clamp_step [OF assms(2)] by simp
  then show ?case using Suc by simp
qed

section \<open>Properties\<close>

text \<open>C21. The self-adaptive quota stays within its bounds and every other field of the client is
  kept: with a burst estimate the quota lies between \<^verbatim>\<open>MIN_QUOTA\<close> and \<^verbatim>\<open>MAX_QUOTA\<close> (when the
  two are ordered; \<^verbatim>\<open>MAX_QUOTA\<close> wins when they are not), without one it is \<^verbatim>\<open>BASE_QUOTA\<close>;
  the returned value is the one stored.\<close>

theorem get_quota_bounds:
  "(burst c < 1 / 10 ^ 9 \<longrightarrow> fst (get_quota c) = BASE_QUOTA c)
   \<and> (\<not> burst c < 1 / 10 ^ 9 \<longrightarrow> fst (get_quota c) \<le> MAX_QUOTA c
        \<and> min (MIN_QUOTA c) (MAX_QUOTA c) \<le> fst (get_quota c))
   \<and> snd (get_quota c) = c\<lparr>quota := fst (get_quota c)\<rparr>"
  by (cases "burst c < 1 / 10 ^ 9") (auto simp: get_quota_static get_quota_adaptive clamp_def)

theorem get_quota_bounds_witness:
  "fst (get_quota (set_burst 900 (new_ClientInfo 250 100 400 (1/2) (4/5)))) \<le> 400
   \<and> 100 \<le> fst (get_quota (set_burst 900 (new_ClientInfo 250 100 400 (1/2) (4/5))))"
  using get_quota_bounds [of "set_burst 900 (new_ClientInfo 250 100 400 (1/2) (4/5))"]
  by (simp add: set_burst_def new_ClientInfo_def)

text \<open>While a client reports the same burst, its quota converges to that burst, clamped to the
  quota bounds: each request at least halves the distance.\<close>

lemma quota_converges:
  assumes "1 / 10 ^ 9 \<le> burst c" and "MIN_QUOTA c \<le> MAX_QUOTA c"
  shows "\<bar>quota (requote n c) - clamp (MIN_QUOTA c) (MAX_QUOTA c) (burst c)\<bar>
    \<le> \<bar>quota c - clamp (MIN_QUOTA c) (MAX_QUOTA c) (burst c)\<bar> / 2 ^ n"
  using assms by (intro requote_converges) auto

text \<open>Returning the token closes the client's latest record and nothing else: its end becomes
  the earlier of now and the end of the quota plus the overuse, the time actually used is stored,
  and no other record changes; a client without a record changes no record.\<close>

lemma update_return_time_closes_latest:
  "(c_name c \<notin> h_name ` set hs \<and> snd (update_return_time now overuse c hs) = hs)
   \<or> (\<exists>pre h post. hs = pre @ h # post \<and> h_name h = c_name c \<and> c_name c \<notin> h_name ` set post
        \<and> snd (update_return_time now overuse c hs) =
            pre @ h\<lparr>h_end := min now (h_end h + overuse)\<rparr> # post
        \<and> latest_actual_usage (fst (update_return_time now overuse c hs)) =
            min now (h_end h + overuse) - h_start h)"
proof (cases rule: latest_record_cases [of "c_name c" hs])
  case absent
  then show ?thesis by (simp add: update_return_time_absent)
next
  case (latest pre h post)
  then show ?thesis by (auto simp: update_return_time_found)
qed

end
