(* ===== verification/Gem_Select.thy ===== *)
theory Gem_Select
  imports Gem_Client
begin

text \<open>
  The scheduling policy: \<^verbatim>\<open>src/src/schd-priority.cpp\<close> and \<^verbatim>\<open>select_candidate\<close> of
  \<^verbatim>\<open>src/src/scheduler.cpp\<close>.

  \<open>select_once\<close> is one turn of the \<^verbatim>\<open>while (true)\<close> loop of \<^verbatim>\<open>select_candidate\<close>, from the reading
  of the clock to either a granted candidate or the timed wait, with the expired records removed
  from the history in both cases. The iterator of a \<^verbatim>\<open>valid_candidate_t\<close> is a position in the
  candidate list. The \<^verbatim>\<open>std::map\<close> of usages is a function that is zero where the map has no entry.
  A front element of an empty candidate list and the null pointer that \<^verbatim>\<open>operator[]\<close> creates for
  an unknown client are errors.
\<close>

section \<open>Candidates and priority\<close>

record candidate_t =
  cand_socket :: sockfd
  cand_name :: string
  cand_req_id :: int32
  cand_arrived_time :: double

record valid_candidate_t =
  missing :: double
  remaining :: double
  usage :: double
  arrived_time :: double
  iter :: nat

definition schd_priority :: "valid_candidate_t \<Rightarrow> valid_candidate_t \<Rightarrow> bool" where
  "schd_priority a b =
     (if missing a > 0 \<and> missing b > 0
      then missing a / (missing a + usage a) > missing b / (missing b + usage b)
      else if missing a > 0 \<and> missing b < 0 then True
      else if missing a < 0 \<and> missing b > 0 then False
      else usage a < usage b)"

section \<open>Usage in the time window\<close>

type_synonym timestamp = "string \<times> double"

definition beyond_window :: "double \<Rightarrow> History \<Rightarrow> bool" where
  "beyond_window window_start h \<longleftrightarrow> h_end h < window_start"

fun timestamp_vector :: "History list \<Rightarrow> timestamp list" where
  "timestamp_vector [] = []"
| "timestamp_vector (h # hs) = (h_name h, - h_start h) # (h_name h, h_end h) # timestamp_vector hs"

definition ts_comp :: "timestamp \<Rightarrow> timestamp \<Rightarrow> bool" where
  "ts_comp a b \<longleftrightarrow> \<bar>snd a\<bar> < \<bar>snd b\<bar>"

text \<open>The first loop: time stamps not after the window's start. It leaves the remaining time stamps,
  \<^verbatim>\<open>overlap_check_vector\<close> and \<^verbatim>\<open>overlap_cnt\<close>.\<close>

fun enter_window ::
  "double \<Rightarrow> timestamp list \<Rightarrow> string list \<Rightarrow> int \<Rightarrow> timestamp list \<times> string list \<times> int" where
  "enter_window window_start [] overlap cnt = ([], overlap, cnt)"
| "enter_window window_start (t # ts) overlap cnt =
     (if \<bar>snd t\<bar> \<le> window_start then enter_window window_start ts (overlap @ [fst t]) (cnt + 1)
      else (t # ts, overlap, cnt))"

text \<open>A division by \<open>cnt = 0\<close> gives 0 here and an infinity or a NaN in C++; it needs a record that ends before it starts.\<close>

definition charge :: "double \<Rightarrow> int \<Rightarrow> string list \<Rightarrow> (string \<Rightarrow> double) \<Rightarrow> (string \<Rightarrow> double)" where
  "charge dt cnt overlap u = fold (\<lambda>n u. u(n := u n + dt / real_of_int cnt)) overlap u"

fun sweep ::
  "timestamp list \<Rightarrow> string list \<Rightarrow> int \<Rightarrow> double \<Rightarrow> (string \<Rightarrow> double) \<Rightarrow> (string \<Rightarrow> double)" where
  "sweep [] overlap cnt current_time u = u"
| "sweep (t # ts) overlap cnt current_time u =
     (let u = charge (\<bar>snd t\<bar> - current_time) cnt overlap u in
      if snd t < 0 then sweep ts (overlap @ [fst t]) (cnt + 1) \<bar>snd t\<bar> u
      else sweep ts (remove1 (fst t) overlap) (cnt - 1) \<bar>snd t\<bar> u)"

definition window_usage :: "double \<Rightarrow> History list \<Rightarrow> (string \<Rightarrow> double)" where
  "window_usage window_start hs =
     (let ts = std_sort ts_comp (timestamp_vector hs);
          (rest, overlap, cnt) = enter_window window_start ts [] 0
      in sweep rest overlap cnt window_start (\<lambda>_. 0))"

section \<open>select_candidate\<close>

datatype sched_error = EmptyCandidates | NullClient | MessageBounds

datatype select_outcome = Grant candidate_t "candidate_t list" | SleepFor double

record sched_config =
  cfg_QUOTA :: double
  cfg_MIN_QUOTA :: double
  cfg_WINDOW_SIZE :: double

definition default_config :: sched_config where
  "default_config = \<lparr>cfg_QUOTA = 250, cfg_MIN_QUOTA = 100, cfg_WINDOW_SIZE = 10000\<rparr>"

fun collect_valid ::
  "(string \<rightharpoonup> ClientInfo) \<Rightarrow> double \<Rightarrow> (string \<Rightarrow> double) \<Rightarrow> nat \<Rightarrow> candidate_t list
    \<Rightarrow> sched_error + valid_candidate_t list" where
  "collect_valid clients window_size u i [] = Inr []"
| "collect_valid clients window_size u i (c # cs) =
     (case clients (cand_name c) of
        None \<Rightarrow> Inl NullClient
      | Some ci \<Rightarrow>
          let limit = get_max_fraction ci * window_size;
              require = get_min_fraction ci * window_size;
              miss = require - u (cand_name c);
              remain = limit - u (cand_name c)
          in (case collect_valid clients window_size u (Suc i) cs of
                Inl e \<Rightarrow> Inl e
              | Inr vs \<Rightarrow> Inr (if remain > 0
                  then \<lparr>missing = miss, remaining = remain, usage = u (cand_name c),
                        arrived_time = cand_arrived_time c, iter = i\<rparr> # vs
                  else vs)))"

definition erase_at :: "nat \<Rightarrow> 'a list \<Rightarrow> 'a list" where
  "erase_at i xs = take i xs @ drop (Suc i) xs"

definition select_once ::
  "sched_config \<Rightarrow> (string \<rightharpoonup> ClientInfo) \<Rightarrow> double \<Rightarrow> History list \<Rightarrow> candidate_t list
    \<Rightarrow> sched_error + (History list \<times> select_outcome)" where
  "select_once cfg clients now history_list candidates =
     (let window_start = now - cfg_WINDOW_SIZE cfg;
          window_size = (if window_start < 0 then now else cfg_WINDOW_SIZE cfg);
          history_list = filter (\<lambda>h. \<not> beyond_window window_start h) history_list
      in case candidates of
           [] \<Rightarrow> Inl EmptyCandidates
         | front # rest \<Rightarrow>
             if \<not> list_ex (\<lambda>h. h_name h = cand_name front) history_list
             then Inr (history_list, Grant front rest)
             else let u = window_usage window_start history_list in
               (case collect_valid clients window_size u 0 candidates of
                  Inl e \<Rightarrow> Inl e
                | Inr vs \<Rightarrow>
                    if vs = [] then Inr (history_list, SleepFor (h_end (hd history_list) - window_start))
                    else let i = iter (hd (std_sort schd_priority vs))
                         in Inr (history_list, Grant (candidates ! i) (erase_at i candidates))))"

section \<open>The priority as a comparator\<close>

text \<open>The states a candidate can be in when its usage is measured, apart from having used exactly
  its (positive) requirement.\<close>

definition ordinary :: "valid_candidate_t \<Rightarrow> bool" where
  "ordinary v \<longleftrightarrow> 0 \<le> usage v \<and> (missing v = 0 \<longrightarrow> usage v = 0) \<and> (missing v < 0 \<longrightarrow> 0 < usage v)"

text \<open>On those the comparator compares keys: first the candidates that are owed time, by the share
  of the requirement they are owed, then the others by usage.\<close>

definition priority_key :: "valid_candidate_t \<Rightarrow> double" where
  "priority_key v =
     (if missing v > 0 then - (missing v / (missing v + usage v))
      else if missing v = 0 then - 1 else usage v)"

lemma owed_share_le_1: "0 < missing v \<Longrightarrow> 0 \<le> usage v \<Longrightarrow>
  0 < missing v / (missing v + usage v) \<and> missing v / (missing v + usage v) \<le> 1
  \<and> (missing v / (missing v + usage v) < 1 \<longleftrightarrow> 0 < usage v)"
  by (auto simp: field_simps)

lemma schd_priority_key:
  assumes "ordinary a" and "ordinary b"
  shows "schd_priority a b \<longleftrightarrow> priority_key a < priority_key b"
proof -
  define x where "x = missing a / (missing a + usage a)"
  define y where "y = missing b / (missing b + usage b)"
  have "0 < missing a \<Longrightarrow> 0 < x \<and> x \<le> 1 \<and> (x < 1 \<longleftrightarrow> 0 < usage a)"
    "0 < missing b \<Longrightarrow> 0 < y \<and> y \<le> 1 \<and> (y < 1 \<longleftrightarrow> 0 < usage b)"
    using assms owed_share_le_1 [of a] owed_share_le_1 [of b] by (auto simp: ordinary_def x_def y_def)
  then show ?thesis
    using assms unfolding ordinary_def schd_priority_def priority_key_def x_def [symmetric] y_def [symmetric]
    by (cases "missing a" "0 :: double" rule: linorder_cases;
        cases "missing b" "0 :: double" rule: linorder_cases) auto
qed

lemma schd_priority_order: "\<forall>v\<in>A. ordinary v \<Longrightarrow> strict_weak_order A schd_priority"
  by (rule strict_weak_orderI) (auto simp: schd_priority_key)

section \<open>Usage equals the fair share of the time window\<close>

text \<open>
  The reference: at a time \<open>x\<close> a client holds the GPU as often as it has a record that covers
  \<open>x\<close>, and the time between two consecutive time stamps is divided among all records that cover
  it.
\<close>

definition held :: "(string \<Rightarrow> bool) \<Rightarrow> History list \<Rightarrow> double \<Rightarrow> nat" where
  "held M hs x = length (filter (\<lambda>h. M (h_name h) \<and> h_start h \<le> x \<and> x < h_end h) hs)"

fun fair_share :: "History list \<Rightarrow> string \<Rightarrow> double list \<Rightarrow> double" where
  "fair_share hs n (a # b # xs) =
     (b - a) * (held (\<lambda>m. m = n) hs a / held (\<lambda>_. True) hs a) + fair_share hs n (b # xs)"
| "fair_share hs n _ = 0"

text \<open>The window's start and all time stamps after it, in order.\<close>

definition window_points :: "double \<Rightarrow> History list \<Rightarrow> double list" where
  "window_points w hs = w # filter (\<lambda>x. w < x) (sort (concat (map (\<lambda>h. [h_start h, h_end h]) hs)))"

text \<open>The records the scheduler makes: they start after the scheduler did and last some time.\<close>

definition proper_history :: "History list \<Rightarrow> bool" where
  "proper_history hs \<longleftrightarrow> (\<forall>h\<in>set hs. 0 < h_start h \<and> h_start h < h_end h)"

text \<open>
  What the sweep makes of a record that ends exactly at the window's start. \<^verbatim>\<open>remove_if\<close> keeps it, and
  the first loop counts both its time stamps as beginnings; no later time stamp takes them back. So
  it counts as two holders for the whole window, although it covers no time of it.
\<close>

definition at_edge :: "double \<Rightarrow> (string \<Rightarrow> bool) \<Rightarrow> History list \<Rightarrow> nat" where
  "at_edge w M hs = length (filter (\<lambda>h. M (h_name h) \<and> h_end h = w) hs)"

definition counted :: "double \<Rightarrow> (string \<Rightarrow> bool) \<Rightarrow> History list \<Rightarrow> double \<Rightarrow> nat" where
  "counted w M hs x = held M hs x + 2 * at_edge w M hs"

fun counted_share :: "double \<Rightarrow> History list \<Rightarrow> string \<Rightarrow> double list \<Rightarrow> double" where
  "counted_share w hs n (a # b # xs) =
     (b - a) * (counted w (\<lambda>m. m = n) hs a / counted w (\<lambda>_. True) hs a) + counted_share w hs n (b # xs)"
| "counted_share w hs n _ = 0"

lemma at_edge_none: "\<forall>h\<in>set hs. h_end h \<noteq> w \<Longrightarrow> at_edge w M hs = 0"
  by (auto simp: at_edge_def filter_empty_conv)

lemma counted_share_fair: "\<forall>h\<in>set hs. h_end h \<noteq> w \<Longrightarrow> counted_share w hs n ps = fair_share hs n ps"
  by (induction ps rule: induct_list012) (simp_all add: counted_def at_edge_none)

definition starts :: "(string \<Rightarrow> bool) \<Rightarrow> timestamp list \<Rightarrow> nat" where
  "starts M ts = length (filter (\<lambda>t. M (fst t) \<and> snd t < 0) ts)"

definition ends :: "(string \<Rightarrow> bool) \<Rightarrow> timestamp list \<Rightarrow> nat" where
  "ends M ts = length (filter (\<lambda>t. M (fst t) \<and> \<not> snd t < 0) ts)"

lemma starts_snoc [simp]: "starts M (ts @ [t]) = starts M ts + (if M (fst t) \<and> snd t < 0 then 1 else 0)"
  by (simp add: starts_def)

lemma ends_snoc [simp]: "ends M (ts @ [t]) = ends M ts + (if M (fst t) \<and> \<not> snd t < 0 then 1 else 0)"
  by (simp add: ends_def)

lemma length_filter_mset: "mset xs = mset ys \<Longrightarrow> length (filter P xs) = length (filter P ys)"
  by (metis mset_filter size_mset)

lemma length_filter_mono: "(\<And>x. x \<in> set xs \<Longrightarrow> P x \<Longrightarrow> Q x) \<Longrightarrow> length (filter P xs) \<le> length (filter Q xs)"
  by (induction xs) (auto simp: le_SucI)

lemma length_filter_subset: "length (filter P xs) \<le> length (filter P (xs @ ys))"
  by simp

lemma length_filter_remove1:
  "a \<in> set xs \<Longrightarrow> length (filter M xs) = length (filter M (remove1 a xs)) + (if M a then 1 else 0)"
  by (induction xs) auto

lemma filter_timestamps:
  assumes "\<forall>h\<in>set hs. 0 < h_start h \<and> 0 < h_end h"
  shows "length (filter (\<lambda>t. M (fst t) \<and> snd t < 0 \<and> Q \<bar>snd t\<bar>) (timestamp_vector hs)) =
      length (filter (\<lambda>h. M (h_name h) \<and> Q (h_start h)) hs)"
    and "length (filter (\<lambda>t. M (fst t) \<and> \<not> snd t < 0 \<and> Q \<bar>snd t\<bar>) (timestamp_vector hs)) =
      length (filter (\<lambda>h. M (h_name h) \<and> Q (h_end h)) hs)"
  using assms by (induction hs) auto

lemma proper_history_pos: "proper_history hs \<Longrightarrow> \<forall>h\<in>set hs. 0 < h_start h \<and> 0 < h_end h"
  by (force simp: proper_history_def)

text \<open>Adding up what is charged.\<close>

lemma charge_apply: "charge dt cnt overlap u n = u n + length (filter (\<lambda>m. m = n) overlap) * (dt / cnt)"
proof (induction overlap arbitrary: u)
  case Nil
  then show ?case by (simp add: charge_def)
next
  case (Cons m overlap)
  have "charge dt cnt (m # overlap) u n = charge dt cnt overlap (u(m := u m + dt / cnt)) n"
    by (simp add: charge_def)
  then show ?case using Cons by (simp add: algebra_simps add_divide_distrib)
qed

text \<open>
  The time stamps of a history, split into those processed and those still to come, at time \<open>x\<close>.
  A record whose end is processed has its start processed, and once everything up to \<open>x\<close> is
  processed the difference counts the holders at \<open>x\<close>.
\<close>

definition split_at :: "History list \<Rightarrow> timestamp list \<Rightarrow> timestamp list \<Rightarrow> double \<Rightarrow> bool" where
  "split_at hs P Q x \<longleftrightarrow>
     mset (P @ Q) = mset (timestamp_vector hs) \<and> (\<forall>t\<in>set P. \<bar>snd t\<bar> \<le> x) \<and> (\<forall>t\<in>set Q. x \<le> \<bar>snd t\<bar>)"

lemma split_at_ends_le_starts:
  assumes "split_at hs P Q x" and "proper_history hs"
  shows "ends M P \<le> starts M P"
proof -
  have perm: "mset (P @ Q) = mset (timestamp_vector hs)" using assms(1) by (simp add: split_at_def)
  note stamps = filter_timestamps [OF proper_history_pos [OF assms(2)], of M]
  have "ends M P \<le> length (filter (\<lambda>t. M (fst t) \<and> \<not> snd t < 0 \<and> \<bar>snd t\<bar> \<le> x) (P @ Q))"
    using assms(1) length_filter_mono [of P "\<lambda>t. M (fst t) \<and> \<not> snd t < 0"
        "\<lambda>t. M (fst t) \<and> \<not> snd t < 0 \<and> \<bar>snd t\<bar> \<le> x"]
    by (fastforce simp: ends_def split_at_def)
  also have "\<dots> = length (filter (\<lambda>h. M (h_name h) \<and> h_end h \<le> x) hs)"
    using length_filter_mset [OF perm] stamps(2) [of "\<lambda>y. y \<le> x"] by simp
  also have "\<dots> \<le> length (filter (\<lambda>h. M (h_name h) \<and> h_start h < x) hs)"
    using assms(2) by (intro length_filter_mono) (force simp: proper_history_def)
  also have "\<dots> = length (filter (\<lambda>t. M (fst t) \<and> snd t < 0 \<and> \<bar>snd t\<bar> < x) (P @ Q))"
    using length_filter_mset [OF perm] stamps(1) [of "\<lambda>y. y < x"] by simp
  also have "filter (\<lambda>t. M (fst t) \<and> snd t < 0 \<and> \<bar>snd t\<bar> < x) Q = []"
    using assms(1) by (force simp: split_at_def filter_empty_conv)
  then have "length (filter (\<lambda>t. M (fst t) \<and> snd t < 0 \<and> \<bar>snd t\<bar> < x) (P @ Q)) \<le> starts M P"
    using length_filter_mono [of P "\<lambda>t. M (fst t) \<and> snd t < 0 \<and> \<bar>snd t\<bar> < x" "\<lambda>t. M (fst t) \<and> snd t < 0"]
    by (simp add: starts_def)
  finally show ?thesis .
qed

lemma split_at_counts:
  assumes "split_at hs P Q x" and "proper_history hs" and "\<forall>t\<in>set Q. x < \<bar>snd t\<bar>"
  shows "starts M P = length (filter (\<lambda>h. M (h_name h) \<and> h_start h \<le> x) hs)"
    and "ends M P = length (filter (\<lambda>h. M (h_name h) \<and> h_end h \<le> x) hs)"
proof -
  have perm: "mset (P @ Q) = mset (timestamp_vector hs)" using assms(1) by (simp add: split_at_def)
  note stamps = filter_timestamps [OF proper_history_pos [OF assms(2)], of M _]
  have cut: "length (filter R P) = length (filter (\<lambda>t. R t \<and> \<bar>snd t\<bar> \<le> x) (timestamp_vector hs))" for R
  proof -
    have "filter (\<lambda>t. R t \<and> \<bar>snd t\<bar> \<le> x) P = filter R P"
      using assms(1) by (intro filter_cong) (auto simp: split_at_def)
    moreover have "filter (\<lambda>t. R t \<and> \<bar>snd t\<bar> \<le> x) Q = []"
      using assms(3) by (force simp: filter_empty_conv)
    ultimately show ?thesis using length_filter_mset [OF perm, of "\<lambda>t. R t \<and> \<bar>snd t\<bar> \<le> x"] by simp
  qed
  show "starts M P = length (filter (\<lambda>h. M (h_name h) \<and> h_start h \<le> x) hs)"
    using cut [of "\<lambda>t. M (fst t) \<and> snd t < 0"] stamps(1) [of "\<lambda>y. y \<le> x"] by (simp add: starts_def conj_assoc)
  show "ends M P = length (filter (\<lambda>h. M (h_name h) \<and> h_end h \<le> x) hs)"
    using cut [of "\<lambda>t. M (fst t) \<and> \<not> snd t < 0"] stamps(2) [of "\<lambda>y. y \<le> x"] by (simp add: ends_def conj_assoc)
qed

lemma split_at_held:
  assumes "split_at hs P Q x" and "proper_history hs" and "\<forall>t\<in>set Q. x < \<bar>snd t\<bar>"
  shows "held M hs x + ends M P = starts M P"
proof -
  have "length (filter (\<lambda>h. M (h_name h) \<and> h_start h \<le> x) hs) =
      held M hs x + length (filter (\<lambda>h. M (h_name h) \<and> h_end h \<le> x) hs)"
    using assms(2) by (induction hs) (auto simp: held_def proper_history_def)
  then show ?thesis using split_at_counts [OF assms, of M] by simp
qed

text \<open>What the overlap vector holds after the time stamps \<open>P\<close>.\<close>

definition overlap_of :: "double \<Rightarrow> History list \<Rightarrow> timestamp list \<Rightarrow> string list \<Rightarrow> bool" where
  "overlap_of w hs P overlap \<longleftrightarrow> (\<forall>M. length (filter M overlap) + ends M P = starts M P + 2 * at_edge w M hs)"

lemma overlap_of_start:
  "overlap_of w hs P overlap \<Longrightarrow> snd t < 0 \<Longrightarrow> overlap_of w hs (P @ [t]) (overlap @ [fst t])"
  by (auto simp: overlap_of_def)

lemma overlap_of_end:
  assumes "overlap_of w hs P overlap" and "\<not> snd t < 0" and "fst t \<in> set overlap"
  shows "overlap_of w hs (P @ [t]) (remove1 (fst t) overlap)"
  unfolding overlap_of_def
proof
  fix M
  have "length (filter M overlap) + ends M P = starts M P + 2 * at_edge w M hs"
    using assms(1) by (simp add: overlap_of_def)
  then show "length (filter M (remove1 (fst t) overlap)) + ends M (P @ [t]) = starts M (P @ [t]) + 2 * at_edge w M hs"
    using assms(2) length_filter_remove1 [OF assms(3), of M] by auto
qed

lemma ending_client_in_overlap:
  assumes "overlap_of w hs P overlap" and "split_at hs (P @ [t]) Q x" and "proper_history hs" and "\<not> snd t < 0"
  shows "fst t \<in> set overlap"
proof -
  let ?M = "\<lambda>m. m = fst t"
  have "ends ?M (P @ [t]) \<le> starts ?M (P @ [t])"
    using split_at_ends_le_starts [OF assms(2,3)] .
  then have "Suc (ends ?M P) \<le> starts ?M P" using assms(4) by simp
  moreover have "length (filter ?M overlap) + ends ?M P = starts ?M P + 2 * at_edge w ?M hs"
    using assms(1) by (simp add: overlap_of_def)
  ultimately have "0 < length (filter ?M overlap)" by linarith
  then show ?thesis by (auto simp: filter_empty_conv)
qed

lemma split_at_next:
  "split_at hs P (t # Q) x \<Longrightarrow> sorted_by ts_comp (t # Q) \<Longrightarrow> split_at hs (P @ [t]) Q \<bar>snd t\<bar>"
  by (fastforce simp: split_at_def ts_comp_def not_less)

lemma sweep_counted_share:
  assumes "split_at hs P Q x" and "sorted_by ts_comp Q" and "proper_history hs" and "overlap_of w hs P overlap"
  shows "sweep Q overlap (int (length overlap)) x u n = u n + counted_share w hs n (x # map (\<lambda>t. \<bar>snd t\<bar>) Q)"
  using assms(1,2,4)
proof (induction Q arbitrary: P x overlap u)
  case Nil
  then show ?case by simp
next
  case (Cons t Q)
  have split: "split_at hs (P @ [t]) Q \<bar>snd t\<bar>" using split_at_next Cons.prems by blast
  have sorted: "sorted_by ts_comp Q" using Cons.prems(2) by simp
  define u' where "u' = charge (\<bar>snd t\<bar> - x) (int (length overlap)) overlap u"
  have charged: "u' n = u n + (\<bar>snd t\<bar> - x) * (counted w (\<lambda>m. m = n) hs x / counted w (\<lambda>_. True) hs x)"
  proof (cases "x = \<bar>snd t\<bar>")
    case True
    then show ?thesis by (simp add: u'_def charge_apply)
  next
    case False
    then have "\<forall>y\<in>set (t # Q). x < \<bar>snd y\<bar>"
      using Cons.prems(1,2) by (force simp: split_at_def ts_comp_def not_less)
    then have h: "held M hs x + ends M P = starts M P" for M
      using split_at_held [OF Cons.prems(1) assms(3)] by blast
    have "length (filter M overlap) = counted w M hs x" for M
    proof -
      have "length (filter M overlap) + ends M P = starts M P + 2 * at_edge w M hs"
        using Cons.prems(3) by (simp add: overlap_of_def)
      then show ?thesis using h [of M] by (simp add: counted_def)
    qed
    from this [of "\<lambda>m. m = n"] this [of "\<lambda>_. True"] show ?thesis
      by (simp add: u'_def charge_apply)
  qed
  have rest: "sweep (t # Q) overlap (int (length overlap)) x u n =
      u' n + counted_share w hs n (\<bar>snd t\<bar> # map (\<lambda>t. \<bar>snd t\<bar>) Q)"
  proof (cases "snd t < 0")
    case True
    have "overlap_of w hs (P @ [t]) (overlap @ [fst t])" using overlap_of_start Cons.prems(3) True by blast
    from Cons.IH [OF split sorted this, of u'] show ?thesis using True by (simp add: u'_def add.commute)
  next
    case False
    have mem: "fst t \<in> set overlap" using ending_client_in_overlap [OF Cons.prems(3) split assms(3) False] .
    then have "overlap_of w hs (P @ [t]) (remove1 (fst t) overlap)" using overlap_of_end Cons.prems(3) False by blast
    moreover have "int (length (remove1 (fst t) overlap)) = int (length overlap) - 1"
      using length_filter_remove1 [OF mem, of "\<lambda>_. True"] by simp
    ultimately show ?thesis using Cons.IH [OF split sorted, of "remove1 (fst t) overlap" u'] False
      by (simp add: u'_def)
  qed
  then show ?case using charged by simp
qed

lemma enter_window_split:
  "enter_window w ts overlap cnt =
     (dropWhile (\<lambda>t. \<bar>snd t\<bar> \<le> w) ts, overlap @ map fst (takeWhile (\<lambda>t. \<bar>snd t\<bar> \<le> w) ts),
      cnt + int (length (takeWhile (\<lambda>t. \<bar>snd t\<bar> \<le> w) ts)))"
  by (induction ts arbitrary: overlap cnt) auto

lemma timestamp_vector_mem:
  "t \<in> set (timestamp_vector hs) \<longleftrightarrow> (\<exists>h\<in>set hs. t = (h_name h, - h_start h) \<or> t = (h_name h, h_end h))"
  by (induction hs) auto

text \<open>The first loop: all time stamps up to the window's start are counted as beginnings.\<close>

lemma first_loop_overlap:
  assumes "split_at hs P Q w" and "\<forall>t\<in>set Q. w < \<bar>snd t\<bar>" and "proper_history hs" and "\<forall>h\<in>set hs. w \<le> h_end h"
  shows "overlap_of w hs P (map fst P)"
proof -
  have "length (filter M (map fst P)) = starts M P + ends M P" for M
    by (induction P) (auto simp: starts_def ends_def)
  moreover have "ends M P = at_edge w M hs" for M
  proof -
    have "filter (\<lambda>h. M (h_name h) \<and> h_end h \<le> w) hs = filter (\<lambda>h. M (h_name h) \<and> h_end h = w) hs"
      using assms(4) by (intro filter_cong) auto
    then show ?thesis using split_at_counts(2) [OF assms(1,3,2), of M] by (simp add: at_edge_def)
  qed
  ultimately show ?thesis by (simp add: overlap_of_def)
qed

lemma strict_weak_order_ts_comp: "strict_weak_order A ts_comp"
  unfolding ts_comp_def by (rule strict_weak_order_key)

text \<open>This holds for every sorted arrangement of the time stamps, so it does not depend on how
  \<^verbatim>\<open>std::sort\<close> orders equal ones.\<close>

lemma sorted_usage_counted:
  assumes "mset ts = mset (timestamp_vector hs)" and "sorted_by ts_comp ts" and "proper_history hs"
    and "\<forall>h\<in>set hs. w \<le> h_end h"
  shows "(let (rest, overlap, cnt) = enter_window w ts [] 0 in sweep rest overlap cnt w (\<lambda>_. 0)) n
    = counted_share w hs n (w # map (\<lambda>t. \<bar>snd t\<bar>) (dropWhile (\<lambda>t. \<bar>snd t\<bar> \<le> w) ts))"
proof -
  let ?P = "takeWhile (\<lambda>t. \<bar>snd t\<bar> \<le> w) ts" and ?Q = "dropWhile (\<lambda>t. \<bar>snd t\<bar> \<le> w) ts"
  have P: "\<forall>t\<in>set ?P. \<bar>snd t\<bar> \<le> w" by (auto dest: set_takeWhileD)
  have "sorted_by ts_comp (?P @ ?Q)" using assms(2) by simp
  then have sorted: "sorted_by ts_comp ?Q" by (simp add: sorted_wrt_append del: takeWhile_dropWhile_id)
  have Q: "\<forall>t\<in>set ?Q. w < \<bar>snd t\<bar>"
  proof (cases ?Q)
    case (Cons t Q)
    have "w < \<bar>snd t\<bar>" using hd_dropWhile [of "\<lambda>t. \<bar>snd t\<bar> \<le> w" ts] Cons by auto
    then show ?thesis using sorted Cons by (auto simp: ts_comp_def not_less)
  next
    case Nil
    then show ?thesis by (simp only: Nil) simp
  qed
  have split: "split_at hs ?P ?Q w" using assms(1) P Q by (auto simp: split_at_def)
  have "sweep ?Q (map fst ?P) (int (length (map fst ?P))) w (\<lambda>_. 0) n =
      0 + counted_share w hs n (w # map (\<lambda>t. \<bar>snd t\<bar>) ?Q)"
    using sweep_counted_share [OF split sorted assms(3) first_loop_overlap [OF split Q assms(3,4)]] .
  then show ?thesis by (simp add: enter_window_split)
qed

lemma sorted_points:
  assumes "mset ts = mset (timestamp_vector hs)" and "sorted_by ts_comp ts" and "proper_history hs"
  shows "w # map (\<lambda>t. \<bar>snd t\<bar>) (dropWhile (\<lambda>t. \<bar>snd t\<bar> \<le> w) ts) = window_points w hs"
proof -
  have "mset (map (\<lambda>t. \<bar>snd t\<bar>) ts) = image_mset (\<lambda>t. \<bar>snd t\<bar>) (mset (timestamp_vector hs))"
    using assms(1) by simp
  also have "\<dots> = mset (concat (map (\<lambda>h. [h_start h, h_end h]) hs))"
    using proper_history_pos [OF assms(3)] by (induction hs) auto
  finally have perm: "mset (map (\<lambda>t. \<bar>snd t\<bar>) ts) = mset (concat (map (\<lambda>h. [h_start h, h_end h]) hs))" .
  have sorted: "sorted (map (\<lambda>t. \<bar>snd t\<bar>) ts)"
    using assms(2) by (auto simp: sorted_wrt_map ts_comp_def not_less)
  have "sort (concat (map (\<lambda>h. [h_start h, h_end h]) hs)) = map (\<lambda>t. \<bar>snd t\<bar>) ts"
    using perm sorted by (rule properties_for_sort)
  moreover have "sorted xs \<Longrightarrow> dropWhile (\<lambda>x. x \<le> w) xs = filter (\<lambda>x. w < x) xs" for xs :: "double list"
    by (induction xs) (auto simp: not_le intro!: filter_True [symmetric])
  moreover have "map (\<lambda>t. \<bar>snd t\<bar>) (dropWhile (\<lambda>t. \<bar>snd t\<bar> \<le> w) ts) =
      dropWhile (\<lambda>x. x \<le> w) (map (\<lambda>t. \<bar>snd t\<bar>) ts)"
    by (simp add: dropWhile_map comp_def)
  ultimately show ?thesis using sorted by (simp only: window_points_def)
qed

lemma window_usage_counted:
  assumes "proper_history hs" and "\<forall>h\<in>set hs. w \<le> h_end h"
  shows "window_usage w hs n = counted_share w hs n (window_points w hs)"
  using sorted_usage_counted [OF std.srt_perm std.srt_sorted [OF strict_weak_order_ts_comp] assms]
    sorted_points [OF std.srt_perm std.srt_sorted [OF strict_weak_order_ts_comp] assms(1)]
  by (simp add: window_usage_def Let_def)

text \<open>What \<^verbatim>\<open>remove_if\<close> leaves ends in the window.\<close>

abbreviation window_history :: "double \<Rightarrow> History list \<Rightarrow> History list" where
  "window_history w hs \<equiv> filter (\<lambda>h. \<not> beyond_window w h) hs"

lemma window_history_proper:
  "proper_history hs \<Longrightarrow> proper_history (window_history w hs) \<and> (\<forall>h\<in>set (window_history w hs). w \<le> h_end h)"
  by (auto simp: proper_history_def beyond_window_def)

text \<open>The scheduler's own operations keep histories proper: a grant of a positive quota, and a return
  of the token at a later moment than its grant with a non-negative overuse.\<close>

lemma Record_proper: "proper_history hs \<Longrightarrow> 0 < now \<Longrightarrow> 0 < q \<Longrightarrow> proper_history (Record now q c hs)"
  by (auto simp: proper_history_def Record_def)

lemma update_return_time_proper:
  assumes "proper_history hs" and "\<forall>h\<in>set hs. h_start h < now" and "0 \<le> overuse"
  shows "proper_history (snd (update_return_time now overuse c hs))"
proof (cases rule: latest_record_cases [of "c_name c" hs])
  case absent
  then show ?thesis using assms(1) by (simp add: update_return_time_absent)
next
  case (latest pre h post)
  then show ?thesis using assms by (fastforce simp: update_return_time_found proper_history_def)
qed

lemma select_once_proper:
  "proper_history hs \<Longrightarrow> select_once cfg clients now hs cs = Inr (hs', out) \<Longrightarrow> proper_history hs'"
  by (auto simp: select_once_def proper_history_def Let_def split: list.splits if_splits sum.splits)

section \<open>The usages add up to the busy time\<close>

text \<open>The time of the intervals that somebody is counted for: a record that covers them, or one that
  ended exactly at the window's start.\<close>

fun busy_time :: "double \<Rightarrow> History list \<Rightarrow> double list \<Rightarrow> double" where
  "busy_time w hs (a # b # xs) =
     (if list_ex (\<lambda>h. h_start h \<le> a \<and> a < h_end h \<or> h_end h = w) hs then b - a else 0) + busy_time w hs (b # xs)"
| "busy_time w hs _ = 0"

lemma sum_counted:
  "finite N \<Longrightarrow> h_name ` set hs \<subseteq> N \<Longrightarrow> (\<Sum>n\<in>N. counted w (\<lambda>m. m = n) hs x) = counted w (\<lambda>_. True) hs x"
proof (induction hs)
  case Nil
  then show ?case by (simp add: counted_def held_def at_edge_def)
next
  case (Cons h hs)
  let ?c = "(if h_start h \<le> x \<and> x < h_end h then 1 else 0) + (if h_end h = w then 2 else 0) :: nat"
  have "counted w M (h # hs) x = counted w M hs x + (if M (h_name h) then ?c else 0)" for M
    by (simp add: counted_def held_def at_edge_def)
  moreover have "(\<Sum>n\<in>N. if h_name h = n then ?c else 0) = ?c"
    using Cons.prems by (auto simp: sum.delta' [of N "h_name h"])
  ultimately show ?case using Cons by (simp add: sum.distrib)
qed

lemma counted_pos_iff:
  "0 < counted w (\<lambda>_. True) hs x \<longleftrightarrow> list_ex (\<lambda>h. h_start h \<le> x \<and> x < h_end h \<or> h_end h = w) hs"
  by (auto simp: counted_def held_def at_edge_def filter_empty_conv list_ex_iff)

lemma sum_counted_share:
  assumes "finite N" and "h_name ` set hs \<subseteq> N"
  shows "(\<Sum>n\<in>N. counted_share w hs n ps) = busy_time w hs ps"
proof (induction ps rule: induct_list012)
  case (3 a b xs)
  let ?k = "\<lambda>n. counted w (\<lambda>m. m = n) hs a" and ?all = "counted w (\<lambda>_. True) hs a"
  have "(\<Sum>n\<in>N. (b - a) * (?k n / ?all)) = (b - a) * (real (\<Sum>n\<in>N. ?k n) / ?all)"
    by (simp add: sum_distrib_left sum_divide_distrib)
  also have "\<dots> = (if list_ex (\<lambda>h. h_start h \<le> a \<and> a < h_end h \<or> h_end h = w) hs then b - a else 0)"
    using sum_counted [OF assms, of w a] counted_pos_iff [of w hs a] by auto
  finally show ?case using 3 by (simp add: sum.distrib)
qed simp_all

lemma busy_time_le: "sorted (a # ps) \<Longrightarrow> busy_time w hs (a # ps) \<le> last (a # ps) - a"
proof (induction ps arbitrary: a)
  case (Cons b ps)
  then have "busy_time w hs (b # ps) \<le> last (b # ps) - b" by simp
  then show ?case using Cons.prems by auto
qed simp

section \<open>Selecting a candidate\<close>

definition valid_of ::
  "(string \<rightharpoonup> ClientInfo) \<Rightarrow> double \<Rightarrow> (string \<Rightarrow> double) \<Rightarrow> candidate_t list \<Rightarrow> nat \<Rightarrow> valid_candidate_t" where
  "valid_of clients window_size u candidates i =
     (let c = candidates ! i; ci = the (clients (cand_name c)) in
      \<lparr>missing = get_min_fraction ci * window_size - u (cand_name c),
       remaining = get_max_fraction ci * window_size - u (cand_name c),
       usage = u (cand_name c), arrived_time = cand_arrived_time c, iter = i\<rparr>)"

lemma valid_of_sel [simp]:
  "iter (valid_of clients window_size u candidates i) = i"
  "usage (valid_of clients window_size u candidates i) = u (cand_name (candidates ! i))"
  by (simp_all add: valid_of_def Let_def)

definition below_limit ::
  "(string \<rightharpoonup> ClientInfo) \<Rightarrow> double \<Rightarrow> (string \<Rightarrow> double) \<Rightarrow> candidate_t \<Rightarrow> bool" where
  "below_limit clients window_size u c \<longleftrightarrow>
     u (cand_name c) < get_max_fraction (the (clients (cand_name c))) * window_size"

lemma collect_valid_append:
  assumes "\<forall>c\<in>set cs. clients (cand_name c) \<noteq> None"
  shows "collect_valid clients window_size u (length done) cs =
    Inr (map (valid_of clients window_size u (done @ cs))
      (filter (\<lambda>i. below_limit clients window_size u ((done @ cs) ! i)) [length done..<length done + length cs]))"
  using assms
proof (induction cs arbitrary: "done")
  case Nil
  then show ?case by simp
next
  case (Cons c cs)
  have up: "[length done..<length done + length (c # cs)] =
      length done # [length (done @ [c])..<length (done @ [c]) + length cs]"
    by (simp add: upt_rec)
  have "collect_valid clients window_size u (Suc (length done)) cs =
      Inr (map (valid_of clients window_size u (done @ c # cs))
        (filter (\<lambda>i. below_limit clients window_size u ((done @ c # cs) ! i))
          [length (done @ [c])..<length (done @ [c]) + length cs]))"
    using Cons.IH [of "done @ [c]"] Cons.prems by simp
  then show ?case
    using Cons.prems unfolding up by (auto simp: below_limit_def valid_of_def Let_def)
qed

lemma collect_valid_eq:
  "\<forall>c\<in>set cs. clients (cand_name c) \<noteq> None \<Longrightarrow>
   collect_valid clients window_size u 0 cs =
     Inr (map (valid_of clients window_size u cs)
       (filter (\<lambda>i. below_limit clients window_size u (cs ! i)) [0..<length cs]))"
  using collect_valid_append [of cs clients window_size u "[]"] by simp

lemma mset_erase_at: "i < length xs \<Longrightarrow> mset xs = add_mset (xs ! i) (mset (erase_at i xs))"
  unfolding erase_at_def by (metis add_mset_add_single id_take_nth_drop mset.simps(2) mset_append union_mset_add_mset_right)

text \<open>What one turn of the loop sees.\<close>

definition recent_history :: "sched_config \<Rightarrow> double \<Rightarrow> History list \<Rightarrow> History list" where
  "recent_history cfg now hs = filter (\<lambda>h. \<not> beyond_window (now - cfg_WINDOW_SIZE cfg) h) hs"

definition recent_usage :: "sched_config \<Rightarrow> double \<Rightarrow> History list \<Rightarrow> (string \<Rightarrow> double)" where
  "recent_usage cfg now hs = window_usage (now - cfg_WINDOW_SIZE cfg) (recent_history cfg now hs)"

definition window_length :: "sched_config \<Rightarrow> double \<Rightarrow> double" where
  "window_length cfg now = (if now - cfg_WINDOW_SIZE cfg < 0 then now else cfg_WINDOW_SIZE cfg)"

definition appears :: "string \<Rightarrow> History list \<Rightarrow> bool" where
  "appears n hs \<longleftrightarrow> list_ex (\<lambda>h. h_name h = n) hs"

definition valid_positions :: "sched_config \<Rightarrow> (string \<rightharpoonup> ClientInfo) \<Rightarrow> double \<Rightarrow> History list \<Rightarrow> candidate_t list \<Rightarrow> nat list" where
  "valid_positions cfg clients now hs cs =
     filter (\<lambda>i. below_limit clients (window_length cfg now) (recent_usage cfg now hs) (cs ! i)) [0..<length cs]"

definition valid_list :: "sched_config \<Rightarrow> (string \<rightharpoonup> ClientInfo) \<Rightarrow> double \<Rightarrow> History list \<Rightarrow> candidate_t list \<Rightarrow> valid_candidate_t list" where
  "valid_list cfg clients now hs cs =
     map (valid_of clients (window_length cfg now) (recent_usage cfg now hs) cs) (valid_positions cfg clients now hs cs)"

lemma select_once_eq:
  assumes "cs \<noteq> []" and "\<forall>c\<in>set cs. clients (cand_name c) \<noteq> None"
  shows "select_once cfg clients now hs cs =
    Inr (recent_history cfg now hs,
      if \<not> appears (cand_name (hd cs)) (recent_history cfg now hs) then Grant (hd cs) (tl cs)
      else if valid_positions cfg clients now hs cs = []
      then SleepFor (h_end (hd (recent_history cfg now hs)) - (now - cfg_WINDOW_SIZE cfg))
      else let i = iter (hd (std_sort schd_priority (valid_list cfg clients now hs cs)))
           in Grant (cs ! i) (erase_at i cs))"
proof -
  obtain c rest where cs: "cs = c # rest" using assms(1) by (cases cs) auto
  show ?thesis
    using collect_valid_eq [OF assms(2)]
    by (simp add: select_once_def cs recent_history_def recent_usage_def window_length_def appears_def
        valid_positions_def valid_list_def Let_def)
qed

lemma select_iter_valid:
  assumes "valid_positions cfg clients now hs cs \<noteq> []"
  shows "iter (hd (std_sort schd_priority (valid_list cfg clients now hs cs))) \<in> set (valid_positions cfg clients now hs cs)"
  using std.srt_hd_in [of "valid_list cfg clients now hs cs" schd_priority] assms
  by (auto simp: valid_list_def)

lemma valid_positions_iff:
  "i \<in> set (valid_positions cfg clients now hs cs) \<longleftrightarrow>
   i < length cs \<and> below_limit clients (window_length cfg now) (recent_usage cfg now hs) (cs ! i)"
  by (auto simp: valid_positions_def)

lemma valid_positions_Nil_iff:
  "valid_positions cfg clients now hs cs = [] \<longleftrightarrow>
   (\<forall>c\<in>set cs. \<not> below_limit clients (window_length cfg now) (recent_usage cfg now hs) c)"
  by (auto simp: valid_positions_def filter_empty_conv all_set_conv_all_nth)

lemma select_once_cases [consumes 2, case_names first sleep best]:
  assumes "cs \<noteq> []" and "\<forall>c\<in>set cs. clients (cand_name c) \<noteq> None"
  obtains (first) "select_once cfg clients now hs cs = Inr (recent_history cfg now hs, Grant (hd cs) (tl cs))"
      "\<not> appears (cand_name (hd cs)) (recent_history cfg now hs)"
  | (sleep) "select_once cfg clients now hs cs = Inr (recent_history cfg now hs,
        SleepFor (h_end (hd (recent_history cfg now hs)) - (now - cfg_WINDOW_SIZE cfg)))"
      "appears (cand_name (hd cs)) (recent_history cfg now hs)" "valid_positions cfg clients now hs cs = []"
  | (best) i where "select_once cfg clients now hs cs = Inr (recent_history cfg now hs, Grant (cs ! i) (erase_at i cs))"
      "i \<in> set (valid_positions cfg clients now hs cs)"
  using select_once_eq [OF assms, of cfg now hs] select_iter_valid [of cfg clients now hs cs]
  by (cases "appears (cand_name (hd cs)) (recent_history cfg now hs)";
      cases "valid_positions cfg clients now hs cs = []") (auto simp: Let_def)

lemma select_outcome_cases:
  assumes "cs \<noteq> []" and "\<forall>c\<in>set cs. clients (cand_name c) \<noteq> None"
  shows "\<exists>hist outcome. select_once cfg clients now hs cs = Inr (hist, outcome)
    \<and> (\<forall>c rest. outcome = Grant c rest \<longrightarrow> mset cs = add_mset c (mset rest))"
  using assms
proof (cases rule: select_once_cases [where cfg = cfg and now = now and hs = hs])
  case first
  then show ?thesis using assms(1) by (cases cs) auto
next
  case sleep
  then show ?thesis by simp
next
  case (best i)
  then have "i < length cs" by (simp add: valid_positions_iff)
  then show ?thesis using best mset_erase_at by auto
qed

text \<open>A small situation: three clients that have used the GPU in the last window, the second of them
  exactly its requirement.\<close>

definition cycle_clients :: "string \<rightharpoonup> ClientInfo" where
  "cycle_clients = [''a'' \<mapsto> new_ClientInfo 250 100 8000 (5/10) (8/10),
     ''b'' \<mapsto> new_ClientInfo 250 100 8000 (2/10) (8/10), ''c'' \<mapsto> new_ClientInfo 250 100 8000 (1/10) (8/10)]"

definition cycle_candidates :: "candidate_t list" where
  "cycle_candidates = [\<lparr>cand_socket = 4, cand_name = ''a'', cand_req_id = 1, cand_arrived_time = 0\<rparr>,
     \<lparr>cand_socket = 5, cand_name = ''b'', cand_req_id = 1, cand_arrived_time = 0\<rparr>,
     \<lparr>cand_socket = 6, cand_name = ''c'', cand_req_id = 1, cand_arrived_time = 0\<rparr>]"

definition cycle_history :: "History list" where
  "cycle_history = [\<lparr>h_name = ''a'', h_start = 12000, h_end = 15000\<rparr>,
     \<lparr>h_name = ''b'', h_start = 15001, h_end = 17001\<rparr>, \<lparr>h_name = ''c'', h_start = 17002, h_end = 18502\<rparr>]"

lemmas selection_simps = cycle_clients_def cycle_candidates_def cycle_history_def collect_valid_eq
  recent_usage_def recent_history_def window_length_def default_config_def window_usage_def std_sort_def insert_back_def
  beyond_window_def ts_comp_def charge_def schd_priority_def get_max_fraction_def get_min_fraction_def
  new_ClientInfo_def

section \<open>Properties\<close>

text \<open>C4. The usage the scheduler computes from the records \<^verbatim>\<open>remove_if\<close> leaves (those that do not end
  before the window's start): between any two consecutive time stamps the elapsed time is divided
  evenly among the records counted there, whatever the order of the records, however they overlap, and
  however equal time stamps are sorted. Counted are the records that cover the interval and, wrongly,
  every record that ends exactly at the window's start, twice and for the whole window; when there is
  no such record, the usage is every client's fair share of the window. Every record has to start
  after the scheduler did and before it ends.\<close>

theorem window_usage_is_fair_share:
  assumes "proper_history hs"
  shows "window_usage w (window_history w hs) n =
      counted_share w (window_history w hs) n (window_points w (window_history w hs))
    \<and> ((\<forall>h\<in>set hs. h_end h \<noteq> w) \<longrightarrow>
      window_usage w (window_history w hs) n = fair_share (window_history w hs) n (window_points w (window_history w hs)))"
  using window_usage_counted [of "window_history w hs" w n] window_history_proper [OF assms, of w]
    counted_share_fair [of "window_history w hs" w n] by auto

text \<open>The record of \<open>a\<close> that ends when the window starts is charged 73 ms of time \<open>a\<close> did not hold.\<close>

theorem window_usage_is_fair_share_witness:
  "window_usage 100 (window_history 100 [\<lparr>h_name = ''a'', h_start = 50, h_end = 100\<rparr>, \<lparr>h_name = ''b'', h_start = 120, h_end = 200\<rparr>]) ''a'' = 220 / 3
   \<and> window_usage 100 (window_history 100 [\<lparr>h_name = ''a'', h_start = 50, h_end = 150\<rparr>, \<lparr>h_name = ''b'', h_start = 120, h_end = 200\<rparr>]) ''b'' = 65"
  using window_usage_is_fair_share [of "[\<lparr>h_name = ''a'', h_start = 50, h_end = 100\<rparr>, \<lparr>h_name = ''b'', h_start = 120, h_end = 200\<rparr>]" 100 "''a''"]
    window_usage_is_fair_share [of "[\<lparr>h_name = ''a'', h_start = 50, h_end = 150\<rparr>, \<lparr>h_name = ''b'', h_start = 120, h_end = 200\<rparr>]" 100 "''b''"]
  by (simp add: proper_history_def beyond_window_def window_points_def held_def counted_def at_edge_def)

text \<open>C12. No time is lost or counted twice: the usages of all clients add up to the length of the
  intervals of the window somebody is counted for, that is, covers (or, as above, has a record that
  ends exactly at the window's start). So they add up to at most the time from the window's start to
  the last time stamp in it, which for a token that is still out lies in the future; when every
  record has ended, to at most the length of the window. Every record has to start after the scheduler
  did and before it ends.\<close>

theorem total_usage_is_busy_time:
  assumes "proper_history hs" and "finite N" and "h_name ` set hs \<subseteq> N"
  shows "(\<Sum>n\<in>N. window_usage w (window_history w hs) n) =
      busy_time w (window_history w hs) (window_points w (window_history w hs))
    \<and> (\<Sum>n\<in>N. window_usage w (window_history w hs) n) \<le> last (window_points w (window_history w hs)) - w
    \<and> (w \<le> now \<and> (\<forall>h\<in>set hs. h_end h \<le> now) \<longrightarrow> (\<Sum>n\<in>N. window_usage w (window_history w hs) n) \<le> now - w)"
proof -
  let ?hs = "window_history w hs"
  have N: "h_name ` set ?hs \<subseteq> N" using assms(3) by auto
  have eq: "(\<Sum>n\<in>N. window_usage w ?hs n) = busy_time w ?hs (window_points w ?hs)"
    using window_usage_counted [of ?hs w] window_history_proper [OF assms(1), of w] sum_counted_share [OF assms(2) N] by simp
  have "sorted (window_points w ?hs)"
    by (auto simp: window_points_def sorted_wrt_filter intro: order_less_imp_le)
  then have le: "(\<Sum>n\<in>N. window_usage w ?hs n) \<le> last (window_points w ?hs) - w"
    unfolding eq window_points_def by (rule busy_time_le)
  have "last (window_points w ?hs) \<le> now" if "w \<le> now" "\<forall>h\<in>set hs. h_end h \<le> now"
  proof -
    have "\<forall>x\<in>set (window_points w ?hs). x \<le> now"
      using that assms(1) by (fastforce simp: window_points_def proper_history_def)
    moreover have "window_points w ?hs \<noteq> []" by (simp add: window_points_def)
    ultimately show ?thesis using last_in_set by blast
  qed
  then show ?thesis using eq le by fastforce
qed

theorem total_usage_is_busy_time_witness:
  "(\<Sum>n\<in>{''a'', ''b''}. window_usage 100 (window_history 100 [\<lparr>h_name = ''a'', h_start = 50, h_end = 150\<rparr>,
     \<lparr>h_name = ''b'', h_start = 120, h_end = 200\<rparr>]) n) = 100"
  using total_usage_is_busy_time [of "[\<lparr>h_name = ''a'', h_start = 50, h_end = 150\<rparr>,
      \<lparr>h_name = ''b'', h_start = 120, h_end = 200\<rparr>]" "{''a'', ''b''}" 100 200]
  by (simp add: proper_history_def beyond_window_def window_points_def)

text \<open>C13. The scheduler never gets stuck on a non-empty candidate list of known clients: it drops
  exactly the expired records, and either grants the token to one candidate, which is the one
  removed from the list, or sleeps. It sleeps only when every candidate has reached its limit, and
  then for a non-negative time determined by the first record left in the history. A candidate it
  grants has either no record in the window or a usage below its limit.\<close>

theorem select_once_total:
  assumes "candidates \<noteq> []" and "\<forall>c\<in>set candidates. clients (cand_name c) \<noteq> None"
  shows "\<exists>outcome. select_once cfg clients now hs candidates = Inr (recent_history cfg now hs, outcome)
    \<and> (case outcome of
         Grant c rest \<Rightarrow> mset candidates = add_mset c (mset rest)
           \<and> (\<not> appears (cand_name c) (recent_history cfg now hs)
              \<or> below_limit clients (window_length cfg now) (recent_usage cfg now hs) c)
       | SleepFor d \<Rightarrow> 0 \<le> d \<and> recent_history cfg now hs \<noteq> []
           \<and> d = h_end (hd (recent_history cfg now hs)) - (now - cfg_WINDOW_SIZE cfg)
           \<and> (\<forall>c\<in>set candidates. \<not> below_limit clients (window_length cfg now) (recent_usage cfg now hs) c))"
proof (cases "appears (cand_name (hd candidates)) (recent_history cfg now hs)")
  case False
  moreover have "mset candidates = add_mset (hd candidates) (mset (tl candidates))"
    using assms(1) by (cases candidates) auto
  ultimately show ?thesis by (simp add: select_once_eq [OF assms])
next
  case True
  then have ne: "recent_history cfg now hs \<noteq> []" by (auto simp: appears_def)
  then have "\<not> beyond_window (now - cfg_WINDOW_SIZE cfg) (hd (recent_history cfg now hs))"
    using hd_in_set [OF ne] by (auto simp: recent_history_def)
  then have d: "0 \<le> h_end (hd (recent_history cfg now hs)) - (now - cfg_WINDOW_SIZE cfg)"
    by (simp add: beyond_window_def)
  show ?thesis
  proof (cases "valid_positions cfg clients now hs candidates = []")
    case empty: True
    then show ?thesis
      using True ne d by (simp add: select_once_eq [OF assms] valid_positions_Nil_iff)
  next
    case False
    note i = select_iter_valid [OF False, unfolded valid_positions_iff]
    show ?thesis
      using True False i mset_erase_at [OF conjunct1 [OF i]]
      by (simp add: select_once_eq [OF assms] Let_def)
  qed
qed

theorem select_once_total_witness:
  "\<exists>outcome. select_once default_config [''a'' \<mapsto> new_ClientInfo 250 100 8000 (1/2) (4/5)] 500
      [\<lparr>h_name = ''a'', h_start = 10, h_end = 450\<rparr>] [\<lparr>cand_socket = 4, cand_name = ''a'', cand_req_id = 1, cand_arrived_time = 460\<rparr>]
    = Inr ([\<lparr>h_name = ''a'', h_start = 10, h_end = 450\<rparr>], outcome)"
  using select_once_total [of "[\<lparr>cand_socket = 4, cand_name = ''a'', cand_req_id = 1, cand_arrived_time = 460\<rparr>]"
      "[''a'' \<mapsto> new_ClientInfo 250 100 8000 (1/2) (4/5)]" default_config 500 "[\<lparr>h_name = ''a'', h_start = 10, h_end = 450\<rparr>]"]
  by (auto simp: recent_history_def beyond_window_def default_config_def)

text \<open>The comparator \<^verbatim>\<open>schd_priority\<close> meets the requirement of \<^verbatim>\<open>std::sort\<close> on every set of
  candidates none of which has used exactly its positive requirement: it is a strict weak order,
  namely first the candidates that are owed time, by the share of the requirement owed, then the
  others by usage.\<close>

lemma schd_priority_strict_weak_order:
  assumes "\<forall>v\<in>A. ordinary v"
  shows "strict_weak_order A schd_priority
    \<and> (\<forall>a\<in>A. \<forall>b\<in>A. schd_priority a b \<longleftrightarrow> priority_key a < priority_key b)"
  using assms schd_priority_order schd_priority_key by blast

text \<open>C14. The policy. When the first candidate has no record in the window, it gets the token. When it
  has one, and no candidate below its limit has used exactly its positive requirement, the candidate
  that gets the token is below its limit and no other candidate below its limit comes before it in
  priority.\<close>

theorem granted_candidate_is_best:
  assumes "candidates \<noteq> []" and "\<forall>c\<in>set candidates. clients (cand_name c) \<noteq> None"
    and "select_once cfg clients now hs candidates = Inr (hs', Grant c rest)"
  shows "(\<not> appears (cand_name (hd candidates)) (recent_history cfg now hs) \<longrightarrow>
      c = hd candidates \<and> rest = tl candidates)
    \<and> (appears (cand_name (hd candidates)) (recent_history cfg now hs)
      \<and> (\<forall>v\<in>set (valid_list cfg clients now hs candidates). ordinary v) \<longrightarrow>
      (\<exists>i<length candidates. c = candidates ! i \<and> rest = erase_at i candidates
        \<and> below_limit clients (window_length cfg now) (recent_usage cfg now hs) c
        \<and> (\<forall>j<length candidates.
             below_limit clients (window_length cfg now) (recent_usage cfg now hs) (candidates ! j) \<longrightarrow>
             \<not> schd_priority
                (valid_of clients (window_length cfg now) (recent_usage cfg now hs) candidates j)
                (valid_of clients (window_length cfg now) (recent_usage cfg now hs) candidates i))))"
proof (intro conjI impI)
  assume "\<not> appears (cand_name (hd candidates)) (recent_history cfg now hs)"
  then show "c = hd candidates" "rest = tl candidates" using assms(3) by (auto simp: select_once_eq [OF assms(1,2)])
next
  let ?vs = "valid_list cfg clients now hs candidates"
  assume "appears (cand_name (hd candidates)) (recent_history cfg now hs) \<and> (\<forall>v\<in>set ?vs. ordinary v)"
  then have seen: "appears (cand_name (hd candidates)) (recent_history cfg now hs)" and ord: "\<forall>v\<in>set ?vs. ordinary v" by auto
  have ne: "valid_positions cfg clients now hs candidates \<noteq> []"
    using seen assms(3) by (auto simp: select_once_eq [OF assms(1,2)] split: if_splits)
  define v where "v = hd (std_sort schd_priority ?vs)"
  have "v \<in> set ?vs" unfolding v_def using ne by (intro std.srt_hd_in) (simp add: valid_list_def)
  then have v: "v = valid_of clients (window_length cfg now) (recent_usage cfg now hs) candidates (iter v)"
    by (auto simp: valid_list_def)
  note i = select_iter_valid [OF ne, folded v_def, unfolded valid_positions_iff]
  have "\<not> schd_priority y v" if "y \<in> set ?vs" for y
    unfolding v_def using schd_priority_order [OF ord] that by (rule std.srt_hd_minimal)
  moreover have "valid_of clients (window_length cfg now) (recent_usage cfg now hs) candidates j \<in> set ?vs"
    if "j < length candidates" "below_limit clients (window_length cfg now) (recent_usage cfg now hs) (candidates ! j)" for j
    using that by (simp add: valid_list_def valid_positions_iff)
  moreover have "c = candidates ! iter v \<and> rest = erase_at (iter v) candidates"
    using seen assms(3) ne by (simp add: select_once_eq [OF assms(1,2)] Let_def v_def)
  ultimately show "\<exists>i<length candidates. c = candidates ! i \<and> rest = erase_at i candidates
        \<and> below_limit clients (window_length cfg now) (recent_usage cfg now hs) c
        \<and> (\<forall>j<length candidates.
             below_limit clients (window_length cfg now) (recent_usage cfg now hs) (candidates ! j) \<longrightarrow>
             \<not> schd_priority
                (valid_of clients (window_length cfg now) (recent_usage cfg now hs) candidates j)
                (valid_of clients (window_length cfg now) (recent_usage cfg now hs) candidates i))"
    using i v by metis
qed

theorem granted_candidate_is_best_witness:
  "\<exists>rest. select_once default_config cycle_clients 20000 cycle_history [cycle_candidates ! 2, cycle_candidates ! 0]
      = Inr (cycle_history, Grant (cycle_candidates ! 0) rest)
    \<and> below_limit cycle_clients 10000 (recent_usage default_config 20000 cycle_history) (cycle_candidates ! 0)"
proof -
  let ?cs = "[cycle_candidates ! 2, cycle_candidates ! 0]"
  have known: "\<forall>c\<in>set ?cs. cycle_clients (cand_name c) \<noteq> None"
    by (simp add: cycle_candidates_def cycle_clients_def)
  have recent: "appears (cand_name (hd ?cs)) (recent_history default_config 20000 cycle_history)"
    by (simp add: appears_def selection_simps)
  have ordinary: "\<forall>v\<in>set (valid_list default_config cycle_clients 20000 cycle_history ?cs). ordinary v"
    by (simp add: valid_list_def valid_positions_def valid_of_def below_limit_def ordinary_def selection_simps)
  have run: "select_once default_config cycle_clients 20000 cycle_history ?cs
      = Inr (cycle_history, Grant (cycle_candidates ! 0) [cycle_candidates ! 2])"
    by (simp add: select_once_def erase_at_def selection_simps)
  have "below_limit cycle_clients (window_length default_config 20000)
      (recent_usage default_config 20000 cycle_history) (cycle_candidates ! 0)"
    using granted_candidate_is_best [OF _ known run] recent ordinary by auto
  then show ?thesis using run by (simp add: window_length_def default_config_def)
qed

text \<open>C38. When candidates of one selection have used less than, exactly and more than their requirement,
  and their usages are in the opposite order, \<^verbatim>\<open>schd_priority\<close> puts them in a circle, so it is no strict
  weak order and breaks the precondition of \<^verbatim>\<open>std::sort\<close>. If they are the only candidates below their
  limits, then whichever of them the scheduler grants, another one precedes it in priority: there is no
  best candidate.\<close>

theorem no_best_candidate:
  assumes "candidates \<noteq> []" and "\<forall>c\<in>set candidates. clients (cand_name c) \<noteq> None"
    and "{a, z, c} \<subseteq> set (valid_list cfg clients now hs candidates)"
    and "0 < missing a" and "missing z = 0" and "missing c < 0" and "usage c < usage z" and "usage z < usage a"
  shows "schd_priority a c \<and> schd_priority c z \<and> schd_priority z a
    \<and> \<not> strict_weak_order (set (valid_list cfg clients now hs candidates)) schd_priority
    \<and> (set (valid_list cfg clients now hs candidates) = {a, z, c}
       \<and> appears (cand_name (hd candidates)) (recent_history cfg now hs) \<longrightarrow>
      (\<exists>i<length candidates. \<exists>j<length candidates.
         select_once cfg clients now hs candidates =
           Inr (recent_history cfg now hs, Grant (candidates ! i) (erase_at i candidates))
         \<and> below_limit clients (window_length cfg now) (recent_usage cfg now hs) (candidates ! j)
         \<and> schd_priority (valid_of clients (window_length cfg now) (recent_usage cfg now hs) candidates j)
             (valid_of clients (window_length cfg now) (recent_usage cfg now hs) candidates i)))"
proof -
  let ?vs = "valid_list cfg clients now hs candidates"
  let ?of = "valid_of clients (window_length cfg now) (recent_usage cfg now hs) candidates"
  have cyc: "schd_priority a c" "schd_priority c z" "schd_priority z a"
    using assms(4-8) by (simp_all add: schd_priority_def)
  have "\<not> strict_weak_order (set ?vs) schd_priority"
  proof
    assume swo: "strict_weak_order (set ?vs) schd_priority"
    have mem: "a \<in> set ?vs" "z \<in> set ?vs" "c \<in> set ?vs" using assms(3) by simp_all
    have "schd_priority c a" using strict_weak_order_trans [OF swo mem(3,2,1)] cyc by blast
    then show False using strict_weak_order_asym [OF swo mem(1,3)] cyc(1) by blast
  qed
  moreover have "\<exists>i<length candidates. \<exists>j<length candidates.
      select_once cfg clients now hs candidates = Inr (recent_history cfg now hs, Grant (candidates ! i) (erase_at i candidates))
      \<and> below_limit clients (window_length cfg now) (recent_usage cfg now hs) (candidates ! j) \<and> schd_priority (?of j) (?of i)"
    if only: "set ?vs = {a, z, c}" and seen: "appears (cand_name (hd candidates)) (recent_history cfg now hs)"
  proof -
    have ne: "valid_positions cfg clients now hs candidates \<noteq> []" using only by (auto simp: valid_list_def)
    define v where "v = hd (std_sort schd_priority ?vs)"
    have v: "v \<in> set ?vs" unfolding v_def using ne by (intro std.srt_hd_in) (simp add: valid_list_def)
    then obtain y where y: "y \<in> set ?vs" "schd_priority y v" using only cyc by auto
    have pos: "x = ?of (iter x) \<and> iter x \<in> set (valid_positions cfg clients now hs candidates)" if "x \<in> set ?vs" for x
      using that by (auto simp: valid_list_def)
    have "select_once cfg clients now hs candidates =
        Inr (recent_history cfg now hs, Grant (candidates ! iter v) (erase_at (iter v) candidates))"
      using seen ne by (simp add: select_once_eq [OF assms(1,2)] Let_def v_def)
    then show ?thesis using pos [OF v] pos [OF y(1)] y(2) unfolding valid_positions_iff by metis
  qed
  ultimately show ?thesis using cyc by blast
qed

theorem no_best_candidate_witness:
  "\<exists>i<3. \<exists>j<3. select_once default_config cycle_clients 20000 cycle_history cycle_candidates =
      Inr (cycle_history, Grant (cycle_candidates ! i) (erase_at i cycle_candidates))
    \<and> schd_priority (valid_of cycle_clients 10000 (recent_usage default_config 20000 cycle_history) cycle_candidates j)
        (valid_of cycle_clients 10000 (recent_usage default_config 20000 cycle_history) cycle_candidates i)"
proof -
  let ?of = "valid_of cycle_clients 10000 (recent_usage default_config 20000 cycle_history) cycle_candidates"
  have win: "window_length default_config 20000 = 10000" "recent_history default_config 20000 cycle_history = cycle_history"
    by (simp_all add: selection_simps)
  have known: "cycle_candidates \<noteq> []" "\<forall>c\<in>set cycle_candidates. cycle_clients (cand_name c) \<noteq> None"
    by (simp_all add: cycle_candidates_def cycle_clients_def)
  have recent: "appears (cand_name (hd cycle_candidates)) (recent_history default_config 20000 cycle_history)"
    by (simp add: appears_def selection_simps)
  have vs: "valid_list default_config cycle_clients 20000 cycle_history cycle_candidates = [?of 0, ?of 1, ?of 2]"
    by (simp add: valid_list_def valid_positions_def below_limit_def selection_simps upt_rec numeral_2_eq_2)
  have "missing (?of 0) > 0 \<and> missing (?of 1) = 0 \<and> missing (?of 2) < 0 \<and> usage (?of 2) < usage (?of 1) \<and> usage (?of 1) < usage (?of 0)"
    by (simp add: valid_of_def selection_simps)
  moreover have "length cycle_candidates = 3" by (simp add: cycle_candidates_def)
  ultimately show ?thesis
    using no_best_candidate [OF known, of "?of 0" "?of 1" "?of 2" default_config 20000 cycle_history] recent vs win by auto
qed

end
