(* ===== verification/Gem_Config.thy ===== *)
theory Gem_Config
  imports Gem_Client Gem_Select
begin

text \<open>
  The scheduler's configuration: \<^verbatim>\<open>read_resource_config\<close> and the handling of the events of \<^verbatim>\<open>monitor_file\<close>
  in \<^verbatim>\<open>src/src/scheduler.cpp\<close>.

  \<open>istream\<close> is what the code uses of \<^verbatim>\<open>std::fstream\<close>: the characters not read yet and the fail bit.
  An extraction returns \<open>None\<close> in place of the value when it leaves the variable as it was (the
  stream had failed, or only white space was left); a number that cannot be read is zero and sets
  the fail bit, as C++11 prescribes. Local variables that are not initialised are \<open>None\<close>.
  The file system is a function from paths to contents.
\<close>

section \<open>Formatted input\<close>

record istream =
  in_rest :: string
  in_fail :: bool

definition is_space :: "char \<Rightarrow> bool" where
  "is_space c \<longleftrightarrow> c \<in> {CHR '' '', CHR 0x09, CHR 0x0A, CHR 0x0B, CHR 0x0C, CHR 0x0D}"

definition is_digit :: "char \<Rightarrow> bool" where
  "is_digit c \<longleftrightarrow> 48 \<le> (of_char c :: nat) \<and> (of_char c :: nat) \<le> 57"

definition digit_value :: "char \<Rightarrow> nat" where
  "digit_value c = of_char c - 48"

definition digits_value :: "string \<Rightarrow> nat" where
  "digits_value ds = fold (\<lambda>c n. 10 * n + digit_value c) ds 0"

definition read_sign :: "string \<Rightarrow> bool \<times> string" where
  "read_sign s = (case s of c # r \<Rightarrow> if c = CHR ''-'' then (True, r) else if c = CHR ''+'' then (False, r) else (False, s)
     | [] \<Rightarrow> (False, s))"

text \<open>The sentry of an extraction: skip white space; at the end of the file the extraction fails
  without storing.\<close>

definition sentry :: "istream \<Rightarrow> istream option" where
  "sentry st =
     (if in_fail st then None
      else let r = dropWhile is_space (in_rest st) in if r = [] then None else Some (st\<lparr>in_rest := r\<rparr>))"

definition failed :: "istream \<Rightarrow> istream" where
  "failed st = (if in_fail st then st else st\<lparr>in_rest := dropWhile is_space (in_rest st), in_fail := True\<rparr>)"

text \<open>A signed decimal number as the digits and the rest.\<close>

definition scan_int :: "string \<Rightarrow> bool \<times> string \<times> string" where
  "scan_int s = (let (neg, r) = read_sign s in (neg, takeWhile is_digit r, dropWhile is_digit r))"

definition extract_int :: "istream \<Rightarrow> int option \<times> istream" where
  "extract_int st = (case sentry st of
     None \<Rightarrow> (None, failed st)
   | Some st \<Rightarrow>
       let (neg, ds, r) = scan_int (in_rest st);
           v = (if neg then - int (digits_value ds) else int (digits_value ds))
       in if ds = [] then (Some 0, \<lparr>in_rest = r, in_fail = True\<rparr>)
          else if v < - (2 ^ 31) then (Some (- (2 ^ 31)), \<lparr>in_rest = r, in_fail = True\<rparr>)
          else if v \<ge> 2 ^ 31 then (Some (2 ^ 31 - 1), \<lparr>in_rest = r, in_fail = True\<rparr>)
          else (Some v, \<lparr>in_rest = r, in_fail = False\<rparr>))"

definition extract_size :: "istream \<Rightarrow> size_t option \<times> istream" where
  "extract_size st = (case sentry st of
     None \<Rightarrow> (None, failed st)
   | Some st \<Rightarrow>
       let (neg, ds, r) = scan_int (in_rest st); n = digits_value ds
       in if ds = [] then (Some 0, \<lparr>in_rest = r, in_fail = True\<rparr>)
          else if n \<ge> 2 ^ 64 then (Some (- 1), \<lparr>in_rest = r, in_fail = True\<rparr>)
          else (Some (if neg then - word_of_nat n else word_of_nat n), \<lparr>in_rest = r, in_fail = False\<rparr>))"

text \<open>The exponent part of a floating-point number: \<open>None\<close> when the letter is not followed by
  digits, which makes the whole number invalid.\<close>

definition scan_exponent :: "string \<Rightarrow> int option \<times> string" where
  "scan_exponent s = (case s of
     c # r \<Rightarrow>
       if c = CHR ''e'' \<or> c = CHR ''E'' then
         let (neg, ds, r) = scan_int r
         in (if ds = [] then None else Some (if neg then - int (digits_value ds) else int (digits_value ds)), r)
       else (Some 0, s)
   | [] \<Rightarrow> (Some 0, s))"

text \<open>Sign, digits, point, digits, exponent. The value is the exact decimal number.\<close>

definition scan_double :: "string \<Rightarrow> double option \<times> string" where
  "scan_double s =
     (let (neg, r) = read_sign s;
          whole = takeWhile is_digit r; r = dropWhile is_digit r;
          (frac, r) = (case r of c # r' \<Rightarrow> if c = CHR ''.'' then (takeWhile is_digit r', dropWhile is_digit r') else ([], r)
                         | [] \<Rightarrow> ([], r))
      in if whole @ frac = [] then (None, r)
         else let (ex, r) = scan_exponent r;
                  mantissa = real (digits_value (whole @ frac)) / 10 ^ length frac
              in (map_option (\<lambda>e. (if neg then - mantissa else mantissa) * 10 powi e) ex, r))"

definition extract_double :: "istream \<Rightarrow> double option \<times> istream" where
  "extract_double st = (case sentry st of
     None \<Rightarrow> (None, failed st)
   | Some st \<Rightarrow>
       (case scan_double (in_rest st) of
          (None, r) \<Rightarrow> (Some 0, \<lparr>in_rest = r, in_fail = True\<rparr>)
        | (Some v, r) \<Rightarrow> (Some v, \<lparr>in_rest = r, in_fail = False\<rparr>)))"

definition extract_word :: "istream \<Rightarrow> string option \<times> istream" where
  "extract_word st = (case sentry st of
     None \<Rightarrow> (None, failed st)
   | Some st \<Rightarrow> (Some (takeWhile (\<lambda>c. \<not> is_space c) (in_rest st)),
       st\<lparr>in_rest := dropWhile (\<lambda>c. \<not> is_space c) (in_rest st)\<rparr>))"

section \<open>read_resource_config\<close>

definition HOST_NAME_MAX :: nat where "HOST_NAME_MAX = 64"
definition PATH_MAX :: nat where "PATH_MAX = 4096"

datatype config_error = PathOverflow | FileMissing | NameOverflow | Uninitialised

record config_vars =
  v_client_name :: "string option"
  v_gpu_min_fraction :: "double option"
  v_gpu_max_fraction :: "double option"
  v_gpu_memory_size :: "size_t option"

definition store :: "'a option \<Rightarrow> 'a option \<Rightarrow> 'a option" where
  "store new old = (case new of None \<Rightarrow> old | Some v \<Rightarrow> Some v)"

text \<open>The chained extraction of one line; a name longer than the array overflows it.\<close>

definition read_line :: "istream \<Rightarrow> config_vars \<Rightarrow> config_error + (config_vars \<times> istream)" where
  "read_line fin v =
     (let (w, fin) = extract_word fin in
      if w \<noteq> None \<and> HOST_NAME_MAX \<le> length (the w) then Inl NameOverflow
      else let (a, fin) = extract_double fin;
               (b, fin) = extract_double fin;
               (n, fin) = extract_size fin
           in Inr (\<lparr>v_client_name = store w (v_client_name v),
                    v_gpu_min_fraction = store a (v_gpu_min_fraction v),
                    v_gpu_max_fraction = store b (v_gpu_max_fraction v),
                    v_gpu_memory_size = store n (v_gpu_memory_size v)\<rparr>, fin))"

definition configured_client :: "sched_config \<Rightarrow> string \<Rightarrow> double \<Rightarrow> double \<Rightarrow> size_t \<Rightarrow> ClientInfo" where
  "configured_client cfg client_name gpu_min_fraction gpu_max_fraction gpu_memory_size =
     (new_ClientInfo (cfg_QUOTA cfg) (cfg_MIN_QUOTA cfg) (gpu_max_fraction * cfg_WINDOW_SIZE cfg)
        gpu_min_fraction gpu_max_fraction)\<lparr>c_name := client_name, gpu_mem_limit := gpu_memory_size\<rparr>"

definition register_client ::
  "sched_config \<Rightarrow> config_vars \<Rightarrow> (string \<rightharpoonup> ClientInfo) \<Rightarrow> config_error + (string \<rightharpoonup> ClientInfo)" where
  "register_client cfg v client_info_map =
     (case (v_client_name v, v_gpu_min_fraction v, v_gpu_max_fraction v, v_gpu_memory_size v) of
        (Some n, Some a, Some b, Some s) \<Rightarrow> Inr (client_info_map(n \<mapsto> configured_client cfg n a b s))
      | _ \<Rightarrow> Inl Uninitialised)"

fun config_loop ::
  "sched_config \<Rightarrow> nat \<Rightarrow> istream \<Rightarrow> config_vars \<Rightarrow> (string \<rightharpoonup> ClientInfo)
    \<Rightarrow> config_error + (string \<rightharpoonup> ClientInfo)" where
  "config_loop cfg 0 fin v client_info_map = Inr client_info_map"
| "config_loop cfg (Suc i) fin v client_info_map =
     (case read_line fin v of
        Inl e \<Rightarrow> Inl e
      | Inr (v, fin) \<Rightarrow>
          (case register_client cfg v client_info_map of
             Inl e \<Rightarrow> Inl e
           | Inr client_info_map \<Rightarrow> config_loop cfg i fin v client_info_map))"

definition no_vars :: config_vars where
  "no_vars = \<lparr>v_client_name = None, v_gpu_min_fraction = None, v_gpu_max_fraction = None, v_gpu_memory_size = None\<rparr>"

definition config_path :: "string \<Rightarrow> string \<Rightarrow> string option" where
  "config_path limit_file_dir limit_file_name =
     (if limit_file_dir = [] then None
      else let p = limit_file_dir @ (if last limit_file_dir \<noteq> CHR ''/'' then ''/'' else []) @ limit_file_name
           in if length p < PATH_MAX then Some p else None)"

definition read_config_text ::
  "sched_config \<Rightarrow> string \<Rightarrow> (string \<rightharpoonup> ClientInfo) \<Rightarrow> config_error + (string \<rightharpoonup> ClientInfo)" where
  "read_config_text cfg contents client_info_map =
     (case extract_int \<lparr>in_rest = contents, in_fail = False\<rparr> of
        (None, fin) \<Rightarrow> Inl Uninitialised
      | (Some container_num, fin) \<Rightarrow> config_loop cfg (nat container_num) fin no_vars client_info_map)"

definition read_resource_config ::
  "(string \<rightharpoonup> string) \<Rightarrow> string \<Rightarrow> string \<Rightarrow> sched_config \<Rightarrow> (string \<rightharpoonup> ClientInfo)
    \<Rightarrow> config_error + (string \<rightharpoonup> ClientInfo)" where
  "read_resource_config files limit_file_dir limit_file_name cfg client_info_map =
     (case config_path limit_file_dir limit_file_name of
        None \<Rightarrow> Inl PathOverflow
      | Some full_path \<Rightarrow>
          (case files full_path of
             None \<Rightarrow> Inl FileMissing
           | Some contents \<Rightarrow> read_config_text cfg contents client_info_map))"

section \<open>monitor_file\<close>

record inotify_event =
  ev_mask :: "32 word"
  ev_len :: "32 word"
  ev_name :: string

definition IN_CLOSE_WRITE :: "32 word" where "IN_CLOSE_WRITE = 8"

text \<open>The inner loop over the events of one read, with the file system as it is while they are
  handled.\<close>

fun handle_events ::
  "(string \<rightharpoonup> string) \<Rightarrow> string \<Rightarrow> string \<Rightarrow> sched_config \<Rightarrow> inotify_event list \<Rightarrow> (string \<rightharpoonup> ClientInfo)
    \<Rightarrow> config_error + (string \<rightharpoonup> ClientInfo)" where
  "handle_events files path filename cfg [] client_info_map = Inr client_info_map"
| "handle_events files path filename cfg (ev # evs) client_info_map =
     (if ev_len ev \<noteq> 0 \<and> and (ev_mask ev) IN_CLOSE_WRITE \<noteq> 0 \<and> ev_name ev = filename
      then case read_resource_config files path filename cfg client_info_map of
             Inl e \<Rightarrow> Inl e
           | Inr client_info_map \<Rightarrow> handle_events files path filename cfg evs client_info_map
      else handle_events files path filename cfg evs client_info_map)"

section \<open>Printing a configuration\<close>

text \<open>The file format of the README: the number of clients, then one line per client. A fraction is
  printed as its integer part and its decimals.\<close>

record client_line =
  cl_name :: string
  cl_min :: "nat \<times> string"
  cl_max :: "nat \<times> string"
  cl_mem :: nat

fun show_nat :: "nat \<Rightarrow> string" where
  "show_nat n = (if n < 10 then [char_of (48 + n)] else show_nat (n div 10) @ [char_of (48 + n mod 10)])"

declare show_nat.simps [simp del]

definition show_decimal :: "nat \<times> string \<Rightarrow> string" where
  "show_decimal d = show_nat (fst d) @ CHR ''.'' # snd d"

definition decimal_value :: "nat \<times> string \<Rightarrow> double" where
  "decimal_value d = real (fst d) + real (digits_value (snd d)) / 10 ^ length (snd d)"

definition show_line :: "client_line \<Rightarrow> string" where
  "show_line l = CHR 0x0A # cl_name l @ CHR '' '' # show_decimal (cl_min l) @ CHR '' '' # show_decimal (cl_max l)
     @ CHR '' '' # show_nat (cl_mem l)"

definition show_config :: "nat \<Rightarrow> client_line list \<Rightarrow> string" where
  "show_config n ls = show_nat n @ concat (map show_line ls) @ [CHR 0x0A]"

definition wf_line :: "client_line \<Rightarrow> bool" where
  "wf_line l \<longleftrightarrow> cl_name l \<noteq> [] \<and> list_all (\<lambda>c. \<not> is_space c) (cl_name l) \<and> length (cl_name l) < HOST_NAME_MAX
     \<and> list_all is_digit (snd (cl_min l)) \<and> list_all is_digit (snd (cl_max l)) \<and> cl_mem l < 2 ^ 64"

definition client_of :: "sched_config \<Rightarrow> client_line \<Rightarrow> ClientInfo" where
  "client_of cfg l = configured_client cfg (cl_name l) (decimal_value (cl_min l)) (decimal_value (cl_max l)) (word_of_nat (cl_mem l))"

definition register_lines :: "sched_config \<Rightarrow> client_line list \<Rightarrow> (string \<rightharpoonup> ClientInfo) \<Rightarrow> (string \<rightharpoonup> ClientInfo)" where
  "register_lines cfg ls clients = fold (\<lambda>l m. m(cl_name l \<mapsto> client_of cfg l)) ls clients"

section \<open>Reading what was printed\<close>

lemma digits_value_snoc: "digits_value (ds @ [c]) = 10 * digits_value ds + digit_value c"
  by (simp add: digits_value_def)

lemma digits_value_append: "digits_value (xs @ ys) = digits_value xs * 10 ^ length ys + digits_value ys"
  by (induction ys rule: rev_induct)
     (simp_all add: digits_value_snoc flip: append_assoc, simp add: digits_value_def)

lemma digit_char: "d < 10 \<Longrightarrow> is_digit (char_of (48 + d)) \<and> digit_value (char_of (48 + d)) = d"
  by (simp add: is_digit_def digit_value_def)

lemma show_nat_digits: "list_all is_digit (show_nat n) \<and> show_nat n \<noteq> [] \<and> digits_value (show_nat n) = n"
proof (induction n rule: show_nat.induct)
  case (1 n)
  show ?case
  proof (cases "n < 10")
    case True
    then show ?thesis using digit_char [OF True] by (subst (1 2 3) show_nat.simps) (simp add: digits_value_def)
  next
    case False
    then show ?thesis
      using 1 digit_char [of "n mod 10"] by (subst (1 2 3) show_nat.simps) (simp add: digits_value_snoc)
  qed
qed

text \<open>Where a token ends: at white space or at the end of the file.\<close>

definition ended :: "string \<Rightarrow> bool" where
  "ended r \<longleftrightarrow> r = [] \<or> is_space (hd r)"

lemma ended_Cons [simp]: "ended (c # r) \<longleftrightarrow> is_space c"
  by (simp add: ended_def)

lemma is_space_chars [simp]: "is_space (CHR '' '')" "is_space (CHR 0x0A)"
  by (simp_all add: is_space_def)

lemma digit_not_space: "is_digit c \<Longrightarrow> \<not> is_space c \<and> c \<noteq> CHR ''-'' \<and> c \<noteq> CHR ''+''"
  by (auto simp: is_digit_def is_space_def)

lemma space_not_digit: "is_space c \<Longrightarrow> \<not> is_digit c \<and> c \<noteq> CHR ''e'' \<and> c \<noteq> CHR ''E'' \<and> c \<noteq> CHR ''.''"
  by (auto simp: is_digit_def is_space_def)

lemma takeWhile_digits:
  "list_all is_digit ds \<Longrightarrow> r = [] \<or> \<not> is_digit (hd r) \<Longrightarrow>
   takeWhile is_digit (ds @ r) = ds \<and> dropWhile is_digit (ds @ r) = r"
  by (induction ds) (cases r; auto)+

lemma ended_digits: "ended r \<Longrightarrow> r = [] \<or> \<not> is_digit (hd r)"
  by (auto simp: ended_def space_not_digit)

lemma read_sign_digit: "is_digit c \<Longrightarrow> read_sign (c # r) = (False, c # r)"
  using digit_not_space [of c] by (simp add: read_sign_def)

lemma scan_int_digits:
  assumes "list_all is_digit ds" and "ds \<noteq> []" and "ended r"
  shows "scan_int (ds @ r) = (False, ds, r)"
proof -
  obtain c cs where ds: "ds = c # cs" using assms(2) by (cases ds) auto
  then have "read_sign (ds @ r) = (False, ds @ r)" using assms(1) read_sign_digit by simp
  then show ?thesis using takeWhile_digits [OF assms(1) ended_digits [OF assms(3)]] by (simp add: scan_int_def)
qed

lemma scan_show_nat: "scan_int (dropWhile is_space (show_nat n)) = (False, show_nat n, [])"
proof -
  note d = show_nat_digits [of n]
  obtain c cs where c: "show_nat n = c # cs" using d by (cases "show_nat n") auto
  have "dropWhile is_space (show_nat n) = show_nat n"
    using d digit_not_space [of c] by (simp add: c)
  then show ?thesis using d scan_int_digits [of "show_nat n" "[]"] by (simp add: ended_def)
qed

lemma scan_double_stop:
  assumes "list_all is_digit (snd d)" and "r = [] \<or> \<not> is_digit (hd r) \<and> hd r \<noteq> CHR ''e'' \<and> hd r \<noteq> CHR ''E''"
  shows "scan_double (show_decimal d @ r) = (Some (decimal_value d), r)"
proof -
  let ?w = "show_nat (fst d)"
  note w = show_nat_digits [of "fst d"]
  obtain c cs where c: "?w = c # cs" using w by (cases ?w) auto
  have sign: "read_sign (show_decimal d @ r) = (False, ?w @ CHR ''.'' # snd d @ r)"
    using w read_sign_digit [of c] by (simp add: show_decimal_def c)
  have dot: "\<not> is_digit (CHR ''.'')" by (simp add: is_digit_def)
  have whole: "takeWhile is_digit (?w @ CHR ''.'' # snd d @ r) = ?w"
      "dropWhile is_digit (?w @ CHR ''.'' # snd d @ r) = CHR ''.'' # snd d @ r"
    using takeWhile_digits [of ?w "CHR ''.'' # snd d @ r"] w dot by simp_all
  have frac: "takeWhile is_digit (snd d @ r) = snd d" "dropWhile is_digit (snd d @ r) = r"
    using takeWhile_digits [OF assms(1)] assms(2) by blast+
  have ex: "scan_exponent r = (Some 0, r)"
    using assms(2) by (cases r) (auto simp: scan_exponent_def)
  have "real (digits_value (?w @ snd d)) / 10 ^ length (snd d) = decimal_value d"
    using w by (simp add: digits_value_append decimal_value_def add_divide_distrib)
  then show ?thesis
    using w by (simp add: scan_double_def sign whole frac ex)
qed

lemma scan_double_decimal:
  assumes "list_all is_digit (snd d)" and "ended r"
  shows "scan_double (show_decimal d @ r) = (Some (decimal_value d), r)"
  using assms space_not_digit by (intro scan_double_stop) (auto simp: ended_def)

text \<open>One field after one separator.\<close>

lemma sentry_field:
  "is_space b \<Longrightarrow> t \<noteq> [] \<Longrightarrow> \<not> is_space (hd t) \<Longrightarrow>
   sentry \<lparr>in_rest = b # t @ r, in_fail = False\<rparr> = Some \<lparr>in_rest = t @ r, in_fail = False\<rparr>"
  by (cases t) (auto simp: sentry_def)

lemma digits_field: "list_all is_digit t \<Longrightarrow> t \<noteq> [] \<Longrightarrow> \<not> is_space (hd t)"
  by (cases t) (auto simp: digit_not_space)

lemma show_decimal_field: "show_decimal d \<noteq> [] \<and> \<not> is_space (hd (show_decimal d))"
  using show_nat_digits [of "fst d"] digits_field [of "show_nat (fst d)"] by (simp add: show_decimal_def)

lemma extract_double_field:
  assumes "is_space b" and "list_all is_digit (snd d)" and "ended r"
  shows "extract_double \<lparr>in_rest = b # show_decimal d @ r, in_fail = False\<rparr> =
    (Some (decimal_value d), \<lparr>in_rest = r, in_fail = False\<rparr>)"
  using assms sentry_field [of b "show_decimal d" r] show_decimal_field [of d]
  by (simp add: extract_double_def scan_double_decimal)

lemma extract_size_field:
  assumes "is_space b" and "n < 2 ^ 64" and "ended r"
  shows "extract_size \<lparr>in_rest = b # show_nat n @ r, in_fail = False\<rparr> =
    (Some (word_of_nat n), \<lparr>in_rest = r, in_fail = False\<rparr>)"
  using assms sentry_field [of b "show_nat n" r] show_nat_digits [of n] digits_field [of "show_nat n"]
  by (simp add: extract_size_def scan_int_digits)

lemma takeWhile_word:
  "list_all (\<lambda>c. \<not> is_space c) w \<Longrightarrow> ended r \<Longrightarrow>
   takeWhile (\<lambda>c. \<not> is_space c) (w @ r) = w \<and> dropWhile (\<lambda>c. \<not> is_space c) (w @ r) = r"
  by (induction w) (cases r; auto)+

lemma extract_word_field:
  assumes "is_space b" and "list_all (\<lambda>c. \<not> is_space c) w" and "w \<noteq> []" and "ended r"
  shows "extract_word \<lparr>in_rest = b # w @ r, in_fail = False\<rparr> = (Some w, \<lparr>in_rest = r, in_fail = False\<rparr>)"
proof -
  have "\<not> is_space (hd w)" using assms(2,3) by (cases w) auto
  then show ?thesis using assms sentry_field [of b w r] takeWhile_word [of w r] by (simp add: extract_word_def)
qed

definition line_vars :: "client_line \<Rightarrow> config_vars" where
  "line_vars l = \<lparr>v_client_name = Some (cl_name l), v_gpu_min_fraction = Some (decimal_value (cl_min l)),
     v_gpu_max_fraction = Some (decimal_value (cl_max l)), v_gpu_memory_size = Some (word_of_nat (cl_mem l))\<rparr>"

lemma read_line_show:
  assumes "wf_line l" and "ended r"
  shows "read_line \<lparr>in_rest = show_line l @ r, in_fail = False\<rparr> v = Inr (line_vars l, \<lparr>in_rest = r, in_fail = False\<rparr>)"
  using assms
  by (simp add: read_line_def show_line_def wf_line_def extract_word_field extract_double_field extract_size_field
      line_vars_def store_def)

lemma register_client_line:
  "register_client cfg (line_vars l) m = Inr (m(cl_name l \<mapsto> client_of cfg l))"
  by (simp add: register_client_def line_vars_def client_of_def)

text \<open>Past the last line every extraction fails and the variables keep their values.\<close>

definition exhausted :: "istream \<Rightarrow> bool" where
  "exhausted st \<longleftrightarrow> in_fail st \<or> list_all is_space (in_rest st)"

lemma sentry_exhausted: "exhausted st \<Longrightarrow> sentry st = None \<and> exhausted (failed st)"
  by (auto simp: exhausted_def sentry_def failed_def list_all_iff dropWhile_eq_Nil_conv)

lemma read_line_exhausted:
  "exhausted fin \<Longrightarrow> \<exists>fin'. read_line fin v = Inr (v, fin') \<and> exhausted fin'"
  by (simp add: read_line_def extract_word_def extract_double_def extract_size_def sentry_exhausted store_def)

lemma config_loop_exhausted:
  "exhausted fin \<Longrightarrow> m (cl_name l) = Some (client_of cfg l) \<Longrightarrow> config_loop cfg n fin (line_vars l) m = Inr m"
proof (induction n arbitrary: fin)
  case 0
  then show ?case by simp
next
  case (Suc n)
  obtain fin' where "read_line fin (line_vars l) = Inr (line_vars l, fin')" "exhausted fin'"
    using read_line_exhausted Suc.prems(1) by blast
  then show ?case using Suc by (simp add: register_client_line fun_upd_idem)
qed

lemma ended_lines: "ended (concat (map show_line ls) @ [CHR 0x0A])"
  by (cases ls) (simp_all add: show_line_def)

text \<open>The loop after some line has been read (\<open>l\<close>), with the lines \<open>ls\<close> still to come.\<close>

lemma config_loop_lines:
  assumes "\<forall>x\<in>set ls. wf_line x" and "m (cl_name l) = Some (client_of cfg l)"
  shows "config_loop cfg n \<lparr>in_rest = concat (map show_line ls) @ [CHR 0x0A], in_fail = False\<rparr> (line_vars l) m =
    Inr (register_lines cfg (take n ls) m)"
  using assms
proof (induction ls arbitrary: n m l)
  case Nil
  then show ?case
    using config_loop_exhausted [of "\<lparr>in_rest = [CHR 0x0A], in_fail = False\<rparr>" m l cfg n]
    by (simp add: exhausted_def register_lines_def)
next
  case (Cons x ls)
  show ?case
  proof (cases n)
    case 0
    then show ?thesis by (simp add: register_lines_def)
  next
    case (Suc k)
    then show ?thesis
      using Cons read_line_show [OF _ ended_lines, of x ls]
      by (simp add: register_client_line) (simp add: register_lines_def)
  qed
qed

lemma extract_int_count:
  assumes "n < 2 ^ 31" and "ended r"
  shows "extract_int \<lparr>in_rest = show_nat n @ r, in_fail = False\<rparr> = (Some (int n), \<lparr>in_rest = r, in_fail = False\<rparr>)"
proof -
  have "sentry \<lparr>in_rest = show_nat n @ r, in_fail = False\<rparr> = Some \<lparr>in_rest = show_nat n @ r, in_fail = False\<rparr>"
    using show_nat_digits [of n] digits_field [of "show_nat n"] by (cases "show_nat n") (auto simp: sentry_def)
  then show ?thesis using assms show_nat_digits [of n] by (simp add: extract_int_def scan_int_digits)
qed

lemma read_config_shown:
  assumes "\<forall>l\<in>set ls. wf_line l" and "n < 2 ^ 31" and "ls \<noteq> [] \<or> n = 0"
  shows "read_config_text cfg (show_config n ls) m = Inr (register_lines cfg (take n ls) m)"
proof -
  have count: "extract_int \<lparr>in_rest = show_config n ls, in_fail = False\<rparr> =
      (Some (int n), \<lparr>in_rest = concat (map show_line ls) @ [CHR 0x0A], in_fail = False\<rparr>)"
    unfolding show_config_def using assms(2) ended_lines by (rule extract_int_count)
  show ?thesis
  proof (cases "n = 0")
    case True
    then show ?thesis using count by (simp add: read_config_text_def register_lines_def)
  next
    case False
    then obtain k where k: "n = Suc k" by (cases n) auto
    obtain l ls' where ls: "ls = l # ls'" using assms(3) False by (cases ls) auto
    have "wf_line l" "\<forall>x\<in>set ls'. wf_line x" using assms(1) by (simp_all add: ls)
    moreover have "read_config_text cfg (show_config n ls) m =
        config_loop cfg n \<lparr>in_rest = concat (map show_line ls) @ [CHR 0x0A], in_fail = False\<rparr> no_vars m"
      by (simp add: read_config_text_def count)
    ultimately show ?thesis
      using config_loop_lines [of ls' "m(cl_name l \<mapsto> client_of cfg l)" l cfg k] ended_lines [of ls']
      by (simp add: k ls read_line_show register_client_line) (simp add: register_lines_def)
  qed
qed

section \<open>The client map\<close>

text \<open>Every entry is the object created for its key, with the quota bounds of the configuration.\<close>

definition named_clients :: "(string \<rightharpoonup> ClientInfo) \<Rightarrow> bool" where
  "named_clients m \<longleftrightarrow> (\<forall>n c. m n = Some c \<longrightarrow> c_name c = n)"

lemma named_clientsD: "named_clients m \<Longrightarrow> m n = Some c \<Longrightarrow> c_name c = n"
  by (simp add: named_clients_def)

lemma named_clients_upd: "named_clients m \<Longrightarrow> c_name c = n \<Longrightarrow> named_clients (m(n \<mapsto> c))"
  by (simp add: named_clients_def)

lemma register_client_keeps:
  assumes "register_client cfg v m = Inr m'"
  shows "dom m \<subseteq> dom m'" and "named_clients m \<Longrightarrow> named_clients m'"
  using assms by (auto simp: register_client_def configured_client_def split: option.splits intro!: named_clients_upd)

lemma config_loop_keeps:
  assumes "config_loop cfg n fin v m = Inr m'"
  shows "dom m \<subseteq> dom m' \<and> (named_clients m \<longrightarrow> named_clients m')"
  using assms
proof (induction n arbitrary: fin v m)
  case 0
  then show ?case by simp
next
  case (Suc n)
  then obtain v1 fin1 m1 where "read_line fin v = Inr (v1, fin1)" "register_client cfg v1 m = Inr m1"
      "config_loop cfg n fin1 v1 m1 = Inr m'"
    by (auto split: sum.splits prod.splits)
  then show ?case using Suc.IH register_client_keeps by blast
qed

lemma read_resource_config_keeps:
  assumes "read_resource_config files dir fname cfg m = Inr m'"
  shows "dom m \<subseteq> dom m' \<and> (named_clients m \<longrightarrow> named_clients m')"
  using assms config_loop_keeps
  by (auto simp: read_resource_config_def read_config_text_def split: option.splits prod.splits)

lemma handle_events_keeps:
  "handle_events files dir fname cfg evs m = Inr m' \<Longrightarrow> dom m \<subseteq> dom m' \<and> (named_clients m \<longrightarrow> named_clients m')"
proof (induction evs arbitrary: m)
  case Nil
  then show ?case by simp
next
  case (Cons ev evs)
  then show ?case
    using read_resource_config_keeps [of files dir fname cfg m] by (fastforce split: if_splits sum.splits)
qed

section \<open>Properties\<close>

text \<open>Reading a configuration file in the documented format registers exactly the clients it
  lists, in order and with their fractions, quota bounds and memory limits: the first \<^verbatim>\<open>N\<close> lines
  when there are more than the announced number \<^verbatim>\<open>N\<close>, and all lines when there are fewer
  (the failed reads register the last client again, which changes nothing).\<close>

lemma config_roundtrip:
  assumes "config_path dir fname = Some p" and "files p = Some (show_config n ls)"
    and "\<forall>l\<in>set ls. wf_line l" and "n < 2 ^ 31" and "ls \<noteq> [] \<or> n = 0"
  shows "read_resource_config files dir fname cfg clients = Inr (register_lines cfg (take n ls) clients)"
  using assms by (simp add: read_resource_config_def read_config_shown)

definition sample_line :: client_line where
  "sample_line = \<lparr>cl_name = ''client1'', cl_min = (0, ''5''), cl_max = (0, ''8''), cl_mem = 327374182400\<rparr>"

text \<open>Whatever the files contain, handling file events that succeeds removes no client, and
  every client stays registered under its own name.\<close>

lemma config_events_keep_clients:
  assumes "handle_events files dir fname cfg evs clients = Inr clients'" and "named_clients clients"
  shows "dom clients \<subseteq> dom clients' \<and> named_clients clients'"
  using handle_events_keeps [OF assms(1)] assms(2) by blast

end
