(* ===== verification/Gem_Sched.thy ===== *)
theory Gem_Sched
  imports Gem_Comm Gem_Double Gem_Predictor Gem_Config
begin

text \<open>
  The scheduler process, \<^verbatim>\<open>src/src/scheduler.cpp\<close>: \<^verbatim>\<open>handle_message\<close>, the connection threads
  \<^verbatim>\<open>pod_client_func\<close>, the daemon thread \<^verbatim>\<open>schedule_daemon_func\<close> and the thread of \<^verbatim>\<open>monitor_file\<close>
  as one step relation on the shared state.

  \<^item> A step is what a thread does between two points where another thread can observe it: the
    daemon's critical sections under \<^verbatim>\<open>candidate_mutex\<close>, the unlocked part of \<^verbatim>\<open>handle_message\<close>
    (it ends before the lock is taken for the push), the push itself, the sending of a quota.
    The unlocked accesses to \<^verbatim>\<open>history_list\<close> and \<^verbatim>\<open>client_info_map\<close> are data races in C++; the model
    interleaves them as whole steps. What a reload that deletes a client does between the lines of \<^verbatim>\<open>handle_message\<close> is
    in \<open>Gem_Reload\<close>.
  \<^item> \<^verbatim>\<open>pthread_cond_signal\<close> sets \<open>signalled\<close> if the daemon waits; a wait may also end spuriously,
    and a timed wait ends when the clock has passed its time.
  \<^item> The steady clock and \<^verbatim>\<open>CLOCK_MONOTONIC\<close> are one clock in nanoseconds, an unbounded integer.
  \<^item> \<open>sent\<close> is what went out on the sockets; \<^verbatim>\<open>send\<close> never fails here, and the signal \<^verbatim>\<open>SIGPIPE\<close> it may
    raise on the connection of a pod manager that has gone is not modelled. \<open>s_log\<close> is a ghost variable with the accepted requests
    and the grants, newest first.
  \<^item> The doubles in a message are finite numbers.
\<close>

section \<open>get_timespec_after\<close>

record timespec =
  tv_sec :: int
  tv_nsec :: int

text \<open>The conversion of a double to an integer type truncates.\<close>

definition c_long :: "double \<Rightarrow> int" where
  "c_long x = (if 0 \<le> x then \<lfloor>x\<rfloor> else \<lceil>x\<rceil>)"

definition clock_gettime :: "timepoint \<Rightarrow> timespec" where
  "clock_gettime t = \<lparr>tv_sec = t div 1000000000, tv_nsec = t mod 1000000000\<rparr>"

definition get_timespec_after :: "double \<Rightarrow> timepoint \<Rightarrow> timespec" where
  "get_timespec_after ms t =
     (let ts = clock_gettime t;
          sec = ms / 1000;
          ts = ts\<lparr>tv_sec := c_long (real_of_int (tv_sec ts) + real_of_int \<lfloor>sec\<rfloor>)\<rparr>;
          ts = ts\<lparr>tv_nsec := c_long (real_of_int (tv_nsec ts) + (sec - real_of_int \<lfloor>sec\<rfloor>) * 1000000000)\<rparr>;
          ts = ts\<lparr>tv_sec := tv_sec ts + tv_nsec ts sdiv 1000000000\<rparr>
      in ts\<lparr>tv_nsec := tv_nsec ts smod 1000000000\<rparr>)"

definition ts_ns :: "timespec \<Rightarrow> timepoint" where
  "ts_ns ts = tv_sec ts * 1000000000 + tv_nsec ts"

section \<open>The shared state\<close>

datatype daemon_pc =
    DTop
  | DWait
  | DSleep timespec
  | DSend candidate_t double
  | DRelock candidate_t timespec
  | DHold candidate_t timespec

datatype conn_pc = NoConn | Receiving "byte list" | Pushing "byte list" string int32

datatype event = Arrived candidate_t | Granted candidate_t double timepoint

record sched_state =
  s_cfg :: sched_config
  s_start :: timepoint
  s_clock :: timepoint
  client_info_map :: "string \<rightharpoonup> ClientInfo"
  history_list :: "History list"
  candidates :: "candidate_t list"
  daemon :: daemon_pc
  signalled :: bool
  conns :: "sockfd \<Rightarrow> conn_pc"
  sent :: "(sockfd \<times> byte list) list"
  crashed :: "sched_error option"
  s_log :: "event list"

definition ms_since_start :: "sched_state \<Rightarrow> double" where
  "ms_since_start s = ms_of (s_clock s - s_start s)"

fun waiting_pc :: "daemon_pc \<Rightarrow> bool" where
  "waiting_pc DWait = True"
| "waiting_pc (DSleep _) = True"
| "waiting_pc (DHold _ _) = True"
| "waiting_pc _ = False"

section \<open>handle_message\<close>

text \<open>The handler up to the lock. The second result is the request to push, if there is one;
  \<open>None\<close> is an access outside the message.\<close>

definition handle_unlocked ::
  "sockfd \<Rightarrow> byte list \<Rightarrow> sched_state \<Rightarrow> (sched_state \<times> (string \<times> int32) option) option" where
  "handle_unlocked client_sock message s = do {
     pr \<leftarrow> parse_request message;
     name \<leftarrow> c_string message (pr_name pr);
     let attached = attached_data message (pr_attached pr);
     let sbuf = replicate RSP_MSG_LEN 0;
     (case client_info_map s name of
        None \<Rightarrow> Some (s, None)
      | Some client_inf \<Rightarrow>
          if pr_type pr = REQ_QUOTA then do {
            (overuse, offset) \<leftarrow> get_msg_data 8 word64 attached 0;
            (burst, offset) \<leftarrow> get_msg_data 8 word64 attached offset;
            let (client_inf, hist) =
              update_return_time (ms_since_start s) (double_of_bits overuse) client_inf (history_list s);
            let client_inf = set_burst (double_of_bits burst) client_inf;
            Some (s\<lparr>client_info_map := (client_info_map s)(name \<mapsto> client_inf), history_list := hist\<rparr>,
                  Some (name, pr_id pr))
          }
          else if pr_type pr = REQ_MEM_LIMIT then do {
            (sbuf, pos) \<leftarrow> prepare_response sbuf REQ_MEM_LIMIT (pr_id pr) [ASize 0, ASize (gpu_mem_limit client_inf)];
            Some (s\<lparr>sent := sent s @ [(client_sock, sbuf)]\<rparr>, None)
          }
          else if pr_type pr = REQ_MEM_UPDATE then do {
            (sbuf, pos) \<leftarrow> prepare_response sbuf REQ_MEM_UPDATE (pr_id pr) [AInt 1];
            Some (s\<lparr>sent := sent s @ [(client_sock, sbuf)]\<rparr>, None)
          }
          else Some (s, None))
   }"

definition push_candidate :: "sockfd \<Rightarrow> string \<Rightarrow> int32 \<Rightarrow> sched_state \<Rightarrow> sched_state" where
  "push_candidate client_sock name req_id s =
     (let c = \<lparr>cand_socket = client_sock, cand_name = name, cand_req_id = req_id,
               cand_arrived_time = ms_since_start s\<rparr>
      in s\<lparr>candidates := candidates s @ [c], signalled := signalled s \<or> waiting_pc (daemon s),
           s_log := Arrived c # s_log s\<rparr>)"

definition handle_message :: "sockfd \<Rightarrow> byte list \<Rightarrow> sched_state \<Rightarrow> sched_state option" where
  "handle_message client_sock message s = do {
     (s, push) \<leftarrow> handle_unlocked client_sock message s;
     (case push of
        None \<Rightarrow> Some s
      | Some (name, req_id) \<Rightarrow> Some (push_candidate client_sock name req_id s))
   }"

section \<open>schedule_daemon_func\<close>

text \<open>One turn of \<^verbatim>\<open>select_candidate\<close> and, when it returns a candidate, the rest of the critical
  section: the quota is computed and recorded.\<close>

definition select_turn :: "sched_state \<Rightarrow> sched_error + sched_state" where
  "select_turn s =
     (case select_once (s_cfg s) (client_info_map s) (ms_since_start s) (history_list s) (candidates s) of
        Inl e \<Rightarrow> Inl e
      | Inr (hist, SleepFor d) \<Rightarrow>
          Inr (s\<lparr>history_list := hist, daemon := DSleep (get_timespec_after d (s_clock s)), signalled := False\<rparr>)
      | Inr (hist, Grant selected rest) \<Rightarrow>
          (case client_info_map s (cand_name selected) of
             None \<Rightarrow> Inl NullClient
           | Some client_inf \<Rightarrow>
               let (q, client_inf) = get_quota client_inf
               in Inr (s\<lparr>client_info_map := (client_info_map s)(cand_name selected \<mapsto> client_inf),
                         history_list := Record (ms_since_start s) q client_inf hist,
                         candidates := rest, daemon := DSend selected q,
                         s_log := Granted selected q (s_clock s) # s_log s\<rparr>)))"

definition daemon_lock :: "sched_state \<Rightarrow> sched_error + sched_state" where
  "daemon_lock s =
     (if candidates s \<noteq> [] then select_turn s else Inr (s\<lparr>daemon := DWait, signalled := False\<rparr>))"

definition daemon_send :: "candidate_t \<Rightarrow> double \<Rightarrow> sched_state \<Rightarrow> sched_error + sched_state" where
  "daemon_send selected q s =
     (case prepare_response (replicate RSP_MSG_LEN 0) REQ_QUOTA (cand_req_id selected) [ADouble (bits_of_double q)] of
        None \<Rightarrow> Inl MessageBounds
      | Some (sbuf, pos) \<Rightarrow>
          Inr (s\<lparr>sent := sent s @ [(cand_socket selected, sbuf)],
                 daemon := DRelock selected (get_timespec_after q (s_clock s))\<rparr>))"

definition daemon_check :: "candidate_t \<Rightarrow> sched_state \<Rightarrow> sched_state" where
  "daemon_check selected s =
     (if list_ex (\<lambda>conn. cand_name conn = cand_name selected) (candidates s)
      then s\<lparr>daemon := DTop, signalled := False\<rparr> else s\<lparr>signalled := False\<rparr>)"

text \<open>The moves of the daemon thread: it runs on, its wait returns (signal or spurious), or its
  timed wait returns \<^verbatim>\<open>ETIMEDOUT\<close>. \<open>None\<close>: the move is not possible here.\<close>

datatype daemon_move = Proceed | Wake | Timeout

definition daemon_step :: "daemon_move \<Rightarrow> sched_state \<Rightarrow> (sched_error + sched_state) option" where
  "daemon_step mv s = (case daemon s of
     DTop \<Rightarrow> if mv = Proceed then Some (daemon_lock s) else None
   | DWait \<Rightarrow> if mv = Wake then Some (Inr (s\<lparr>daemon := DTop, signalled := False\<rparr>)) else None
   | DSleep ts \<Rightarrow> if mv = Wake \<or> mv = Timeout \<and> ts_ns ts \<le> s_clock s then Some (select_turn s) else None
   | DSend selected q \<Rightarrow> if mv = Proceed then Some (daemon_send selected q s) else None
   | DRelock selected ts \<Rightarrow>
       if mv = Proceed then Some (Inr (s\<lparr>daemon := DHold selected ts, signalled := False\<rparr>)) else None
   | DHold selected ts \<Rightarrow>
       if mv = Wake then Some (Inr (daemon_check selected s))
       else if mv = Timeout \<and> ts_ns ts \<le> s_clock s
       then Some (Inr (s\<lparr>daemon := DTop, signalled := False\<rparr>))
       else None)"

section \<open>The process\<close>

definition sched_init :: "sched_state \<Rightarrow> bool" where
  "sched_init s \<longleftrightarrow> named_clients (client_info_map s) \<and> s_clock s = s_start s \<and> history_list s = []
     \<and> candidates s = [] \<and> daemon s = DTop \<and> \<not> signalled s \<and> conns s = (\<lambda>_. NoConn) \<and> sent s = []
     \<and> crashed s = None \<and> s_log s = []"

inductive sched_step :: "sched_state \<Rightarrow> sched_state \<Rightarrow> bool" where
  tick: "crashed s = None \<Longrightarrow> s_clock s \<le> t \<Longrightarrow> sched_step s (s\<lparr>s_clock := t\<rparr>)"
| accept: "crashed s = None \<Longrightarrow> conns s sock = NoConn \<Longrightarrow> length buf = REQ_MSG_LEN \<Longrightarrow>
    sched_step s (s\<lparr>conns := (conns s)(sock := Receiving buf)\<rparr>)"
| recv: "crashed s = None \<Longrightarrow> conns s sock = Receiving buf \<Longrightarrow> data \<noteq> [] \<Longrightarrow> length data \<le> REQ_MSG_LEN \<Longrightarrow>
    rbuf = data @ drop (length data) buf \<Longrightarrow> handle_unlocked sock rbuf s = Some (s', push) \<Longrightarrow>
    sched_step s (s'\<lparr>conns := (conns s')(sock :=
      (case push of None \<Rightarrow> Receiving rbuf | Some (name, req_id) \<Rightarrow> Pushing rbuf name req_id))\<rparr>)"
| recv_bad: "crashed s = None \<Longrightarrow> conns s sock = Receiving buf \<Longrightarrow> data \<noteq> [] \<Longrightarrow> length data \<le> REQ_MSG_LEN \<Longrightarrow>
    handle_unlocked sock (data @ drop (length data) buf) s = None \<Longrightarrow>
    sched_step s (s\<lparr>crashed := Some MessageBounds\<rparr>)"
| push: "crashed s = None \<Longrightarrow> conns s sock = Pushing rbuf name req_id \<Longrightarrow>
    sched_step s ((push_candidate sock name req_id s)\<lparr>conns := (conns s)(sock := Receiving rbuf)\<rparr>)"
| disconnect: "crashed s = None \<Longrightarrow> conns s sock = Receiving buf \<Longrightarrow>
    sched_step s (s\<lparr>conns := (conns s)(sock := NoConn)\<rparr>)"
| reload: "crashed s = None \<Longrightarrow> handle_events files dir fname (s_cfg s) evs (client_info_map s) = Inr m \<Longrightarrow>
    sched_step s (s\<lparr>client_info_map := m\<rparr>)"
| daemon_ok: "crashed s = None \<Longrightarrow> daemon_step mv s = Some (Inr t) \<Longrightarrow> sched_step s t"
| daemon_fault: "crashed s = None \<Longrightarrow> daemon_step mv s = Some (Inl e) \<Longrightarrow>
    sched_step s (s\<lparr>crashed := Some e\<rparr>)"

section \<open>Deadlines\<close>

lemma c_long_add: "0 \<le> n \<Longrightarrow> 0 \<le> x \<Longrightarrow> c_long (real_of_int n + x) = n + \<lfloor>x\<rfloor>"
  by (simp add: c_long_def)

lemma c_long_int [simp]: "c_long (real_of_int n) = n"
  by (simp add: c_long_def)

lemma c_long_int_add [simp]: "c_long (real_of_int n + real_of_int m) = n + m"
  using c_long_int [of "n + m"] by (simp del: c_long_int)

lemma smod_nonneg: "0 \<le> (a::int) \<Longrightarrow> 0 < b \<Longrightarrow> a smod b = a mod b"
  by (simp add: signed_modulo_int_def abs_of_nonneg sgn_if)

lemma get_timespec_after_ns:
  "ts_ns (get_timespec_after ms t) = t + \<lfloor>ms * 1000000\<rfloor>
   \<and> 0 \<le> tv_nsec (get_timespec_after ms t) \<and> tv_nsec (get_timespec_after ms t) < 1000000000"
proof -
  define sec where "sec = ms / 1000"
  define k where "k = \<lfloor>(sec - real_of_int \<lfloor>sec\<rfloor>) * 1000000000\<rfloor>"
  let ?n = "t mod 1000000000 + k"
  have k: "0 \<le> k" unfolding k_def by simp
  then have n: "0 \<le> ?n" by simp
  have "c_long (real_of_int (t mod 1000000000) + (sec - real_of_int \<lfloor>sec\<rfloor>) * 1000000000) = ?n"
    unfolding k_def by (rule c_long_add) simp_all
  then have ts: "get_timespec_after ms t =
      \<lparr>tv_sec = t div 1000000000 + \<lfloor>sec\<rfloor> + ?n div 1000000000, tv_nsec = ?n mod 1000000000\<rparr>"
    using n by (simp add: get_timespec_after_def clock_gettime_def Let_def sec_def [symmetric] sdiv_nonneg smod_nonneg)
  have "ms * 1000000 = (sec - real_of_int \<lfloor>sec\<rfloor>) * 1000000000 + real_of_int (\<lfloor>sec\<rfloor> * 1000000000)"
    by (simp add: sec_def algebra_simps)
  then have "\<lfloor>ms * 1000000\<rfloor> = k + \<lfloor>sec\<rfloor> * 1000000000"
    unfolding k_def by (simp only: floor_add_int)
  then show ?thesis
    using mult_div_mod_eq [of 1000000000 ?n] mult_div_mod_eq [of 1000000000 t]
    by (simp add: ts ts_ns_def algebra_simps)
qed

section \<open>The client and candidate invariant\<close>

definition sched_inv :: "sched_state \<Rightarrow> bool" where
  "sched_inv s \<longleftrightarrow> named_clients (client_info_map s)
     \<and> (\<forall>c\<in>set (candidates s). client_info_map s (cand_name c) \<noteq> None)
     \<and> (\<forall>sock buf n r. conns s sock = Pushing buf n r \<longrightarrow> client_info_map s n \<noteq> None)
     \<and> (\<forall>ts. daemon s = DSleep ts \<longrightarrow> candidates s \<noteq> [])
     \<and> (daemon s = DWait \<and> \<not> signalled s \<longrightarrow> candidates s = [])
     \<and> crashed s \<in> {None, Some MessageBounds}"

lemma sched_invD:
  assumes "sched_inv s"
  shows "named_clients (client_info_map s)"
    and "\<forall>c\<in>set (candidates s). client_info_map s (cand_name c) \<noteq> None"
    and "conns s sock = Pushing buf n r \<Longrightarrow> client_info_map s n \<noteq> None"
    and "daemon s = DSleep ts \<Longrightarrow> candidates s \<noteq> []"
    and "crashed s \<in> {None, Some MessageBounds}"
  using assms unfolding sched_inv_def by blast+

text \<open>What the unlocked part of the handler may change.\<close>

lemma handle_unlocked_cases:
  assumes "handle_unlocked sock msg s = Some (s', p)"
  obtains (ignored) "s' = s" "p = None"
  | (answered) buf where "s' = s\<lparr>sent := sent s @ [(sock, buf)]\<rparr>" "p = None" "length buf = RSP_MSG_LEN"
  | (quota) name rid overuse c b hist where "client_info_map s name \<noteq> None"
      "update_return_time (ms_since_start s) overuse (the (client_info_map s name)) (history_list s) = (c, hist)"
      "s' = s\<lparr>client_info_map := (client_info_map s)(name \<mapsto> set_burst b c), history_list := hist\<rparr>"
      "p = Some (name, rid)"
proof -
  obtain pr name where pr: "parse_request msg = Some pr" "c_string msg (pr_name pr) = Some name"
    using assms by (auto simp: handle_unlocked_def bind_eq_Some_conv)
  show ?thesis
  proof (cases "client_info_map s name")
    case None
    then show ?thesis using assms pr ignored by (simp add: handle_unlocked_def)
  next
    case (Some c)
    consider "pr_type pr = REQ_QUOTA" | "pr_type pr = REQ_MEM_LIMIT" | "pr_type pr = REQ_MEM_UPDATE"
      | w where "pr_type pr = REQ_UNKNOWN w" by (cases "pr_type pr") auto
    then show ?thesis
    proof cases
      case 1
      then obtain overuse b c' hist where
          upd: "update_return_time (ms_since_start s) overuse c (history_list s) = (c', hist)"
        and res: "s' = s\<lparr>client_info_map := (client_info_map s)(name \<mapsto> set_burst b c'), history_list := hist\<rparr>"
          "p = Some (name, pr_id pr)"
        using assms pr Some
        by (simp add: handle_unlocked_def Let_def bind_eq_Some_conv case_prod_unfold) (metis prod.collapse)
      show ?thesis by (rule quota [OF _ _ res]) (use Some upd in auto)
    next
      case 2
      then show ?thesis using assms pr Some answered
        by (auto simp: handle_unlocked_def bind_eq_Some_conv dest!: prepare_response_length)
    next
      case 3
      then show ?thesis using assms pr Some answered
        by (auto simp: handle_unlocked_def bind_eq_Some_conv dest!: prepare_response_length)
    next
      case 4
      then show ?thesis using assms pr Some ignored by (simp add: handle_unlocked_def)
    qed
  qed
qed

lemma handle_unlocked_frame:
  assumes "handle_unlocked sock msg s = Some (s', p)"
  shows "candidates s' = candidates s" "daemon s' = daemon s" "signalled s' = signalled s"
    "conns s' = conns s" "crashed s' = crashed s" "s_log s' = s_log s"
    "s_clock s' = s_clock s" "s_start s' = s_start s" "s_cfg s' = s_cfg s"
  by (rule handle_unlocked_cases [OF assms]; simp)+

lemma handle_unlocked_clients:
  assumes "handle_unlocked sock msg s = Some (s', p)"
  shows "client_info_map s' n = None \<longleftrightarrow> client_info_map s n = None"
    and "named_clients (client_info_map s) \<Longrightarrow> named_clients (client_info_map s')"
    and "p = Some (n, r) \<Longrightarrow> client_info_map s n \<noteq> None"
proof -
  show "client_info_map s' n = None \<longleftrightarrow> client_info_map s n = None"
    by (rule handle_unlocked_cases [OF assms]) auto
  show "p = Some (n, r) \<Longrightarrow> client_info_map s n \<noteq> None"
    by (rule handle_unlocked_cases [OF assms]) auto
  assume named: "named_clients (client_info_map s)"
  show "named_clients (client_info_map s')"
  proof (rule handle_unlocked_cases [OF assms])
    fix name rid overuse c b hist
    assume known: "client_info_map s name \<noteq> None"
      and upd: "update_return_time (ms_since_start s) overuse (the (client_info_map s name)) (history_list s) = (c, hist)"
      and s': "s' = s\<lparr>client_info_map := (client_info_map s)(name \<mapsto> set_burst b c), history_list := hist\<rparr>"
    have "c_name c = c_name (the (client_info_map s name))"
      using update_return_time_client(1) upd by (metis fst_conv)
    then show ?thesis
      using named known by (auto simp: s' set_burst_def named_clientsD intro!: named_clients_upd)
  qed (use named in auto)
qed

text \<open>A turn of the selection on known clients: it goes to sleep, or grants one candidate.\<close>

lemma select_turn_cases [consumes 2, case_names to_sleep to_grant]:
  assumes "candidates s \<noteq> []" and known: "\<forall>c\<in>set (candidates s). client_info_map s (cand_name c) \<noteq> None"
  obtains (to_sleep) hist d where "select_turn s = Inr (s\<lparr>history_list := hist,
        daemon := DSleep (get_timespec_after d (s_clock s)), signalled := False\<rparr>)"
  | (to_grant) hist c rest ci q ci' where "mset (candidates s) = add_mset c (mset rest)"
      "client_info_map s (cand_name c) = Some ci" "get_quota ci = (q, ci')"
      "select_turn s = Inr (s\<lparr>client_info_map := (client_info_map s)(cand_name c \<mapsto> ci'),
         history_list := Record (ms_since_start s) q ci' hist, candidates := rest, daemon := DSend c q,
         s_log := Granted c q (s_clock s) # s_log s\<rparr>)"
proof -
  obtain hist outcome where sel: "select_once (s_cfg s) (client_info_map s) (ms_since_start s)
      (history_list s) (candidates s) = Inr (hist, outcome)"
    and gr: "\<And>c rest. outcome = Grant c rest \<Longrightarrow> mset (candidates s) = add_mset c (mset rest)"
    using select_outcome_cases [OF assms(1) known] by metis
  show ?thesis
  proof (cases outcome)
    case (SleepFor d)
    then show ?thesis using to_sleep sel by (simp add: select_turn_def)
  next
    case (Grant c rest)
    then have m: "mset (candidates s) = add_mset c (mset rest)" using gr by simp
    then have "c \<in> set (candidates s)" by (metis set_mset_mset union_single_eq_member)
    then obtain ci where ci: "client_info_map s (cand_name c) = Some ci" using known by blast
    obtain q ci' where "get_quota ci = (q, ci')" by fastforce
    then show ?thesis using to_grant [OF m ci, of q ci'] sel Grant ci by (simp add: select_turn_def)
  qed
qed

lemma set_of_grant: "mset xs = add_mset c (mset rest) \<Longrightarrow> c \<in> set xs \<and> set rest \<subseteq> set xs"
  by (metis mset_subset_eq_add_mset_cancel mset_subset_eq_mono_add_right_cancel set_mset_add_mset_insert set_mset_mset insertI1 subset_insertI)

lemma daemon_send_eq:
  "\<exists>buf. daemon_send c q s = Inr (s\<lparr>sent := sent s @ [(cand_socket c, buf)],
     daemon := DRelock c (get_timespec_after q (s_clock s))\<rparr>)
   \<and> prepare_response (replicate RSP_MSG_LEN 0) REQ_QUOTA (cand_req_id c) [ADouble (bits_of_double q)] = Some (buf, 12)"
  using prepare_response_parses [of "replicate RSP_MSG_LEN 0" REQ_QUOTA "[ADouble (bits_of_double q)]" _ "cand_req_id c"]
  by (auto simp: daemon_send_def)

text \<open>The moves of the daemon in a state with known candidates: it never faults.\<close>

lemma daemon_step_cases [consumes 2, case_names block wake sleep grant send relock hold]:
  assumes "daemon_step mv s = Some r" and "sched_inv s"
  obtains (block) "daemon s = DTop" "candidates s = []" "r = Inr (s\<lparr>daemon := DWait, signalled := False\<rparr>)"
  | (wake) "r = Inr (s\<lparr>daemon := DTop, signalled := False\<rparr>)"
      "daemon s = DWait \<or> (\<exists>c ts. daemon s = DHold c ts
         \<and> (ts_ns ts \<le> s_clock s \<or> list_ex (\<lambda>x. cand_name x = cand_name c) (candidates s)))"
  | (sleep) hist d where "daemon s = DTop \<or> (\<exists>ts. daemon s = DSleep ts)" "candidates s \<noteq> []"
      "r = Inr (s\<lparr>history_list := hist, daemon := DSleep (get_timespec_after d (s_clock s)), signalled := False\<rparr>)"
  | (grant) hist c rest ci q ci' where "daemon s = DTop \<or> (\<exists>ts. daemon s = DSleep ts)"
      "mset (candidates s) = add_mset c (mset rest)"
      "client_info_map s (cand_name c) = Some ci" "get_quota ci = (q, ci')"
      "r = Inr (s\<lparr>client_info_map := (client_info_map s)(cand_name c \<mapsto> ci'),
         history_list := Record (ms_since_start s) q ci' hist, candidates := rest, daemon := DSend c q,
         s_log := Granted c q (s_clock s) # s_log s\<rparr>)"
  | (send) c q buf where "daemon s = DSend c q"
      "prepare_response (replicate RSP_MSG_LEN 0) REQ_QUOTA (cand_req_id c) [ADouble (bits_of_double q)] = Some (buf, 12)"
      "r = Inr (s\<lparr>sent := sent s @ [(cand_socket c, buf)],
         daemon := DRelock c (get_timespec_after q (s_clock s))\<rparr>)"
  | (relock) c ts where "daemon s = DRelock c ts" "r = Inr (s\<lparr>daemon := DHold c ts, signalled := False\<rparr>)"
  | (hold) c ts where "daemon s = DHold c ts" "r = Inr (s\<lparr>signalled := False\<rparr>)"
proof -
  have turn: thesis if "daemon s = DTop \<or> (\<exists>ts. daemon s = DSleep ts)" "candidates s \<noteq> []" "r = select_turn s"
  proof -
    show thesis using that(2) sched_invD(2) [OF assms(2)]
    proof (cases rule: select_turn_cases)
      case (to_sleep hist d)
      then show thesis using sleep [OF that(1,2)] that(3) by simp
    next
      case (to_grant hist c rest ci q ci')
      then show thesis using grant [OF that(1)] that(3) by simp
    qed
  qed
  show ?thesis
  proof (cases "daemon s")
    case DTop
    then show ?thesis
      using assms(1) block turn by (cases "candidates s = []") (auto simp: daemon_step_def daemon_lock_def split: if_splits)
  next
    case DWait
    then show ?thesis using assms(1) wake by (auto simp: daemon_step_def split: if_splits)
  next
    case (DSleep ts)
    then show ?thesis using assms turn sched_invD(4) [OF assms(2)] by (auto simp: daemon_step_def split: if_splits)
  next
    case (DSend c q)
    then have "r = daemon_send c q s" using assms(1) by (auto simp: daemon_step_def split: if_splits)
    then show ?thesis using daemon_send_eq [of c q s] send [OF DSend] by metis
  next
    case (DRelock c ts)
    then show ?thesis using assms(1) relock by (auto simp: daemon_step_def split: if_splits)
  next
    case (DHold c ts)
    then show ?thesis using assms(1) hold wake
      by (auto simp: daemon_step_def daemon_check_def split: if_splits)
  qed
qed

lemma sched_init_inv: "sched_init s \<Longrightarrow> sched_inv s"
  by (simp add: sched_init_def sched_inv_def)

lemma push_candidate_inv:
  assumes "sched_inv s" and "conns s sock = Pushing buf n r"
  shows "sched_inv ((push_candidate sock n r s)\<lparr>conns := (conns s)(sock := Receiving buf)\<rparr>)"
  using assms sched_invD(3) [OF assms]
  by (auto simp: sched_inv_def push_candidate_def Let_def split: if_splits)

lemma daemon_step_inv:
  assumes "daemon_step mv s = Some r" and "sched_inv s"
  shows "\<exists>t. r = Inr t \<and> sched_inv t"
  using assms
proof (cases rule: daemon_step_cases)
  case (grant hist c rest ci q ci')
  have "c_name ci' = cand_name c"
    using grant(3,4) sched_invD(1) [OF assms(2)] get_quota_frame(1) [of ci] by (simp add: named_clientsD)
  then show ?thesis
    using grant assms(2) set_of_grant [OF grant(2)]
    by (auto simp: sched_inv_def intro!: named_clients_upd)
qed (use assms(2) in \<open>auto simp: sched_inv_def\<close>)

lemma sched_step_inv: "sched_step s t \<Longrightarrow> sched_inv s \<Longrightarrow> sched_inv t"
proof (induction rule: sched_step.induct)
  case (recv s sock buf data rbuf s' push)
  note frame = handle_unlocked_frame [OF recv(6)] and clients = handle_unlocked_clients [OF recv(6)]
  show ?case
  proof (cases push)
    case None
    then show ?thesis using recv frame clients(1,2) by (auto simp: sched_inv_def simp del: not_None_eq)
  next
    case (Some p)
    then show ?thesis using recv frame clients(1,2) clients(3) [of "fst p" "snd p"]
      by (auto simp: sched_inv_def simp del: not_None_eq split: prod.splits)
  qed
next
  case (push s sock rbuf name req_id)
  then show ?case by (simp add: push_candidate_inv)
next
  case (reload s files dir fname evs m)
  have "client_info_map s n \<noteq> None \<longrightarrow> m n \<noteq> None" for n
    using handle_events_keeps [OF reload(2)] by (auto simp: domIff)
  then show ?case
    using reload handle_events_keeps [OF reload(2)] by (auto simp: sched_inv_def simp del: not_None_eq)
next
  case (daemon_ok s mv t)
  then show ?case using daemon_step_inv by blast
next
  case (daemon_fault s mv e)
  then show ?case using daemon_step_inv by blast
qed (auto simp: sched_inv_def)

section \<open>The log of arrivals and grants\<close>

text \<open>The requests that have arrived and not been granted, the latest grant, and when the log allows
  the next grant at a time \<open>t\<close>: the quota of the latest grant has run out, or its client has come
  back, or the client had another request waiting when it was granted. The log is newest first.\<close>

fun unserved :: "event list \<Rightarrow> candidate_t multiset" where
  "unserved [] = {#}"
| "unserved (Arrived c # l) = add_mset c (unserved l)"
| "unserved (Granted c q t # l) = unserved l - {#c#}"

fun grants_pending :: "event list \<Rightarrow> bool" where
  "grants_pending [] = True"
| "grants_pending (Arrived c # l) = grants_pending l"
| "grants_pending (Granted c q t # l) = (c \<in># unserved l \<and> grants_pending l)"

fun latest_grant :: "event list \<Rightarrow> (candidate_t \<times> double \<times> timepoint) option" where
  "latest_grant [] = None"
| "latest_grant (Arrived c # l) = latest_grant l"
| "latest_grant (Granted c q t # l) = Some (c, q, t)"

definition expiry :: "double \<Rightarrow> timepoint \<Rightarrow> timepoint" where
  "expiry q t = t + \<lfloor>q * 1000000\<rfloor>"

fun token_free :: "event list \<Rightarrow> timepoint \<Rightarrow> bool" where
  "token_free [] t = True"
| "token_free (Arrived x # l) t =
     (token_free l t \<or> (case latest_grant l of None \<Rightarrow> False | Some (c, _, _) \<Rightarrow> cand_name c = cand_name x))"
| "token_free (Granted c q t0 # l) t =
     (expiry q t0 \<le> t \<or> (\<exists>x\<in>#unserved l - {#c#}. cand_name x = cand_name c))"

fun exclusive :: "event list \<Rightarrow> bool" where
  "exclusive [] = True"
| "exclusive (Arrived c # l) = exclusive l"
| "exclusive (Granted c q t # l) = (token_free l t \<and> exclusive l)"

lemma token_free_mono: "token_free l t \<Longrightarrow> t \<le> t' \<Longrightarrow> token_free l t'"
  by (induction l rule: exclusive.induct) auto

lemma token_free_expired: "latest_grant l = Some (c, q, t0) \<Longrightarrow> expiry q t0 \<le> t \<Longrightarrow> token_free l t"
  by (induction l rule: exclusive.induct) auto

lemma token_free_returned:
  "latest_grant l = Some (c, q, t0) \<Longrightarrow> x \<in># unserved l \<Longrightarrow> cand_name x = cand_name c \<Longrightarrow> token_free l t"
  by (induction l rule: exclusive.induct) auto

definition log_inv :: "sched_state \<Rightarrow> bool" where
  "log_inv s \<longleftrightarrow> mset (candidates s) = unserved (s_log s) \<and> grants_pending (s_log s) \<and> exclusive (s_log s)
     \<and> (case daemon s of
          DSend c q \<Rightarrow> \<exists>t. latest_grant (s_log s) = Some (c, q, t) \<and> t \<le> s_clock s
        | DRelock c ts \<Rightarrow> \<exists>q t. latest_grant (s_log s) = Some (c, q, t) \<and> expiry q t \<le> ts_ns ts
        | DHold c ts \<Rightarrow> \<exists>q t. latest_grant (s_log s) = Some (c, q, t) \<and> expiry q t \<le> ts_ns ts
        | _ \<Rightarrow> token_free (s_log s) (s_clock s))"

definition full_inv :: "sched_state \<Rightarrow> bool" where
  "full_inv s \<longleftrightarrow> sched_inv s \<and> log_inv s"

lemma log_inv_cong:
  "log_inv s \<Longrightarrow> candidates t = candidates s \<Longrightarrow> s_log t = s_log s \<Longrightarrow> daemon t = daemon s \<Longrightarrow>
   s_clock s \<le> s_clock t \<Longrightarrow> log_inv t"
  by (auto simp: log_inv_def split: daemon_pc.splits intro: token_free_mono)

lemma push_candidate_log:
  "log_inv s \<Longrightarrow> log_inv ((push_candidate sock n r s)\<lparr>conns := k\<rparr>)"
  by (auto simp: log_inv_def push_candidate_def Let_def split: daemon_pc.splits)

lemma hold_released:
  assumes "log_inv s" and "daemon s = DHold c ts"
    and "ts_ns ts \<le> s_clock s \<or> list_ex (\<lambda>x. cand_name x = cand_name c) (candidates s)"
  shows "token_free (s_log s) (s_clock s)"
proof -
  obtain q t where g: "latest_grant (s_log s) = Some (c, q, t)" and le: "expiry q t \<le> ts_ns ts"
    using assms(1,2) by (auto simp: log_inv_def)
  have m: "set_mset (unserved (s_log s)) = set (candidates s)"
    using assms(1) by (metis log_inv_def set_mset_mset)
  show ?thesis
    using assms(3)
  proof
    assume "ts_ns ts \<le> s_clock s"
    then show ?thesis using token_free_expired [OF g] le by simp
  next
    assume "list_ex (\<lambda>x. cand_name x = cand_name c) (candidates s)"
    then show ?thesis using token_free_returned [OF g] m by (auto simp: list_ex_iff)
  qed
qed

lemma daemon_step_log:
  assumes "daemon_step mv s = Some (Inr t)" and "sched_inv s" and "log_inv s"
  shows "log_inv t"
  using assms(1,2)
proof (cases rule: daemon_step_cases)
  case wake
  then have "token_free (s_log s) (s_clock s)" using assms(3) hold_released by (auto simp: log_inv_def)
  then show ?thesis using wake assms(3) by (simp add: log_inv_def)
next
  case (grant hist c rest ci q ci')
  have m: "unserved (s_log s) = add_mset c (mset rest)" using grant(2) assms(3) by (metis log_inv_def)
  then show ?thesis using grant assms(3) by (auto simp: log_inv_def)
next
  case (send c q buf)
  then show ?thesis using assms(3) get_timespec_after_ns [of q "s_clock s"] by (auto simp: log_inv_def expiry_def)
qed (use assms(3) in \<open>auto simp: log_inv_def\<close>)

lemma full_inv_step: "full_inv s \<Longrightarrow> sched_step s t \<Longrightarrow> full_inv t"
proof -
  assume inv: "full_inv s" and step: "sched_step s t"
  then have "sched_inv t" using sched_step_inv by (auto simp: full_inv_def)
  moreover have "log_inv t" using step inv
  proof (induction rule: sched_step.induct)
    case (recv s sock buf data rbuf s' push)
    then show ?case
      using handle_unlocked_frame [OF recv(6)] by (auto simp: full_inv_def intro: log_inv_cong)
  next
    case (push s sock rbuf name req_id)
    then show ?case by (simp add: full_inv_def push_candidate_log)
  next
    case (daemon_ok s mv t)
    then show ?case using daemon_step_log by (auto simp: full_inv_def)
  qed (auto simp: full_inv_def intro: log_inv_cong)
  ultimately show ?thesis by (simp add: full_inv_def)
qed

lemma full_inv_init: "sched_init s \<Longrightarrow> full_inv s"
  using sched_init_inv by (auto simp: full_inv_def log_inv_def sched_init_def)

interpretation sched: inductive_invariant sched_init sched_step full_inv
  by unfold_locales (use full_inv_init full_inv_step in auto)

section \<open>A waiting request can always be granted\<close>

text \<open>The steps of the daemon and the passing of time.\<close>

inductive daemon_run :: "sched_state \<Rightarrow> sched_state \<Rightarrow> bool" where
  run_tick: "crashed s = None \<Longrightarrow> s_clock s \<le> t \<Longrightarrow> daemon_run s (s\<lparr>s_clock := t\<rparr>)"
| run_daemon: "crashed s = None \<Longrightarrow> daemon_step mv s = Some (Inr t) \<Longrightarrow> daemon_run s t"

lemma daemon_run_steps: "daemon_run\<^sup>*\<^sup>* s t \<Longrightarrow> sched_step\<^sup>*\<^sup>* s t"
  by (induction rule: rtranclp_induct)
     (auto elim!: daemon_run.cases intro: rtranclp.rtrancl_into_rtrancl sched_step.tick sched_step.daemon_ok)

text \<open>States that differ only in the clock, the daemon and what was sent.\<close>

definition quiet :: "sched_state \<Rightarrow> sched_state \<Rightarrow> bool" where
  "quiet s t \<longleftrightarrow> s_cfg t = s_cfg s \<and> s_start t = s_start s \<and> client_info_map t = client_info_map s
     \<and> history_list t = history_list s \<and> candidates t = candidates s \<and> conns t = conns s \<and> crashed t = crashed s
     \<and> s_log t = s_log s"

lemma ms_of_whole: "0 \<le> k \<Longrightarrow> ms_of (k * 1000000) = real_of_int k"
  by (simp add: ms_of_def to_microseconds_def sdiv_nonneg)

lemma far_future: "\<exists>T\<ge>low. \<forall>h\<in>set hs. beyond_window (ms_of (T - start) - w) h"
proof -
  obtain B where B: "\<forall>h\<in>set hs. h_end h < B"
  proof
    have "h_end h < Max (h_end ` set hs) + 1" if "h \<in> set hs" for h
      using that Max_ge [of "h_end ` set hs" "h_end h"] by (simp del: Max_ge)
    then show "\<forall>h\<in>set hs. h_end h < Max (h_end ` set hs) + 1" by blast
  qed
  define k where "k = max \<bar>low - start\<bar> \<lceil>B + w\<rceil>"
  have k: "0 \<le> k" "\<bar>low - start\<bar> \<le> k" "\<lceil>B + w\<rceil> \<le> k" by (simp_all add: k_def)
  have "low \<le> start + k * 1000000" using k(1,2) by linarith
  moreover have "B + w \<le> ms_of (start + k * 1000000 - start)"
    using k(1,3) ms_of_whole [OF k(1)] by (simp add: ceiling_le_iff)
  moreover have "beyond_window (x - w) h" if "B + w \<le> x" "h \<in> set hs" for x h
    using B that by (auto simp: beyond_window_def intro: less_le_trans)
  ultimately show ?thesis by blast
qed

text \<open>The front of the candidate list has been granted.\<close>

definition granted_front :: "sched_state \<Rightarrow> sched_state \<Rightarrow> bool" where
  "granted_front s t \<longleftrightarrow> candidates t = tl (candidates s) \<and> conns t = conns s \<and> crashed t = crashed s"

lemma select_turn_expired:
  assumes "candidates s \<noteq> []" and "\<forall>c\<in>set (candidates s). client_info_map s (cand_name c) \<noteq> None"
    and "\<forall>h\<in>set (history_list s). beyond_window (ms_since_start s - cfg_WINDOW_SIZE (s_cfg s)) h"
  shows "\<exists>q t. select_turn s = Inr t \<and> s_log t = Granted (hd (candidates s)) q (s_clock s) # s_log s
    \<and> granted_front s t \<and> sent t = sent s \<and> daemon t = DSend (hd (candidates s)) q
    \<and> q = fst (get_quota (the (client_info_map s (cand_name (hd (candidates s))))))"
proof -
  have "recent_history (s_cfg s) (ms_since_start s) (history_list s) = []"
    using assms(3) by (simp add: recent_history_def filter_empty_conv)
  then have "select_once (s_cfg s) (client_info_map s) (ms_since_start s) (history_list s) (candidates s) =
      Inr ([], Grant (hd (candidates s)) (tl (candidates s)))"
    using select_once_eq [OF assms(1,2)] by (simp add: appears_def)
  moreover obtain ci where "client_info_map s (cand_name (hd (candidates s))) = Some ci"
    using assms(1,2) by fastforce
  ultimately show ?thesis by (simp add: select_turn_def case_prod_unfold Let_def granted_front_def)
qed

lemma hold_reaches_top:
  assumes "crashed s = None" and "daemon s = DHold c ts"
  shows "\<exists>t. daemon_run\<^sup>*\<^sup>* s t \<and> quiet s t \<and> daemon t = DTop"
proof -
  let ?s = "s\<lparr>s_clock := max (s_clock s) (ts_ns ts)\<rparr>"
  have "daemon_run s ?s" using assms(1) by (intro run_tick) simp_all
  moreover have "daemon_run ?s (?s\<lparr>daemon := DTop, signalled := False\<rparr>)"
    by (rule run_daemon [where mv = Timeout]) (simp_all add: daemon_step_def assms)
  ultimately have "daemon_run\<^sup>*\<^sup>* s (?s\<lparr>daemon := DTop, signalled := False\<rparr>)" by (rule converse_rtranclp_into_rtranclp [OF _ r_into_rtranclp])
  then show ?thesis
    by (intro exI [of _ "?s\<lparr>daemon := DTop, signalled := False\<rparr>"]) (simp add: quiet_def)
qed

lemma relock_reaches_top:
  assumes "crashed s = None" and "daemon s = DRelock c ts"
  shows "\<exists>t. daemon_run\<^sup>*\<^sup>* s t \<and> quiet s t \<and> daemon t = DTop"
proof -
  let ?s = "s\<lparr>daemon := DHold c ts, signalled := False\<rparr>"
  have "daemon_run s ?s"
    by (rule run_daemon [where mv = Proceed]) (simp_all add: daemon_step_def assms)
  moreover obtain t where "daemon_run\<^sup>*\<^sup>* ?s t" "quiet ?s t" "daemon t = DTop"
    using hold_reaches_top [of ?s c ts] assms(1) by auto
  ultimately show ?thesis by (intro exI [of _ t]) (auto simp: quiet_def intro: converse_rtranclp_into_rtranclp)
qed

lemma send_reaches_top:
  assumes "crashed s = None" and "daemon s = DSend c q"
  shows "\<exists>t. daemon_run\<^sup>*\<^sup>* s t \<and> quiet s t \<and> daemon t = DTop"
proof -
  obtain buf where "daemon_send c q s = Inr (s\<lparr>sent := sent s @ [(cand_socket c, buf)],
      daemon := DRelock c (get_timespec_after q (s_clock s))\<rparr>)" (is "_ = Inr ?s")
    using daemon_send_eq [of c q s] by blast
  then have "daemon_run s ?s"
    by (intro run_daemon [where mv = Proceed]) (simp_all add: daemon_step_def assms)
  moreover obtain t where "daemon_run\<^sup>*\<^sup>* ?s t" "quiet ?s t" "daemon t = DTop"
    using relock_reaches_top [of ?s c] assms(1) by auto
  ultimately show ?thesis by (intro exI [of _ t]) (auto simp: quiet_def intro: converse_rtranclp_into_rtranclp)
qed

lemma reaches_turn:
  assumes "crashed s = None"
  shows "\<exists>t. daemon_run\<^sup>*\<^sup>* s t \<and> quiet s t \<and> (daemon t = DTop \<or> (\<exists>ts. daemon t = DSleep ts))"
proof (cases "daemon s")
  case DWait
  then have "daemon_run s (s\<lparr>daemon := DTop, signalled := False\<rparr>)"
    using assms by (intro run_daemon [where mv = Wake]) (simp_all add: daemon_step_def)
  then show ?thesis by (intro exI [of _ "s\<lparr>daemon := DTop, signalled := False\<rparr>"]) (auto simp: quiet_def)
next
  case (DSend c q)
  then show ?thesis using send_reaches_top [OF assms] by blast
next
  case (DRelock c ts)
  then show ?thesis using relock_reaches_top [OF assms] by blast
next
  case (DHold c ts)
  then show ?thesis using hold_reaches_top [OF assms] by blast
qed (auto simp: quiet_def)

lemma turn_grants:
  assumes "crashed s = None" and "sched_inv s" and "candidates s \<noteq> []"
    and "daemon s = DTop \<or> (\<exists>ts. daemon s = DSleep ts)"
  shows "\<exists>q T t. daemon_run\<^sup>*\<^sup>* s t \<and> s_log t = Granted (hd (candidates s)) q T # s_log s \<and> granted_front s t
    \<and> sent t = sent s \<and> daemon t = DSend (hd (candidates s)) q"
proof -
  define low where "low = max (s_clock s) (case daemon s of DSleep ts \<Rightarrow> ts_ns ts | _ \<Rightarrow> s_clock s)"
  obtain T where T: "low \<le> T" "\<forall>h\<in>set (history_list s). beyond_window (ms_of (T - s_start s) - cfg_WINDOW_SIZE (s_cfg s)) h"
    using far_future by metis
  let ?s = "s\<lparr>s_clock := T\<rparr>"
  obtain q t where t: "select_turn ?s = Inr t" "s_log t = Granted (hd (candidates s)) q T # s_log s" "granted_front s t"
      "sent t = sent s" "daemon t = DSend (hd (candidates s)) q"
    using select_turn_expired [of ?s] assms(3) sched_invD(2) [OF assms(2)] T(2) by (auto simp: ms_since_start_def granted_front_def)
  have "daemon_run s ?s" using assms(1) T(1) by (intro run_tick) (simp_all add: low_def)
  moreover have "daemon_run ?s t"
    using assms(4)
  proof
    assume "daemon s = DTop"
    then show ?thesis using t assms(1,3)
      by (intro run_daemon [where mv = Proceed]) (simp_all add: daemon_step_def daemon_lock_def)
  next
    assume "\<exists>ts. daemon s = DSleep ts"
    then show ?thesis using t assms(1) T(1)
      by (intro run_daemon [where mv = Timeout]) (auto simp: daemon_step_def low_def)
  qed
  ultimately have "daemon_run\<^sup>*\<^sup>* s t" by (rule converse_rtranclp_into_rtranclp [OF _ r_into_rtranclp])
  then show ?thesis using t(2-5) by blast
qed

lemma steps_keep_inv:
  assumes "daemon_run\<^sup>*\<^sup>* s t" and "sched_inv s"
  shows "sched_inv t"
  using daemon_run_steps [OF assms(1)] assms(2) by (induction rule: rtranclp_induct) (auto intro: sched_step_inv)

lemma front_can_be_granted:
  assumes "sched_inv s" and "crashed s = None" and "candidates s \<noteq> []"
  shows "\<exists>q T t. daemon_run\<^sup>*\<^sup>* s t \<and> s_log t = Granted (hd (candidates s)) q T # s_log s \<and> granted_front s t"
proof -
  obtain u where u: "daemon_run\<^sup>*\<^sup>* s u" "quiet s u" "daemon u = DTop \<or> (\<exists>ts. daemon u = DSleep ts)"
    using reaches_turn [OF assms(2)] by blast
  have same: "crashed u = None" "candidates u = candidates s" "s_log u = s_log s"
    using u(2) assms(2) by (simp_all add: quiet_def)
  obtain q T t where "daemon_run\<^sup>*\<^sup>* u t" "s_log t = Granted (hd (candidates s)) q T # s_log s" "granted_front u t"
    using turn_grants [OF same(1) steps_keep_inv [OF u(1) assms(1)] _ u(3)] assms(3) same by auto
  moreover have "granted_front s t" using calculation(3) u(2) by (simp add: granted_front_def quiet_def)
  ultimately show ?thesis using u(1) by (meson rtranclp_trans)
qed

section \<open>Messages\<close>

lemma handle_unlocked_quota:
  assumes "carries msg name rid REQ_QUOTA att" and "get_msg_data 8 word64 att 0 = Some (overuse, 8)"
    and "get_msg_data 8 word64 att 8 = Some (brst, 16)" and "client_info_map s name = Some c"
  shows "handle_unlocked sock msg s =
    (let (c, hist) = update_return_time (ms_since_start s) (double_of_bits overuse) c (history_list s)
     in Some (s\<lparr>client_info_map := (client_info_map s)(name \<mapsto> set_burst (double_of_bits brst) c),
                history_list := hist\<rparr>, Some (name, rid)))"
  using assms by (auto simp: carries_def handle_unlocked_def Let_def case_prod_unfold)

text \<open>A scheduler that has just started, with one client, and a first request of that client.\<close>

definition boot_state :: sched_state where
  "boot_state = \<lparr>s_cfg = default_config, s_start = 0, s_clock = 0,
     client_info_map = [''pod1'' \<mapsto> (new_ClientInfo 250 100 8000 (1/2) (4/5))\<lparr>c_name := ''pod1'', gpu_mem_limit := 4096\<rparr>],
     history_list = [], candidates = [], daemon = DTop, signalled = False, conns = (\<lambda>_. NoConn), sent = [],
     crashed = None, s_log = []\<rparr>"

definition first_message :: "byte list" where
  "first_message = request_header ''pod1'' 0 REQ_QUOTA @ bytes64 0 @ bytes64 0 @ replicate 43 0"

definition connected :: sched_state where
  "connected = boot_state\<lparr>conns := (\<lambda>_. NoConn)(4 := Receiving (replicate 80 0))\<rparr>"

definition returned :: sched_state where
  "returned = connected\<lparr>client_info_map :=
       [''pod1'' \<mapsto> (new_ClientInfo 250 100 8000 (1/2) (4/5))\<lparr>c_name := ''pod1'', gpu_mem_limit := 4096\<rparr>],
     conns := (\<lambda>_. NoConn)(4 := Pushing first_message ''pod1'' 0)\<rparr>"

definition requested :: sched_state where
  "requested = (push_candidate 4 ''pod1'' 0 returned)\<lparr>conns := (\<lambda>_. NoConn)(4 := Receiving first_message)\<rparr>"

lemma boot_init: "sched_init boot_state"
  by (simp add: sched_init_def boot_state_def named_clients_def)

lemma length_first_message: "length first_message = 80"
  by (simp add: first_message_def)

lemma handle_first_message:
  "handle_unlocked 4 first_message connected = Some (returned\<lparr>conns := conns connected\<rparr>, Some (''pod1'', 0))"
proof -
  have "carries first_message ''pod1'' 0 REQ_QUOTA (bytes64 0 @ bytes64 0 @ replicate 43 0)"
    unfolding first_message_def by (rule carries_request_header) (simp_all add: c_safe_def)
  then show ?thesis
    using handle_unlocked_quota [of first_message "''pod1''" 0 "bytes64 0 @ bytes64 0 @ replicate 43 0" 0 0 connected _ 4]
      get_two_64 [of 0 0 "replicate 43 0"]
    by (simp add: connected_def boot_state_def update_return_time_def new_ClientInfo_def set_burst_def
        double_of_bits_def magnitude_def bits_exponent_def bits_mantissa_def returned_def)
qed

lemma requested_reachable: "reach sched_init sched_step requested"
proof -
  have "sched_step boot_state connected"
    using sched_step.accept [of boot_state 4 "replicate 80 0"]
    by (simp add: connected_def) (simp add: boot_state_def REQ_MSG_LEN_def)
  moreover have "sched_step connected returned"
    using sched_step.recv [of connected 4 "replicate 80 0" first_message first_message, OF _ _ _ _ _ handle_first_message]
      length_first_message
    by (simp add: connected_def returned_def REQ_MSG_LEN_def boot_state_def) fastforce
  moreover have "sched_step returned requested"
    using sched_step.push [of returned 4 first_message "''pod1''" 0]
    by (simp add: requested_def returned_def connected_def boot_state_def)
  ultimately show ?thesis using boot_init by (meson reach.intros)
qed

lemma requested_sel:
  "candidates requested = [\<lparr>cand_socket = 4, cand_name = ''pod1'', cand_req_id = 0, cand_arrived_time = 0\<rparr>]"
  "crashed requested = None" "daemon requested = DTop"
  "s_log requested = [Arrived \<lparr>cand_socket = 4, cand_name = ''pod1'', cand_req_id = 0, cand_arrived_time = 0\<rparr>]"
  by (simp_all add: requested_def push_candidate_def returned_def connected_def boot_state_def Let_def
      ms_since_start_def ms_of_def to_microseconds_def sdiv_nonneg)

section \<open>Properties\<close>

text \<open>C10. Whatever messages arrive, in whatever order the threads run and however the configuration
  is reloaded, the scheduler never dereferences the null pointer of an unknown client and never takes
  the front of an empty candidate list. The only fault it can reach is a message whose fields point
  outside its 80 bytes.\<close>

theorem scheduler_never_faults:
  assumes "reach sched_init sched_step s"
  shows "crashed s = None \<or> crashed s = Some MessageBounds"
  using sched.reach_inv [OF assms] sched_invD(5) by (auto simp: full_inv_def)

theorem scheduler_never_faults_witness: "crashed requested = None \<or> crashed requested = Some MessageBounds"
  using scheduler_never_faults [OF requested_reachable] .

text \<open>C23. No wake-up is lost while the scheduler is idle: when the daemon is blocked in the wait for
  requests and no signal is on its way, there is no request.\<close>

theorem no_lost_wakeup:
  assumes "reach sched_init sched_step s" and "daemon s = DWait" and "\<not> signalled s"
  shows "candidates s = []"
  using sched.reach_inv [OF assms(1)] assms(2,3) by (simp add: full_inv_def sched_inv_def)

theorem no_lost_wakeup_witness:
  "\<exists>s. reach sched_init sched_step s \<and> daemon s = DWait \<and> \<not> signalled s \<and> candidates s = []"
proof -
  let ?s = "boot_state\<lparr>daemon := DWait, signalled := False\<rparr>"
  have "sched_step boot_state ?s"
    by (rule sched_step.daemon_ok [where mv = Proceed]) (simp_all add: daemon_step_def daemon_lock_def boot_state_def)
  then have r: "reach sched_init sched_step ?s" using boot_init by (meson reach.intros)
  have "daemon ?s = DWait" "\<not> signalled ?s" by simp_all
  then show ?thesis using r no_lost_wakeup [OF r] by blast
qed

text \<open>C11. Every request is served at most once and none is forgotten: the candidate list holds exactly
  the requests that have arrived and not been granted, and every grant goes to a request that was
  waiting.\<close>

theorem requests_served_once:
  assumes "reach sched_init sched_step s"
  shows "mset (candidates s) = unserved (s_log s) \<and> grants_pending (s_log s)"
  using sched.reach_inv [OF assms] by (simp add: full_inv_def log_inv_def)

theorem requests_served_once_witness:
  "mset (candidates requested) = unserved (s_log requested) \<and> grants_pending (s_log requested)"
  using requests_served_once [OF requested_reachable] .

text \<open>C2. The token is exclusive: between two consecutive grants, the quota of the first has run out
  (to the nanosecond), or the client it went to has sent a new request since, or that client had
  another request waiting already when it was granted.\<close>

theorem token_exclusive:
  assumes "reach sched_init sched_step s"
  shows "exclusive (s_log s)"
  using sched.reach_inv [OF assms] by (simp add: full_inv_def log_inv_def)

theorem token_exclusive_witness: "exclusive (s_log requested)"
  using token_exclusive [OF requested_reachable] .

text \<open>C22. The scheduler cannot get stuck: from every reachable state without a fault, whatever the
  daemon is doing, the first waiting request can be granted in a run that consists only of the daemon's
  own steps and the passing of time: no further message arrives, no connection or configuration
  changes. The run grants this one request and no other.\<close>

theorem waiting_request_can_be_granted:
  assumes "reach sched_init sched_step s" and "crashed s = None" and "candidates s \<noteq> []"
  shows "\<exists>q T t. daemon_run\<^sup>*\<^sup>* s t \<and> s_log t = Granted (hd (candidates s)) q T # s_log s
    \<and> candidates t = tl (candidates s) \<and> conns t = conns s \<and> crashed t = None"
proof -
  have "sched_inv s" using sched.reach_inv [OF assms(1)] by (simp add: full_inv_def)
  from front_can_be_granted [OF this assms(2,3)] show ?thesis using assms(2) by (auto simp: granted_front_def)
qed

theorem waiting_request_can_be_granted_witness:
  "\<exists>q T t. daemon_run\<^sup>*\<^sup>* requested t \<and> s_log t = Granted (hd (candidates requested)) q T # s_log requested
     \<and> candidates t = []"
  using waiting_request_can_be_granted [OF requested_reachable] by (simp add: requested_sel) blast

text \<open>\<^verbatim>\<open>get_timespec_after\<close> is exact: the absolute time it returns is the current time plus the
  given milliseconds, rounded down to nanoseconds, and it is a normalised \<^verbatim>\<open>timespec\<close>.\<close>

lemma get_timespec_after_exact:
  "ts_ns (get_timespec_after ms t) = t + \<lfloor>ms * 1000000\<rfloor>
   \<and> 0 \<le> tv_nsec (get_timespec_after ms t) \<and> tv_nsec (get_timespec_after ms t) < 1000000000"
  by (rule get_timespec_after_ns)

end
