(* ===== verification/Gem_Ledger.thy ===== *)
theory Gem_Ledger
  imports Gem_Prelude
begin

text \<open>
  Accounts in wrapping 64-bit arithmetic: a running total beside a map of individual entries, as the
  pod manager keeps per connection and the hook library per device pointer. The locale \<open>ledger\<close> is
  the interface: every step moves the total and the sum of the entries by the same amount.
\<close>

definition map_total :: "('k \<rightharpoonup> size_t) \<Rightarrow> size_t" where
  "map_total m = (\<Sum>k\<in>dom m. the (m k))"

definition entry :: "('k \<rightharpoonup> size_t) \<Rightarrow> 'k \<Rightarrow> size_t" where
  "entry m k = (case m k of None \<Rightarrow> 0 | Some v \<Rightarrow> v)"

lemma entry_simps [simp]: "entry (m(k \<mapsto> v)) k = v" "j \<noteq> k \<Longrightarrow> entry (m(k \<mapsto> v)) j = entry m j"
  "entry Map.empty k = 0" "entry (m(k := None)) k = 0" "j \<noteq> k \<Longrightarrow> entry (m(k := None)) j = entry m j"
  by (simp_all add: entry_def)

lemma map_total_empty [simp]: "map_total Map.empty = 0"
  by (simp add: map_total_def)

lemma map_total_split:
  assumes "finite (dom m)"
  shows "map_total m = entry m k + map_total (m(k := None))"
proof (cases "k \<in> dom m")
  case True
  then obtain v where v: "m k = Some v" by auto
  have "(\<Sum>j\<in>dom m - {k}. the (m j)) = (\<Sum>j\<in>dom m - {k}. the ((m(k := None)) j))"
    by (intro sum.cong) auto
  then show ?thesis
    using sum.remove [OF assms True, of "\<lambda>j. the (m j)"] by (simp add: map_total_def entry_def v)
next
  case False
  then have "m(k := None) = m" by (auto simp: domIff fun_upd_idem)
  then show ?thesis using False by (simp add: entry_def domIff)
qed

lemma map_total_del: "finite (dom m) \<Longrightarrow> map_total (m(k := None)) = map_total m - entry m k"
  using map_total_split [of m k] by simp

lemma map_total_upd: "finite (dom m) \<Longrightarrow> map_total (m(k \<mapsto> v)) = map_total m - entry m k + v"
  using map_total_split [of "m(k \<mapsto> v)" k] map_total_split [of m k] by simp

text \<open>The same sum as a natural number; it agrees with the wrapped one while it is in range.\<close>

definition map_nat_total :: "('k \<rightharpoonup> size_t) \<Rightarrow> nat" where
  "map_nat_total m = (\<Sum>k\<in>dom m. unat (the (m k)))"

lemma map_total_of_nat: "map_total m = word_of_nat (map_nat_total m)"
  by (simp add: map_total_def map_nat_total_def)

lemma map_nat_total_split:
  assumes "finite (dom m)"
  shows "map_nat_total m = unat (entry m k) + map_nat_total (m(k := None))"
proof (cases "k \<in> dom m")
  case True
  then obtain v where v: "m k = Some v" by auto
  have "(\<Sum>j\<in>dom m - {k}. unat (the (m j))) = (\<Sum>j\<in>dom m - {k}. unat (the ((m(k := None)) j)))"
    by (intro sum.cong) auto
  then show ?thesis
    using sum.remove [OF assms True, of "\<lambda>j. unat (the (m j))"] by (simp add: map_nat_total_def entry_def v)
next
  case False
  then have "m(k := None) = m" by (auto simp: domIff fun_upd_idem)
  then show ?thesis using False by (simp add: entry_def domIff)
qed

lemma map_nat_total_upd:
  assumes "finite (dom m)"
  shows "map_nat_total (m(k \<mapsto> v)) + unat (entry m k) = map_nat_total m + unat v"
  using map_nat_total_split [of "m(k \<mapsto> v)" k] map_nat_total_split [OF assms, of k] assms by simp

lemma entry_le_total: "finite (dom m) \<Longrightarrow> unat (entry m k) \<le> map_nat_total m"
  using map_nat_total_split [of m k] by simp

text \<open>The interface.\<close>

locale ledger =
  fixes used :: "'s \<Rightarrow> size_t" and book :: "'s \<Rightarrow> 'k \<rightharpoonup> size_t" and step :: "'s \<Rightarrow> 's \<Rightarrow> bool"
  assumes step_finite: "step s t \<Longrightarrow> finite (dom (book s)) \<Longrightarrow> finite (dom (book t))"
    and step_total: "step s t \<Longrightarrow> finite (dom (book s)) \<Longrightarrow>
      used t - used s = map_total (book t) - map_total (book s)"
begin

definition balanced :: "'s \<Rightarrow> bool" where
  "balanced s \<longleftrightarrow> finite (dom (book s)) \<and> used s = map_total (book s)"

lemma step_balanced: "balanced s \<Longrightarrow> step s t \<Longrightarrow> balanced t"
  using step_finite [of s t] step_total [of s t] by (simp add: balanced_def)

lemma run_balanced: "step\<^sup>*\<^sup>* s t \<Longrightarrow> balanced s \<Longrightarrow> balanced t"
  by (induction rule: rtranclp_induct) (auto intro: step_balanced)

lemma empty_unused: "balanced s \<Longrightarrow> book s = Map.empty \<Longrightarrow> used s = 0"
  by (simp add: balanced_def)

end

end
