(* ===== verification/Gem_PodMem.thy ===== *)
theory Gem_PodMem
  imports Gem_Ledger Gem_Comm
begin

text \<open>
  The memory account of the pod manager, \<^verbatim>\<open>src/src/pod-manager.cpp\<close>: the globals under
  \<^verbatim>\<open>mem_info_mutex\<close>, \<^verbatim>\<open>hook_update_memory_usage\<close>, and what accepting and closing a connection does
  to the account. Each operation runs under the mutex and is one atomic step.
\<close>

record pod_mem =
  pod_mem_limit :: size_t
  pod_mem_used :: size_t
  allocation_map :: "sockfd \<rightharpoonup> size_t"

definition hook_update_memory_usage :: "size_t \<Rightarrow> int32 \<Rightarrow> sockfd \<Rightarrow> pod_mem \<Rightarrow> int32 \<times> pod_mem" where
  "hook_update_memory_usage mem_size allocate sockfd p =
     (if allocate \<noteq> 0
      then if pod_mem_used p + mem_size > pod_mem_limit p then (0, p)
           else (1, p\<lparr>pod_mem_used := pod_mem_used p + mem_size,
                      allocation_map := (allocation_map p)(sockfd \<mapsto> entry (allocation_map p) sockfd + mem_size)\<rparr>)
      else (1, p\<lparr>pod_mem_used := pod_mem_used p - mem_size,
                 allocation_map := (allocation_map p)(sockfd \<mapsto> entry (allocation_map p) sockfd - mem_size)\<rparr>))"

text \<open>\<^verbatim>\<open>allocation_map.insert\<close> of a new connection keeps an entry that exists.\<close>

definition mem_connect :: "sockfd \<Rightarrow> pod_mem \<Rightarrow> pod_mem" where
  "mem_connect sockfd p =
     p\<lparr>allocation_map := (if allocation_map p sockfd = None then (allocation_map p)(sockfd \<mapsto> 0) else allocation_map p)\<rparr>"

definition mem_disconnect :: "sockfd \<Rightarrow> pod_mem \<Rightarrow> pod_mem" where
  "mem_disconnect sockfd p =
     p\<lparr>pod_mem_used := pod_mem_used p - entry (allocation_map p) sockfd,
       allocation_map := (allocation_map p)(sockfd := None)\<rparr>"

text \<open>
  \<^verbatim>\<open>retrieve_mem_info\<close>: the lambda that sends the request and receives the answer is \<open>exchange\<close>, on
  the receive buffer and the state of the network; it returns the result and \<^verbatim>\<open>errno\<close>. The outcome
  is the error code or the account; \<open>None\<close> is an overflow, an uninitialised result or the failed
  assertion that no memory is used yet.
\<close>

definition parse_mem_info :: "byte list \<Rightarrow> pod_mem option" where
  "parse_mem_info rbuf = do {
     (rid, off) \<leftarrow> parse_response rbuf;
     let attached = attached_data rbuf off;
     (used, pos) \<leftarrow> get_msg_data 8 word64 attached 0;
     (limit, pos) \<leftarrow> get_msg_data 8 word64 attached pos;
     (if used = 0 then Some \<lparr>pod_mem_limit = limit, pod_mem_used = used, allocation_map = Map.empty\<rparr> else None)
   }"

definition retrieve_mem_info ::
  "comm_env \<Rightarrow> comm_state \<Rightarrow> (byte list \<Rightarrow> byte list \<times> 'n \<Rightarrow> int \<times> int \<times> byte list \<times> 'n) \<Rightarrow> int
    \<Rightarrow> byte list \<times> 'n \<Rightarrow> ((int + pod_mem) \<times> comm_state \<times> 'n) option" where
  "retrieve_mem_info env st exchange MAX_RETRY net = do {
     (rid, st, sbuf) \<leftarrow> prepare_request env st (replicate REQ_MSG_LEN 0) REQ_MEM_LIMIT [];
     let (rc, rbuf, net) = multiple_attempt (exchange sbuf) (\<lambda>s. s) MAX_RETRY 0 net;
     rc \<leftarrow> rc;
     (if rc \<noteq> 0 then Some (Inl rc, st, net)
      else do {
        p \<leftarrow> parse_mem_info rbuf;
        Some (Inr p, st, net)
      })
   }"

datatype mem_op = Connect sockfd | Update size_t int32 sockfd | Disconnect sockfd

fun mem_step :: "mem_op \<Rightarrow> pod_mem \<Rightarrow> pod_mem" where
  "mem_step (Connect k) p = mem_connect k p"
| "mem_step (Update n a k) p = snd (hook_update_memory_usage n a k p)"
| "mem_step (Disconnect k) p = mem_disconnect k p"

definition mem_run :: "mem_op list \<Rightarrow> pod_mem \<Rightarrow> pod_mem" where
  "mem_run ops p = fold mem_step ops p"

section \<open>The account is a ledger\<close>

lemma mem_step_finite: "finite (dom (allocation_map p)) \<Longrightarrow> finite (dom (allocation_map (mem_step op p)))"
  by (cases op) (auto simp: mem_connect_def mem_disconnect_def hook_update_memory_usage_def)

lemma mem_step_total:
  "finite (dom (allocation_map p)) \<Longrightarrow>
   pod_mem_used (mem_step op p) - pod_mem_used p =
     map_total (allocation_map (mem_step op p)) - map_total (allocation_map p)"
  by (cases op)
     (auto simp: mem_connect_def mem_disconnect_def hook_update_memory_usage_def map_total_upd map_total_del entry_def)

interpretation pod: ledger pod_mem_used allocation_map "\<lambda>p q. \<exists>op. q = mem_step op p"
  by unfold_locales (use mem_step_finite mem_step_total in auto)

lemma mem_run_steps: "(\<lambda>p q. \<exists>op. q = mem_step op p)\<^sup>*\<^sup>* p (mem_run ops p)"
  by (induction ops rule: rev_induct)
     (auto simp: mem_run_def intro: rtranclp.rtrancl_into_rtrancl)

lemma mem_run_limit [simp]: "pod_mem_limit (mem_run ops p) = pod_mem_limit p"
proof -
  have "pod_mem_limit (mem_step op q) = pod_mem_limit q" for op q
    by (cases op) (auto simp: mem_connect_def mem_disconnect_def hook_update_memory_usage_def)
  then show ?thesis by (induction ops rule: rev_induct) (auto simp: mem_run_def)
qed

section \<open>Honest clients\<close>

text \<open>A client is honest when it frees at most what is booked for its connection, and no request is
  so large that the sum leaves 64 bits.\<close>

fun honest :: "mem_op \<Rightarrow> pod_mem \<Rightarrow> bool" where
  "honest (Update n a k) p =
     (if a = 0 then n \<le> entry (allocation_map p) k else unat (pod_mem_used p) + unat n < 2 ^ 64)"
| "honest _ p = True"

fun honest_run :: "mem_op list \<Rightarrow> pod_mem \<Rightarrow> bool" where
  "honest_run [] p = True"
| "honest_run (op # ops) p = (honest op p \<and> honest_run ops (mem_step op p))"

text \<open>Then nothing wraps: the total is the sum of the entries as natural numbers, within the limit.\<close>

definition exact_account :: "pod_mem \<Rightarrow> bool" where
  "exact_account p \<longleftrightarrow> finite (dom (allocation_map p))
     \<and> unat (pod_mem_used p) = map_nat_total (allocation_map p) \<and> pod_mem_used p \<le> pod_mem_limit p"

lemma exact_accountD:
  "exact_account p \<Longrightarrow> entry (allocation_map p) k \<le> pod_mem_used p"
  using entry_le_total [of "allocation_map p" k] by (simp add: exact_account_def word_le_nat_alt)

lemma unat_word_add_exact: "unat (a :: size_t) + unat b < 2 ^ 64 \<Longrightarrow> unat (a + b) = unat a + unat b"
  by (simp add: unat_word_ariths)

lemma word_sub_exact: "(b :: size_t) \<le> a \<Longrightarrow> unat (a - b) = unat a - unat b \<and> a - b \<le> a"
  by (simp add: unat_sub_if' word_le_nat_alt)

lemma update_alloc_exact:
  assumes "exact_account p" and "a \<noteq> 0" and "unat (pod_mem_used p) + unat n < 2 ^ 64"
    and "\<not> pod_mem_used p + n > pod_mem_limit p"
  shows "exact_account (snd (hook_update_memory_usage n a k p))"
proof -
  let ?m = "allocation_map p" let ?e = "entry ?m k"
  have "unat ?e + unat n < 2 ^ 64" using exact_accountD [OF assms(1), of k] assms(3) by (simp add: word_le_nat_alt)
  then have "unat (?e + n) = unat ?e + unat n" by (rule unat_word_add_exact)
  then have "map_nat_total (?m(k \<mapsto> ?e + n)) = map_nat_total ?m + unat n"
    using map_nat_total_upd [of ?m k "?e + n"] assms(1) by (simp add: exact_account_def)
  then show ?thesis
    using assms unat_word_add_exact [OF assms(3)] by (simp add: hook_update_memory_usage_def exact_account_def not_less)
qed

lemma update_free_exact:
  assumes "exact_account p" and "n \<le> entry (allocation_map p) k"
  shows "exact_account (snd (hook_update_memory_usage n 0 k p))"
proof -
  let ?m = "allocation_map p" let ?e = "entry ?m k"
  have n: "n \<le> pod_mem_used p" using exact_accountD [OF assms(1)] assms(2) by (rule order_trans [rotated])
  have "map_nat_total (?m(k \<mapsto> ?e - n)) = map_nat_total ?m - unat n"
    using map_nat_total_upd [of ?m k "?e - n"] assms word_sub_exact [OF assms(2)] entry_le_total [of ?m k]
    by (simp add: exact_account_def word_le_nat_alt)
  moreover have "pod_mem_used p - n \<le> pod_mem_limit p"
    using word_sub_exact [OF n] assms(1) by (auto simp: exact_account_def intro: order_trans)
  ultimately show ?thesis
    using assms word_sub_exact [OF n] by (simp add: hook_update_memory_usage_def exact_account_def)
qed

lemma connect_exact: "exact_account p \<Longrightarrow> exact_account (mem_connect k p)"
  using map_nat_total_upd [of "allocation_map p" k 0] by (auto simp: mem_connect_def exact_account_def entry_def)

lemma disconnect_exact:
  assumes "exact_account p"
  shows "exact_account (mem_disconnect k p)"
proof -
  have fin: "finite (dom (allocation_map p))" using assms by (simp add: exact_account_def)
  note sub = word_sub_exact [OF exact_accountD [OF assms], of k]
  then have "pod_mem_used p - entry (allocation_map p) k \<le> pod_mem_limit p"
    using assms by (auto simp: exact_account_def intro: order_trans)
  then show ?thesis
    using map_nat_total_split [OF fin, of k] sub assms by (simp add: mem_disconnect_def exact_account_def)
qed

lemma mem_step_exact: "exact_account p \<Longrightarrow> honest op p \<Longrightarrow> exact_account (mem_step op p)"
proof (cases op)
  case (Update n a k)
  assume p: "exact_account p" and h: "honest op p"
  show ?thesis
  proof (cases "a = 0")
    case True
    then show ?thesis using p h Update update_free_exact by simp
  next
    case False
    then show ?thesis
      using p h Update update_alloc_exact [OF p False, of n k]
      by (cases "pod_mem_used p + n > pod_mem_limit p") (auto simp: hook_update_memory_usage_def)
  qed
qed (auto simp: connect_exact disconnect_exact)

lemma mem_run_exact: "exact_account p \<Longrightarrow> honest_run ops p \<Longrightarrow> exact_account (mem_run ops p)"
  by (induction ops arbitrary: p) (auto simp: mem_run_def mem_step_exact)

definition fresh_account :: "size_t \<Rightarrow> pod_mem" where
  "fresh_account limit = \<lparr>pod_mem_limit = limit, pod_mem_used = 0, allocation_map = Map.empty\<rparr>"

lemma fresh_account_ok: "exact_account (fresh_account limit)" "pod.balanced (fresh_account limit)"
  by (simp_all add: exact_account_def fresh_account_def map_nat_total_def pod.balanced_def)

section \<open>Properties\<close>

text \<open>The pod manager never forgets or invents memory: after any sequence of connections, updates
  (also dishonest ones, and frees booked on another connection than the allocation) and closings, the
  used memory equals the sum of the connections' entries modulo \<open>2^64\<close>; once every connection is
  closed it is zero again.\<close>

lemma pod_memory_balanced:
  "pod_mem_used (mem_run ops (fresh_account limit)) = map_total (allocation_map (mem_run ops (fresh_account limit)))
   \<and> (allocation_map (mem_run ops (fresh_account limit)) = Map.empty \<longrightarrow> pod_mem_used (mem_run ops (fresh_account limit)) = 0)"
proof -
  have "pod.balanced (mem_run ops (fresh_account limit))"
    by (rule pod.run_balanced [OF mem_run_steps fresh_account_ok(2)])
  then show ?thesis using pod.empty_unused by (auto simp: pod.balanced_def)
qed

text \<open>C19. The memory limit holds: while clients free only what is booked for their connection and no
  request overflows 64 bits, the used memory is the exact sum of the entries and never exceeds the
  limit.\<close>

theorem memory_limit_respected:
  assumes "honest_run ops (fresh_account limit)"
  shows "pod_mem_used (mem_run ops (fresh_account limit)) \<le> limit
    \<and> unat (pod_mem_used (mem_run ops (fresh_account limit))) = map_nat_total (allocation_map (mem_run ops (fresh_account limit)))"
  using mem_run_exact [OF fresh_account_ok(1) assms] by (simp add: exact_account_def) (simp add: fresh_account_def)

theorem memory_limit_respected_witness:
  "pod_mem_used (mem_run [Connect 5, Update 3000 1 5, Update 2000 1 5, Update 500 0 5] (fresh_account 4096)) \<le> 4096"
proof -
  have "honest_run [Connect 5, Update 3000 1 5, Update 2000 1 5, Update 500 0 5] (fresh_account 4096)"
    by (simp add: fresh_account_def mem_connect_def hook_update_memory_usage_def)
  then show ?thesis using memory_limit_respected by blast
qed

text \<open>The check of the limit wraps: a request that makes the sum pass \<open>2^64\<close> is accepted whatever
  the limit, and leaves less memory in use than before.\<close>

lemma limit_check_wraps:
  assumes "a \<noteq> 0" and "2 ^ 64 \<le> unat (pod_mem_used p) + unat n" and "pod_mem_used p \<le> pod_mem_limit p"
  shows "fst (hook_update_memory_usage n a k p) = 1
    \<and> pod_mem_used (snd (hook_update_memory_usage n a k p)) < pod_mem_used p"
proof -
  have "unat (pod_mem_used p + n) = unat (pod_mem_used p) + unat n - 2 ^ 64"
    using assms(2) unat_size_t_less [of "pod_mem_used p"] unat_size_t_less [of n]
    by (simp add: unat_word_ariths mod_if)
  then have less: "pod_mem_used p + n < pod_mem_used p"
    using unat_size_t_less [of n] assms(2) by (simp add: word_less_nat_alt)
  then have "pod_mem_used p + n \<le> pod_mem_limit p" using assms(3) by simp
  then show ?thesis using assms(1) less by (simp add: hook_update_memory_usage_def)
qed

end
