(* ===== verification/Gem_Pod.thy ===== *)
theory Gem_Pod
  imports Gem_PodMem Gem_Double Gem_Predictor "HOL-Library.AList"
begin

text \<open>
  The pod manager process, \<^verbatim>\<open>src/src/pod-manager.cpp\<close>: the hook threads (\<^verbatim>\<open>hook_thread_func\<close>,
  \<^verbatim>\<open>hook_kernel_launch\<close>), the two scheduler threads and the accept loop of \<^verbatim>\<open>main\<close>, as a step
  relation on the shared state.

  \<^item> The control points of a hook thread (\<open>hook_pc\<close>) are the places where another thread can run in
    between: before and after each lock, and inside the two condition waits. \<^verbatim>\<open>pod_overuse_ms\<close>,
    \<^verbatim>\<open>pod_quota\<close> and \<^verbatim>\<open>quota_updated_tp\<close> are accessed without a common lock; the model interleaves
    those accesses as whole steps.
  \<^item> A condition variable is the set of waiting threads that have been signalled. \<open>Wake\<close> is a return
    from a wait after a signal, \<open>Spurious\<close> one without.
  \<^item> \<^verbatim>\<open>client_burst_map\<close> is an association list; \<open>issued\<close> is a ghost counter of the requests made.
\<close>

type_synonym hook_ctx = "byte list \<times> int32"

datatype hook_pc =
    HNone
  | HRecv "byte list"
  | HCheck hook_ctx double double
  | HQuotaWait hook_ctx double double
  | HUpdate hook_ctx double double
  | HExpire hook_ctx
  | HEnqueue hook_ctx
  | HRequest hook_ctx double
  | HAwait hook_ctx int32
  | HBlocked hook_ctx int32
  | HDone hook_ctx double
  | HReply hook_ctx double

datatype sender_pc = SLoop | SWait

record pod_state =
  pod_env :: comm_env
  pod_comm :: comm_state
  pod_clock :: timepoint
  pod_account :: pod_mem
  request_queue :: "(int32 \<times> byte list) list"
  response_map :: "int32 \<rightharpoonup> byte list"
  pod_overuse_ms :: double
  client_burst_map :: "(sockfd \<times> double) list"
  pod_quota :: double
  quota_updated_tp :: timepoint
  quota_state :: int
  sender :: sender_pc
  sender_signalled :: bool
  hooks :: "sockfd \<Rightarrow> hook_pc"
  quota_signalled :: "sockfd set"
  rsp_signalled :: "sockfd set"
  to_scheduler :: "byte list list"
  to_hooks :: "(sockfd \<times> byte list) list"
  issued :: nat

section \<open>hook_thread_func\<close>

definition set_pc :: "sockfd \<Rightarrow> hook_pc \<Rightarrow> pod_state \<Rightarrow> pod_state" where
  "set_pc k pc s = s\<lparr>hooks := (hooks s)(k := pc)\<rparr>"

definition respond :: "sockfd \<Rightarrow> comm_request_t \<Rightarrow> int32 \<Rightarrow> vararg list \<Rightarrow> pod_state \<Rightarrow> pod_state option" where
  "respond k req rid args s = do {
     (sbuf, len) \<leftarrow> prepare_response (replicate RSP_MSG_LEN 0) req rid args;
     Some (if len > 0 then s\<lparr>to_hooks := to_hooks s @ [(k, sbuf)]\<rparr> else s)
   }"

text \<open>One message of a hook library: memory requests are answered at once, a quota request starts
  \<^verbatim>\<open>hook_kernel_launch\<close>. \<open>None\<close>: the message points outside its buffer.\<close>

definition hook_message :: "sockfd \<Rightarrow> byte list \<Rightarrow> pod_state \<Rightarrow> pod_state option" where
  "hook_message k rbuf s = do {
     pr \<leftarrow> parse_request rbuf;
     let rid = pr_id pr;
     let attached = attached_data rbuf (pr_attached pr);
     (if pr_type pr = REQ_MEM_LIMIT then do {
        s \<leftarrow> respond k REQ_MEM_LIMIT rid [ASize (pod_mem_used (pod_account s)), ASize (pod_mem_limit (pod_account s))] s;
        Some (set_pc k (HRecv rbuf) s)
      }
      else if pr_type pr = REQ_MEM_UPDATE then do {
        (mem_size, pos) \<leftarrow> get_msg_data 8 word64 attached 0;
        (allocate, pos) \<leftarrow> get_msg_data 4 word32 attached pos;
        let (ok, account) = hook_update_memory_usage mem_size allocate k (pod_account s);
        s \<leftarrow> respond k REQ_MEM_UPDATE rid [AInt ok] (s\<lparr>pod_account := account\<rparr>);
        Some (set_pc k (HRecv rbuf) s)
      }
      else if pr_type pr = REQ_QUOTA then do {
        (overuse_ms, pos) \<leftarrow> get_msg_data 8 word64 attached 0;
        (burst, pos) \<leftarrow> get_msg_data 8 word64 attached pos;
        Some (set_pc k (HCheck (rbuf, rid) (double_of_bits overuse_ms) (double_of_bits burst)) s)
      }
      else Some (set_pc k (HRecv rbuf) s))
   }"

definition hook_connect :: "sockfd \<Rightarrow> byte list \<Rightarrow> pod_state \<Rightarrow> pod_state" where
  "hook_connect k buf s = set_pc k (HRecv buf)
     (s\<lparr>pod_account := mem_connect k (pod_account s),
        client_burst_map := (if map_of (client_burst_map s) k = None then client_burst_map s @ [(k, 0)]
                             else client_burst_map s)\<rparr>)"

definition hook_disconnect :: "sockfd \<Rightarrow> pod_state \<Rightarrow> pod_state" where
  "hook_disconnect k s = set_pc k HNone
     (s\<lparr>pod_account := mem_disconnect k (pod_account s), client_burst_map := AList.delete k (client_burst_map s)\<rparr>)"

section \<open>hook_kernel_launch\<close>

text \<open>The check of \<^verbatim>\<open>quota_state\<close> under its mutex: go on, or wait.\<close>

definition launch_check :: "sockfd \<Rightarrow> hook_ctx \<Rightarrow> double \<Rightarrow> double \<Rightarrow> pod_state \<Rightarrow> pod_state" where
  "launch_check k ctx overuse_ms burst s =
     (if quota_state s = 0 then set_pc k (HUpdate ctx overuse_ms burst) s
      else set_pc k (HQuotaWait ctx overuse_ms burst) (s\<lparr>quota_signalled := quota_signalled s - {k}\<rparr>))"

definition elapsed_ms :: "pod_state \<Rightarrow> double" where
  "elapsed_ms s = ms_of (pod_clock s - quota_updated_tp s)"

definition launch_update :: "sockfd \<Rightarrow> hook_ctx \<Rightarrow> double \<Rightarrow> double \<Rightarrow> pod_state \<Rightarrow> pod_state" where
  "launch_update k ctx overuse_ms burst s =
     (let s = s\<lparr>pod_overuse_ms := max overuse_ms (pod_overuse_ms s),
                client_burst_map := AList.update k burst (client_burst_map s)\<rparr>;
          elapsed_time = elapsed_ms s
      in if elapsed_time + burst > pod_quota s then set_pc k (HExpire ctx) s
         else set_pc k (HDone ctx elapsed_time) s)"

definition launch_claim :: "sockfd \<Rightarrow> hook_ctx \<Rightarrow> pod_state \<Rightarrow> pod_state" where
  "launch_claim k ctx s = set_pc k (HEnqueue ctx) (s\<lparr>quota_state := 1\<rparr>)"

definition max_burst :: "(sockfd \<times> double) list \<Rightarrow> double" where
  "max_burst m = fold (\<lambda>x b. max (snd x) b) m 0"

definition launch_estimate :: "sockfd \<Rightarrow> hook_ctx \<Rightarrow> pod_state \<Rightarrow> pod_state" where
  "launch_estimate k ctx s = set_pc k (HRequest ctx (max_burst (client_burst_map s))) s"

definition launch_enqueue :: "sockfd \<Rightarrow> hook_ctx \<Rightarrow> double \<Rightarrow> pod_state \<Rightarrow> pod_state option" where
  "launch_enqueue k ctx burst s = do {
     (req_id, st, sbuf) \<leftarrow> prepare_request (pod_env s) (pod_comm s) (replicate REQ_MSG_LEN 0) REQ_QUOTA
        [ADouble (bits_of_double (pod_overuse_ms s)), ADouble (bits_of_double burst)];
     Some (set_pc k (HAwait ctx req_id)
       (s\<lparr>pod_comm := st, request_queue := request_queue s @ [(req_id, sbuf)],
          sender_signalled := (sender_signalled s \<or> sender s = SWait), issued := issued s + 1\<rparr>))
   }"

definition launch_wait :: "sockfd \<Rightarrow> hook_ctx \<Rightarrow> int32 \<Rightarrow> pod_state \<Rightarrow> pod_state" where
  "launch_wait k ctx req_id s = set_pc k (HBlocked ctx req_id) (s\<lparr>rsp_signalled := rsp_signalled s - {k}\<rparr>)"

text \<open>After a wait: take the response if it is there, else go round the loop.\<close>

definition launch_complete :: "sockfd \<Rightarrow> hook_ctx \<Rightarrow> int32 \<Rightarrow> pod_state \<Rightarrow> pod_state option" where
  "launch_complete k ctx req_id s =
     (let s = s\<lparr>rsp_signalled := rsp_signalled s - {k}\<rparr> in
      case response_map s req_id of
        None \<Rightarrow> Some (set_pc k (HAwait ctx req_id) s)
      | Some data \<Rightarrow> do {
          (q, rpos) \<leftarrow> get_msg_data 8 word64 data 0;
          Some (set_pc k (HDone ctx 0)
            (s\<lparr>pod_quota := double_of_bits q, quota_updated_tp := pod_clock s, pod_overuse_ms := 0,
               response_map := (response_map s)(req_id := None)\<rparr>))
        })"

text \<open>The end of the function and the answer to the hook library.\<close>

definition launch_release :: "sockfd \<Rightarrow> hook_ctx \<Rightarrow> double \<Rightarrow> pod_state \<Rightarrow> pod_state" where
  "launch_release k ctx elapsed_time s = set_pc k (HReply ctx elapsed_time)
     (s\<lparr>quota_state := 0, quota_signalled := {j. \<exists>c x y. hooks s j = HQuotaWait c x y}\<rparr>)"

definition launch_return :: "sockfd \<Rightarrow> hook_ctx \<Rightarrow> double \<Rightarrow> pod_state \<Rightarrow> pod_state option" where
  "launch_return k ctx elapsed_time s = do {
     s \<leftarrow> respond k REQ_QUOTA (snd ctx) [ADouble (bits_of_double (pod_quota s - elapsed_time))] s;
     Some (set_pc k (HRecv (fst ctx)) s)
   }"

datatype thread_move = Run | Wake | Spurious

definition wakes :: "thread_move \<Rightarrow> bool \<Rightarrow> bool" where
  "wakes mv sig \<longleftrightarrow> mv = Wake \<and> sig \<or> mv = Spurious"

definition hook_step :: "thread_move \<Rightarrow> sockfd \<Rightarrow> pod_state \<Rightarrow> pod_state option" where
  "hook_step mv k s = (case hooks s k of
     HCheck ctx x y \<Rightarrow> if mv = Run then Some (launch_check k ctx x y s) else None
   | HQuotaWait ctx x y \<Rightarrow>
       if wakes mv (k \<in> quota_signalled s)
       then Some (set_pc k (HCheck ctx x y) (s\<lparr>quota_signalled := quota_signalled s - {k}\<rparr>)) else None
   | HUpdate ctx x y \<Rightarrow> if mv = Run then Some (launch_update k ctx x y s) else None
   | HExpire ctx \<Rightarrow> if mv = Run then Some (launch_claim k ctx s) else None
   | HEnqueue ctx \<Rightarrow> if mv = Run then Some (launch_estimate k ctx s) else None
   | HRequest ctx b \<Rightarrow> if mv = Run then launch_enqueue k ctx b s else None
   | HAwait ctx i \<Rightarrow> if mv = Run then Some (launch_wait k ctx i s) else None
   | HBlocked ctx i \<Rightarrow> if wakes mv (k \<in> rsp_signalled s) then launch_complete k ctx i s else None
   | HDone ctx e \<Rightarrow> if mv = Run then Some (launch_release k ctx e s) else None
   | HReply ctx e \<Rightarrow> if mv = Run then launch_return k ctx e s else None
   | _ \<Rightarrow> None)"

section \<open>The scheduler threads\<close>

text \<open>\<^verbatim>\<open>scheduler_thread_send_func\<close>: it waits first and looks at the queue afterwards; a request whose
  \<^verbatim>\<open>send\<close> fails is dropped.\<close>

definition sender_step :: "thread_move \<Rightarrow> bool \<Rightarrow> pod_state \<Rightarrow> pod_state option" where
  "sender_step mv send_ok s = (case sender s of
     SLoop \<Rightarrow> if mv = Run then Some (s\<lparr>sender := SWait, sender_signalled := False\<rparr>) else None
   | SWait \<Rightarrow>
       if wakes mv (sender_signalled s)
       then Some (let s = s\<lparr>sender := SLoop, sender_signalled := False\<rparr> in
                  case request_queue s of
                    [] \<Rightarrow> s
                  | req # rest \<Rightarrow>
                      s\<lparr>request_queue := rest,
                        to_scheduler := (if send_ok then to_scheduler s @ [snd req] else to_scheduler s)\<rparr>)
       else None)"

text \<open>\<^verbatim>\<open>scheduler_thread_recv_func\<close> on one received buffer; \<^verbatim>\<open>insert\<close> keeps an entry that exists.\<close>

definition receiver_step :: "byte list \<Rightarrow> pod_state \<Rightarrow> pod_state option" where
  "receiver_step buf s = do {
     (req_id, off) \<leftarrow> parse_response buf;
     let data = take (RSP_MSG_LEN - 4) (attached_data buf off);
     Some (s\<lparr>response_map := (if response_map s req_id = None then (response_map s)(req_id \<mapsto> data) else response_map s),
             rsp_signalled := {j. \<exists>c i. hooks s j = HBlocked c i}\<rparr>)
   }"

section \<open>The process\<close>

definition pod_init :: "pod_state \<Rightarrow> bool" where
  "pod_init s \<longleftrightarrow> (\<exists>limit. pod_account s = fresh_account limit) \<and> request_queue s = [] \<and> response_map s = Map.empty
     \<and> pod_overuse_ms s = 0 \<and> client_burst_map s = [] \<and> pod_quota s = 0 \<and> quota_updated_tp s = pod_clock s
     \<and> quota_state s = 0 \<and> sender s = SLoop \<and> \<not> sender_signalled s \<and> hooks s = (\<lambda>_. HNone)
     \<and> quota_signalled s = {} \<and> rsp_signalled s = {} \<and> to_scheduler s = [] \<and> to_hooks s = []
     \<and> issued s = 0"

inductive pod_step :: "pod_state \<Rightarrow> pod_state \<Rightarrow> bool" where
  pod_tick: "pod_clock s \<le> t \<Longrightarrow> pod_step s (s\<lparr>pod_clock := t\<rparr>)"
| pod_accept: "hooks s k = HNone \<Longrightarrow> length buf = REQ_MSG_LEN \<Longrightarrow> pod_step s (hook_connect k buf s)"
| pod_recv: "hooks s k = HRecv buf \<Longrightarrow> data \<noteq> [] \<Longrightarrow> length data \<le> REQ_MSG_LEN \<Longrightarrow>
    hook_message k (data @ drop (length data) buf) s = Some t \<Longrightarrow> pod_step s t"
| pod_close: "hooks s k = HRecv buf \<Longrightarrow> pod_step s (hook_disconnect k s)"
| pod_hook: "hook_step mv k s = Some t \<Longrightarrow> pod_step s t"
| pod_send: "sender_step mv ok s = Some t \<Longrightarrow> pod_step s t"
| pod_response: "length buf = RSP_MSG_LEN \<Longrightarrow> receiver_step buf s = Some t \<Longrightarrow> pod_step s t"

section \<open>The account and the request ids\<close>

definition awaiting :: "pod_state \<Rightarrow> sockfd \<rightharpoonup> int32" where
  "awaiting s k = (case hooks s k of HAwait _ i \<Rightarrow> Some i | HBlocked _ i \<Rightarrow> Some i | _ \<Rightarrow> None)"

lemma awaiting_set_pc:
  "awaiting (set_pc k pc s) = (awaiting s)(k := (case pc of HAwait _ i \<Rightarrow> Some i | HBlocked _ i \<Rightarrow> Some i | _ \<Rightarrow> None))"
  by (rule ext) (simp add: awaiting_def set_pc_def)

lemma awaiting_cong: "hooks t = hooks s \<Longrightarrow> awaiting t = awaiting s"
  by (rule ext) (simp add: awaiting_def)

lemma respond_frame:
  assumes "respond k req rid args s = Some t"
  shows "\<exists>out. t = s\<lparr>to_hooks := out\<rparr>"
proof -
  obtain p where "prepare_response (replicate RSP_MSG_LEN 0) req rid args = Some p"
      "t = (if 0 < snd p then s\<lparr>to_hooks := to_hooks s @ [(k, fst p)]\<rparr> else s)"
    using assms by (auto simp: respond_def bind_eq_Some_conv case_prod_unfold)
  then show ?thesis by (cases "0 < snd p") (auto intro: exI [of _ "to_hooks s"])
qed

text \<open>What a step may do to the account: nothing, or one operation of the ledger.\<close>

definition id_step :: "pod_state \<Rightarrow> pod_state \<Rightarrow> sockfd \<Rightarrow> bool" where
  "id_step s t k \<longleftrightarrow>
     (awaiting t = awaiting s \<or> awaiting t = (awaiting s)(k := None))
       \<and> issued t = issued s \<and> next_id (pod_comm t) = next_id (pod_comm s)
     \<or> awaiting t = (awaiting s)(k \<mapsto> next_id (pod_comm s))
       \<and> issued t = issued s + 1 \<and> next_id (pod_comm t) = next_id (pod_comm s) + 1"

lemma hook_message_frame:
  assumes "hook_message k rbuf s = Some t"
  shows "(pod_account t = pod_account s \<or> (\<exists>op. pod_account t = mem_step op (pod_account s))) \<and> id_step s t k"
proof -
  obtain pr where pr: "parse_request rbuf = Some pr" using assms by (auto simp: hook_message_def bind_eq_Some_conv)
  consider "pr_type pr = REQ_MEM_LIMIT" | "pr_type pr = REQ_MEM_UPDATE" | "pr_type pr = REQ_QUOTA"
    | w where "pr_type pr = REQ_UNKNOWN w" by (cases "pr_type pr") auto
  then show ?thesis
  proof cases
    case 1
    then obtain u where "respond k REQ_MEM_LIMIT (pr_id pr) [ASize (pod_mem_used (pod_account s)), ASize (pod_mem_limit (pod_account s))] s = Some u"
        "t = set_pc k (HRecv rbuf) u"
      using assms pr by (auto simp: hook_message_def bind_eq_Some_conv)
    then show ?thesis using respond_frame by (fastforce simp: id_step_def awaiting_set_pc cong: awaiting_cong simp: set_pc_def awaiting_def)
  next
    case 2
    then obtain n a u where u: "respond k REQ_MEM_UPDATE (pr_id pr) [AInt (fst (hook_update_memory_usage n a k (pod_account s)))]
        (s\<lparr>pod_account := snd (hook_update_memory_usage n a k (pod_account s))\<rparr>) = Some u" "t = set_pc k (HRecv rbuf) u"
      using assms pr by (auto simp: hook_message_def bind_eq_Some_conv case_prod_unfold Let_def)
    then obtain out where "u = s\<lparr>pod_account := mem_step (Update n a k) (pod_account s), to_hooks := out\<rparr>"
      using respond_frame by fastforce
    then have "pod_account t = mem_step (Update n a k) (pod_account s)" "id_step s t k"
      using u(2) by (auto simp: id_step_def awaiting_def set_pc_def fun_eq_iff)
    then show ?thesis by blast
  next
    case 3
    then obtain x y where "t = set_pc k (HCheck (rbuf, pr_id pr) x y) s"
      using assms pr by (auto simp: hook_message_def bind_eq_Some_conv Let_def)
    then show ?thesis by (auto simp: id_step_def awaiting_set_pc) (simp_all add: set_pc_def)
  next
    case 4
    then show ?thesis using assms pr by (auto simp: hook_message_def id_step_def awaiting_set_pc) (simp_all add: set_pc_def)
  qed
qed

lemma hook_step_frame:
  assumes "hook_step mv k s = Some t"
  shows "pod_account t = pod_account s \<and> id_step s t k"
proof (cases "hooks s k")
  case (HRequest ctx b)
  then show ?thesis
    using assms prepare_request_id
    by (auto simp: hook_step_def launch_enqueue_def bind_eq_Some_conv id_step_def set_pc_def awaiting_def fun_eq_iff
        split: if_splits)
next
  case (HBlocked ctx i)
  then show ?thesis
    using assms
    by (auto simp: hook_step_def launch_complete_def bind_eq_Some_conv id_step_def set_pc_def awaiting_def fun_eq_iff Let_def
        split: if_splits option.splits)
next
  case (HReply ctx e)
  then show ?thesis
    using assms
    by (auto simp: hook_step_def launch_return_def bind_eq_Some_conv id_step_def set_pc_def awaiting_def fun_eq_iff
        split: if_splits dest!: respond_frame)
qed (use assms in \<open>auto simp: hook_step_def launch_check_def launch_update_def launch_claim_def launch_estimate_def launch_release_def
       launch_wait_def id_step_def set_pc_def awaiting_def fun_eq_iff Let_def split: if_splits\<close>)

definition id_inv :: "int32 \<Rightarrow> pod_state \<Rightarrow> bool" where
  "id_inv base s \<longleftrightarrow> next_id (pod_comm s) = base + word_of_nat (issued s)
     \<and> (\<forall>k i. awaiting s k = Some i \<longrightarrow> (\<exists>j<issued s. i = base + word_of_nat j))
     \<and> (\<forall>j k i. awaiting s j = Some i \<longrightarrow> awaiting s k = Some i \<longrightarrow> j = k)"

lemma word32_of_nat_inj: "a < 2 ^ 32 \<Longrightarrow> b < 2 ^ 32 \<Longrightarrow> (word_of_nat a :: int32) = word_of_nat b \<Longrightarrow> a = b"
  by (simp add: word_of_nat_eq_iff take_bit_eq_mod)

lemma id_step_inv:
  assumes "id_inv base s" and "id_step s t k" and "issued t \<le> 2 ^ 32"
  shows "id_inv base t"
proof -
  have old: "id_inv base t" if "awaiting t = awaiting s \<or> awaiting t = (awaiting s)(k := None)" "issued t = issued s"
      "next_id (pod_comm t) = next_id (pod_comm s)"
    using assms(1) that by (auto simp: id_inv_def split: if_splits)
  have new: "id_inv base t" if new: "awaiting t = (awaiting s)(k \<mapsto> next_id (pod_comm s))" "issued t = issued s + 1"
      "next_id (pod_comm t) = next_id (pod_comm s) + 1"
  proof -
    have next_s: "next_id (pod_comm s) = base + word_of_nat (issued s)"
      and ids: "\<And>k i. awaiting s k = Some i \<Longrightarrow> \<exists>j<issued s. i = base + word_of_nat j"
      and inj: "\<And>j k i. awaiting s j = Some i \<Longrightarrow> awaiting s k = Some i \<Longrightarrow> j = k"
      using assms(1) by (auto simp: id_inv_def)
    have fresh: "awaiting s j \<noteq> Some (next_id (pod_comm s))" for j
    proof
      assume "awaiting s j = Some (next_id (pod_comm s))"
      then obtain l where l: "l < issued s" "(word_of_nat l :: int32) = word_of_nat (issued s)"
        using ids next_s by fastforce
      then show False using word32_of_nat_inj [of l "issued s"] assms(3) new(2) by simp
    qed
    have "\<exists>j<issued t. i = base + word_of_nat j" if "awaiting t l = Some i" for l i
    proof (cases "l = k")
      case True
      then show ?thesis using that new(1,2) next_s by auto
    next
      case False
      then have "awaiting s l = Some i" using that new(1) by simp
      then show ?thesis using ids [of l i] new(2) by (metis less_SucI Suc_eq_plus1)
    qed
    moreover have "j = l" if "awaiting t j = Some i" "awaiting t l = Some i" for j l i
      using that inj fresh unfolding new(1) by (auto split: if_splits)
    moreover have "next_id (pod_comm t) = base + word_of_nat (issued t)" using new(2,3) next_s by simp
    ultimately show ?thesis unfolding id_inv_def by blast
  qed
  show ?thesis using assms(2) old new by (auto simp: id_step_def)
qed

definition pod_inv :: "pod_state \<Rightarrow> bool" where
  "pod_inv s \<longleftrightarrow> pod.balanced (pod_account s) \<and> (issued s \<le> 2 ^ 32 \<longrightarrow> (\<exists>base. id_inv base s))"

lemma pod_step_frame:
  assumes "pod_step s t"
  shows "(pod_account t = pod_account s \<or> (\<exists>op. pod_account t = mem_step op (pod_account s))) \<and> (\<exists>k. id_step s t k)"
  using assms
proof (induction rule: pod_step.induct)
  case (pod_accept s k buf)
  have "pod_account (hook_connect k buf s) = mem_step (Connect k) (pod_account s)"
    by (simp add: hook_connect_def set_pc_def)
  moreover have "id_step s (hook_connect k buf s) k"
    by (auto simp: id_step_def hook_connect_def set_pc_def awaiting_def fun_eq_iff)
  ultimately show ?case by blast
next
  case (pod_recv s k buf data t)
  then show ?case using hook_message_frame by blast
next
  case (pod_close s k buf)
  have "pod_account (hook_disconnect k s) = mem_step (Disconnect k) (pod_account s)"
    by (simp add: hook_disconnect_def set_pc_def)
  moreover have "id_step s (hook_disconnect k s) k"
    by (auto simp: id_step_def hook_disconnect_def set_pc_def awaiting_def fun_eq_iff)
  ultimately show ?case by blast
next
  case (pod_hook mv k s t)
  then show ?case using hook_step_frame by blast
next
  case (pod_send mv ok s t)
  then show ?case
    by (auto simp: sender_step_def id_step_def awaiting_def fun_eq_iff Let_def split: sender_pc.splits if_splits list.splits)
next
  case (pod_response buf s t)
  then show ?case by (auto simp: receiver_step_def bind_eq_Some_conv id_step_def awaiting_def fun_eq_iff Let_def)
qed (auto simp: id_step_def awaiting_def fun_eq_iff)

lemma id_step_issued: "id_step s t k \<Longrightarrow> issued s \<le> issued t"
  by (auto simp: id_step_def)

lemma pod_inv_step: "pod_inv s \<Longrightarrow> pod_step s t \<Longrightarrow> pod_inv t"
  using pod_step_frame [of s t] pod.step_balanced [of "pod_account s" "pod_account t"] id_step_inv id_step_issued
  unfolding pod_inv_def by (metis le_trans)

lemma pod_inv_init: "pod_init s \<Longrightarrow> pod_inv s"
  using fresh_account_ok(2)
  by (auto simp: pod_inv_def pod_init_def id_inv_def awaiting_def intro!: exI [of _ "next_id (pod_comm s)"])

interpretation podm: inductive_invariant pod_init pod_step pod_inv
  by unfold_locales (use pod_inv_init pod_inv_step in auto)

section \<open>A launch request served without interference\<close>




text \<open>Every response a thread prepares fits and starts with the id of the request.\<close>

lemma respond_quota:
  "\<exists>buf off. respond k REQ_QUOTA rid [ADouble q] s = Some (s\<lparr>to_hooks := to_hooks s @ [(k, buf)]\<rparr>)
    \<and> parse_response buf = Some (rid, off) \<and> get_msg_data 8 word64 (attached_data buf off) 0 = Some (q, 8)"
proof -
  obtain buf off where "prepare_response (replicate RSP_MSG_LEN 0) REQ_QUOTA rid [ADouble q] = Some (buf, 12)"
      "parse_response buf = Some (rid, off)" "attached_data buf off = bytes64 q @ drop 12 (replicate RSP_MSG_LEN 0)"
    using prepare_response_parses [of "replicate RSP_MSG_LEN 0" REQ_QUOTA "[ADouble q]" "bytes64 q" rid] by auto
  moreover have "get_msg_data 8 word64 (bytes64 q @ drop 12 (replicate RSP_MSG_LEN 0)) 0 = Some (q, 8)"
    using d64.get_at [of "[]" q "drop 12 (replicate RSP_MSG_LEN 0)"] by (simp add: after_Nil RSP_MSG_LEN_def) (simp add: after_def)
  ultimately show ?thesis by (auto simp: respond_def)
qed

text \<open>The moves of one thread.\<close>

definition hook_move :: "sockfd \<Rightarrow> pod_state \<Rightarrow> pod_state \<Rightarrow> bool" where
  "hook_move k s t \<longleftrightarrow> (\<exists>mv. hook_step mv k s = Some t)"

lemma hook_moves_steps: "(hook_move k)\<^sup>*\<^sup>* s t \<Longrightarrow> pod_step\<^sup>*\<^sup>* s t"
  by (induction rule: rtranclp_induct) (auto simp: hook_move_def intro: rtranclp.rtrancl_into_rtrancl pod_hook)

lemma two_hook_steps: "hook_step mv k s = Some t \<Longrightarrow> (hook_move k)\<^sup>*\<^sup>* t u \<Longrightarrow> (hook_move k)\<^sup>*\<^sup>* s u"
  by (rule converse_rtranclp_into_rtranclp [of "hook_move k" s t u]) (auto simp: hook_move_def)

text \<open>The state in which a thread awaits its response, when its client is expected to go over quota.\<close>

definition claimed :: "sockfd \<Rightarrow> hook_ctx \<Rightarrow> double \<Rightarrow> double \<Rightarrow> byte list \<Rightarrow> pod_state \<Rightarrow> pod_state" where
  "claimed k ctx x y msg s =
     s\<lparr>pod_overuse_ms := max x (pod_overuse_ms s), client_burst_map := AList.update k y (client_burst_map s),
       quota_state := 1, pod_comm := \<lparr>client_name = Some (resolve_name (pod_env s) (pod_comm s)), next_id = next_id (pod_comm s) + 1\<rparr>,
       request_queue := request_queue s @ [(next_id (pod_comm s), msg)],
       sender_signalled := (sender_signalled s \<or> sender s = SWait), issued := issued s + 1,
       hooks := (hooks s)(k := HAwait ctx (next_id (pod_comm s)))\<rparr>"

definition pod_name :: "pod_state \<Rightarrow> string" where
  "pod_name s = resolve_name (pod_env s) (pod_comm s)"

definition named_pod :: "pod_state \<Rightarrow> bool" where
  "named_pod s \<longleftrightarrow> c_safe (pod_name s) \<and> length (pod_name s) \<le> 47"

lemma claimed_set_pc [simp]: "claimed k ctx x y msg (set_pc k pc s) = claimed k ctx x y msg s"
  by (simp add: claimed_def set_pc_def)

lemma launch_claims:
  assumes "hooks s k = HUpdate ctx x y" and "pod_quota s < elapsed_ms s + y" and "named_pod s"
  shows "\<exists>msg att. (hook_move k)\<^sup>*\<^sup>* s (claimed k ctx x y msg s)
    \<and> carries msg (pod_name s) (next_id (pod_comm s)) REQ_QUOTA att
    \<and> get_msg_data 8 word64 att 0 = Some (bits_of_double (max x (pod_overuse_ms s)), 8)
    \<and> get_msg_data 8 word64 att 8 = Some (bits_of_double (max_burst (AList.update k y (client_burst_map s))), 16)"
proof -
  let ?a = "bits_of_double (max x (pod_overuse_ms s))"
  let ?b = "bits_of_double (max_burst (AList.update k y (client_burst_map s)))"
  let ?r = "drop (17 + length (pod_name s) + 16) (replicate REQ_MSG_LEN (0 :: byte))"
  obtain msg where msg: "prepare_request (pod_env s) (pod_comm s) (replicate REQ_MSG_LEN 0) REQ_QUOTA [ADouble ?a, ADouble ?b] =
      Some (next_id (pod_comm s), \<lparr>client_name = Some (resolve_name (pod_env s) (pod_comm s)), next_id = next_id (pod_comm s) + 1\<rparr>, msg)"
    and car: "carries msg (pod_name s) (next_id (pod_comm s)) REQ_QUOTA (bytes64 ?a @ bytes64 ?b @ ?r)"
    using prepare_request_carries [of "replicate REQ_MSG_LEN 0" REQ_QUOTA "[ADouble ?a, ADouble ?b]" _ "pod_env s" "pod_comm s"] assms(3)
    by (auto simp: REQ_MSG_LEN_def named_pod_def pod_name_def)
  define s2 where "s2 = launch_update k ctx x y s"
  define s3 where "s3 = launch_claim k ctx s2"
  define s4 where "s4 = launch_estimate k ctx s3"
  have "hook_step Run k s = Some s2" by (simp add: hook_step_def assms(1) s2_def)
  moreover have h2: "s2 = s\<lparr>pod_overuse_ms := max x (pod_overuse_ms s), client_burst_map := AList.update k y (client_burst_map s),
      hooks := (hooks s)(k := HExpire ctx)\<rparr>"
    using assms(2) by (simp add: s2_def launch_update_def Let_def elapsed_ms_def set_pc_def)
  have "hook_step Run k s2 = Some s3" by (simp add: hook_step_def h2 s3_def)
  moreover have "hook_step Run k s3 = Some s4" by (simp add: hook_step_def s3_def s4_def launch_claim_def h2 set_pc_def)
  moreover have "hook_step Run k s4 = Some (claimed k ctx x y msg s)"
    by (simp add: hook_step_def s4_def s3_def launch_estimate_def launch_claim_def h2 set_pc_def launch_enqueue_def msg claimed_def)
  ultimately have "(hook_move k)\<^sup>*\<^sup>* s (claimed k ctx x y msg s)" by (meson two_hook_steps rtranclp.rtrancl_refl)
  moreover have "length (bytes64 ?a @ bytes64 ?b @ ?r) < 2 ^ 64" by (simp add: REQ_MSG_LEN_def)
  ultimately show ?thesis using car get_two_64 [of ?a ?b ?r] by blast
qed

lemma launch_passes:
  assumes "hooks s k = HCheck ctx x y" and "quota_state s = 0"
  shows "hook_step Run k s = Some (set_pc k (HUpdate ctx x y) s)"
  using assms by (simp add: hook_step_def launch_check_def)

lemma launch_expired:
  assumes "hooks s k = HCheck ctx x y" and "quota_state s = 0" and "pod_quota s < elapsed_ms s + y" and "named_pod s"
  shows "\<exists>msg att. (hook_move k)\<^sup>*\<^sup>* s (claimed k ctx x y msg s)
    \<and> carries msg (pod_name s) (next_id (pod_comm s)) REQ_QUOTA att
    \<and> get_msg_data 8 word64 att 0 = Some (bits_of_double (max x (pod_overuse_ms s)), 8)
    \<and> get_msg_data 8 word64 att 8 = Some (bits_of_double (max_burst (AList.update k y (client_burst_map s))), 16)"
proof -
  let ?s = "set_pc k (HUpdate ctx x y) s"
  have "hooks ?s k = HUpdate ctx x y" "pod_quota ?s < elapsed_ms ?s + y" "named_pod ?s"
    using assms(3,4) by (simp_all add: set_pc_def elapsed_ms_def named_pod_def pod_name_def)
  from launch_claims [OF this] obtain msg att where
      run: "(hook_move k)\<^sup>*\<^sup>* ?s (claimed k ctx x y msg s)"
    and car: "carries msg (pod_name ?s) (next_id (pod_comm ?s)) REQ_QUOTA att"
      "get_msg_data 8 word64 att 0 = Some (bits_of_double (max x (pod_overuse_ms ?s)), 8)"
      "get_msg_data 8 word64 att 8 = Some (bits_of_double (max_burst (AList.update k y (client_burst_map ?s))), 16)"
    by auto
  show ?thesis
    using two_hook_steps [OF launch_passes [OF assms(1,2)] run] car
    by (intro exI [of _ msg] exI [of _ att]) (simp add: set_pc_def pod_name_def)
qed

lemma launch_within:
  assumes "hooks s k = HCheck ctx x y" and "quota_state s = 0" and "elapsed_ms s + y \<le> pod_quota s"
  shows "\<exists>t buf off. (hook_move k)\<^sup>*\<^sup>* s t \<and> hooks t k = HRecv (fst ctx) \<and> request_queue t = request_queue s
    \<and> to_hooks t = to_hooks s @ [(k, buf)] \<and> parse_response buf = Some (snd ctx, off)
    \<and> get_msg_data 8 word64 (attached_data buf off) 0 = Some (bits_of_double (pod_quota s - elapsed_ms s), 8)"
proof -
  define s1 where "s1 = set_pc k (HUpdate ctx x y) s"
  define s2 where "s2 = launch_update k ctx x y s1"
  have s2: "s2 = s\<lparr>pod_overuse_ms := max x (pod_overuse_ms s), client_burst_map := AList.update k y (client_burst_map s),
      hooks := (hooks s)(k := HDone ctx (elapsed_ms s))\<rparr>"
    using assms(3) by (simp add: s2_def s1_def launch_update_def Let_def elapsed_ms_def set_pc_def)
  let ?u = "launch_release k ctx (elapsed_ms s) s2"
  obtain buf off where r: "respond k REQ_QUOTA (snd ctx) [ADouble (bits_of_double (pod_quota s - elapsed_ms s))] ?u =
      Some (?u\<lparr>to_hooks := to_hooks ?u @ [(k, buf)]\<rparr>)" "parse_response buf = Some (snd ctx, off)"
      "get_msg_data 8 word64 (attached_data buf off) 0 = Some (bits_of_double (pod_quota s - elapsed_ms s), 8)"
    using respond_quota by blast
  let ?t = "set_pc k (HRecv (fst ctx)) (?u\<lparr>to_hooks := to_hooks ?u @ [(k, buf)]\<rparr>)"
  have q: "pod_quota ?u = pod_quota s" by (simp add: s2 launch_release_def set_pc_def)
  have "hook_step Run k s = Some s1" unfolding s1_def by (rule launch_passes [OF assms(1,2)])
  moreover have "hook_step Run k s1 = Some s2" by (simp add: hook_step_def s1_def s2_def set_pc_def)
  moreover have "hook_step Run k s2 = Some ?u" by (simp add: hook_step_def s2)
  moreover have "hook_step Run k ?u = launch_return k ctx (elapsed_ms s) ?u" by (simp add: hook_step_def launch_release_def set_pc_def)
  then have "hook_step Run k ?u = Some ?t" using r(1) by (simp only: launch_return_def q Option.bind.bind_lunit)
  ultimately have "(hook_move k)\<^sup>*\<^sup>* s ?t" by (meson two_hook_steps rtranclp.rtrancl_refl)
  moreover have "hooks ?t k = HRecv (fst ctx)" "request_queue ?t = request_queue s" "to_hooks ?t = to_hooks s @ [(k, buf)]"
    by (simp_all add: set_pc_def s2 launch_release_def)
  ultimately show ?thesis using r(2,3) by blast
qed

lemma parse_response_off: "parse_response buf = Some (i, off) \<Longrightarrow> off = 4"
  by (auto simp: parse_response_def get_msg_data_def split: if_splits)

lemma receiver_stores:
  assumes "length buf = RSP_MSG_LEN" and "parse_response buf = Some (i, off)" and "response_map s i = None"
  shows "receiver_step buf s = Some (s\<lparr>response_map := (response_map s)(i \<mapsto> attached_data buf off),
    rsp_signalled := {j. \<exists>c i. hooks s j = HBlocked c i}\<rparr>)"
  using assms parse_response_off [OF assms(2)] by (simp add: receiver_step_def attached_data_def RSP_MSG_LEN_def)

lemma response_completes_launch:
  assumes "hooks s k = HBlocked ctx i" and "response_map s i = None" and "length rsp = RSP_MSG_LEN"
    and "parse_response rsp = Some (i, off)" and "get_msg_data 8 word64 (attached_data rsp off) 0 = Some (q, 8)"
  shows "\<exists>t buf off. pod_step\<^sup>*\<^sup>* s t \<and> hooks t k = HRecv (fst ctx) \<and> pod_quota t = double_of_bits q
    \<and> quota_updated_tp t = pod_clock s \<and> pod_overuse_ms t = 0 \<and> quota_state t = 0 \<and> response_map t = response_map s
    \<and> to_hooks t = to_hooks s @ [(k, buf)] \<and> parse_response buf = Some (snd ctx, off)
    \<and> get_msg_data 8 word64 (attached_data buf off) 0 = Some (bits_of_double (double_of_bits q), 8)"
proof -
  define s1 where "s1 = s\<lparr>response_map := (response_map s)(i \<mapsto> attached_data rsp off),
    rsp_signalled := {j. \<exists>c i. hooks s j = HBlocked c i}\<rparr>"
  define s2 where "s2 = s1\<lparr>rsp_signalled := rsp_signalled s1 - {k}, pod_quota := double_of_bits q, quota_updated_tp := pod_clock s,
    pod_overuse_ms := 0, response_map := response_map s, hooks := (hooks s)(k := HDone ctx 0)\<rparr>"
  have "pod_step s s1" unfolding s1_def by (rule pod_response [OF assms(3) receiver_stores [OF assms(3,4,2)]])
  moreover have "hook_step Wake k s1 = Some s2"
    using assms by (simp add: hook_step_def s1_def s2_def wakes_def launch_complete_def set_pc_def fun_upd_idem)
  then have "pod_step s1 s2" by (rule pod_hook)
  moreover let ?u = "launch_release k ctx 0 s2"
  obtain buf off where r: "respond k REQ_QUOTA (snd ctx) [ADouble (bits_of_double (double_of_bits q - 0))] ?u =
      Some (?u\<lparr>to_hooks := to_hooks ?u @ [(k, buf)]\<rparr>)" "parse_response buf = Some (snd ctx, off)"
      "get_msg_data 8 word64 (attached_data buf off) 0 = Some (bits_of_double (double_of_bits q - 0), 8)"
    using respond_quota by blast
  let ?t = "set_pc k (HRecv (fst ctx)) (?u\<lparr>to_hooks := to_hooks ?u @ [(k, buf)]\<rparr>)"
  have q: "pod_quota ?u = double_of_bits q" by (simp add: s2_def launch_release_def set_pc_def)
  have "hook_step Run k s2 = Some ?u" by (simp add: hook_step_def s2_def)
  then have "pod_step s2 ?u" by (rule pod_hook)
  moreover have "hook_step Run k ?u = launch_return k ctx 0 ?u" by (simp add: hook_step_def launch_release_def set_pc_def)
  then have "hook_step Run k ?u = Some ?t" using r(1) by (simp only: launch_return_def q Option.bind.bind_lunit)
  then have "pod_step ?u ?t" by (rule pod_hook)
  ultimately have "pod_step\<^sup>*\<^sup>* s ?t" by (meson converse_rtranclp_into_rtranclp rtranclp.rtrancl_refl)
  moreover have "hooks ?t k = HRecv (fst ctx)" "pod_quota ?t = double_of_bits q" "quota_updated_tp ?t = pod_clock s"
      "pod_overuse_ms ?t = 0" "quota_state ?t = 0" "response_map ?t = response_map s" "to_hooks ?t = to_hooks s @ [(k, buf)]"
    by (simp_all add: set_pc_def s2_def s1_def launch_release_def)
  ultimately show ?thesis using r(2,3) by (simp only: diff_0_right) blast
qed

section \<open>A pod with one connection\<close>

lemma hook_message_quota:
  assumes "carries msg name rid REQ_QUOTA att" and "get_msg_data 8 word64 att 0 = Some (a, 8)"
    and "get_msg_data 8 word64 att 8 = Some (b, 16)"
  shows "hook_message k msg s = Some (set_pc k (HCheck (msg, rid) (double_of_bits a) (double_of_bits b)) s)"
  using assms by (auto simp: carries_def hook_message_def Let_def)

text \<open>The sender already waits, client 5 is connected and asks for a token for a burst of some
  positive length.\<close>

definition pod_boot :: pod_state where
  "pod_boot = \<lparr>pod_env = \<lparr>env_pod_name = Some ''pod1'', env_hostname = ''node''\<rparr>, pod_comm = comm_init, pod_clock = 0,
     pod_account = fresh_account 4096, request_queue = [], response_map = Map.empty, pod_overuse_ms = 0,
     client_burst_map = [], pod_quota = 0, quota_updated_tp = 0, quota_state = 0, sender = SLoop, sender_signalled = False,
     hooks = (\<lambda>_. HNone), quota_signalled = {}, rsp_signalled = {}, to_scheduler = [], to_hooks = [], issued = 0\<rparr>"

definition launch_message :: "byte list" where
  "launch_message = request_header ''pod1'' 7 REQ_QUOTA @ bytes64 0 @ bytes64 1 @ replicate 43 0"

definition tiny_burst :: double where "tiny_burst = double_of_bits 1"

definition ask :: "sockfd \<Rightarrow> pod_state \<Rightarrow> pod_state" where
  "ask k s = set_pc k (HCheck (launch_message, 7) (double_of_bits 0) tiny_burst) (hook_connect k (replicate 80 0) s)"

lemma tiny_burst_pos: "0 < tiny_burst"
  by (simp add: tiny_burst_def double_of_bits_def magnitude_def bits_exponent_def bits_mantissa_def)

lemma ask_message: "hook_message k launch_message (hook_connect k (replicate 80 0) s) = Some (ask k s)"
proof -
  have "carries launch_message ''pod1'' 7 REQ_QUOTA (bytes64 0 @ bytes64 1 @ replicate 43 0)"
    unfolding launch_message_def by (rule carries_request_header) (simp_all add: c_safe_def)
  then show ?thesis
    using hook_message_quota [of launch_message "''pod1''" 7 _ 0 1] get_two_64 [of 0 1 "replicate 43 0"]
    by (simp add: ask_def tiny_burst_def)
qed

lemma ask_reachable: "hooks s k = HNone \<Longrightarrow> pod_step\<^sup>*\<^sup>* s (ask k s)"
proof -
  assume none: "hooks s k = HNone"
  let ?s = "hook_connect k (replicate 80 0) s"
  have "pod_step s ?s" using none by (intro pod_accept) (simp_all add: REQ_MSG_LEN_def)
  moreover have "pod_step ?s (ask k s)"
    using pod_recv [of ?s k "replicate 80 0" launch_message "ask k s"] ask_message [of k s]
    by (simp add: hook_connect_def set_pc_def launch_message_def REQ_MSG_LEN_def)
  ultimately show ?thesis by (meson converse_rtranclp_into_rtranclp rtranclp.rtrancl_refl)
qed

definition pod_asked :: pod_state where
  "pod_asked = ask 5 (pod_boot\<lparr>sender := SWait\<rparr>)"

lemma pod_boot_init: "pod_init pod_boot"
  by (auto simp: pod_init_def pod_boot_def)

lemma reach_rtranclp: "reach init step s \<Longrightarrow> step\<^sup>*\<^sup>* s t \<Longrightarrow> reach init step t"
  by (rotate_tac 1, induction rule: rtranclp_induct) (auto intro: reach_step)

lemma pod_asked_reachable: "reach pod_init pod_step pod_asked"
proof -
  have "pod_step pod_boot (pod_boot\<lparr>sender := SWait\<rparr>)"
    by (rule pod_send [of Run True]) (simp add: sender_step_def pod_boot_def)
  moreover have "pod_step\<^sup>*\<^sup>* (pod_boot\<lparr>sender := SWait\<rparr>) pod_asked"
    unfolding pod_asked_def by (rule ask_reachable) (simp add: pod_boot_def)
  ultimately show ?thesis using pod_boot_init reach_rtranclp by (meson reach.intros)
qed

lemma pod_asked_sel:
  "hooks pod_asked = (\<lambda>_. HNone)(5 := HCheck (launch_message, 7) (double_of_bits 0) tiny_burst)"
  "quota_state pod_asked = 0" "pod_quota pod_asked = 0" "elapsed_ms pod_asked = 0" "sender pod_asked = SWait"
  "request_queue pod_asked = []" "response_map pod_asked = Map.empty" "sender_signalled pod_asked = False"
  "pod_name pod_asked = ''pod1''" "next_id (pod_comm pod_asked) = 0" "to_hooks pod_asked = []"
  "client_burst_map pod_asked = [(5, 0)]" "pod_overuse_ms pod_asked = 0"
  by (simp_all add: pod_asked_def ask_def hook_connect_def set_pc_def pod_boot_def elapsed_ms_def ms_of_def
      to_microseconds_def sdiv_nonneg pod_name_def resolve_name_def comm_init_def)

lemma pod_asked_named: "named_pod pod_asked"
  by (simp add: named_pod_def pod_asked_sel c_safe_def)

lemma pod_asked_expired: "pod_quota pod_asked < elapsed_ms pod_asked + tiny_burst"
  using tiny_burst_pos by (simp add: pod_asked_sel)

text \<open>The run that loses a response: the request is sent, the response arrives, and only then does
  the thread that asked enter its wait.\<close>

definition lost :: "byte list \<Rightarrow> byte list \<Rightarrow> pod_state \<Rightarrow> pod_state" where
  "lost msg data s =
     s\<lparr>sender := SWait, sender_signalled := False, request_queue := [], to_scheduler := to_scheduler s @ [msg],
       response_map := [0 \<mapsto> data], rsp_signalled := {}, hooks := (\<lambda>_. HNone)(5 := HBlocked (launch_message, 7) 0)\<rparr>"

lemma lost_reachable:
  "\<exists>msg rsp off. reach pod_init pod_step
     (lost msg (attached_data rsp off) (claimed 5 (launch_message, 7) (double_of_bits 0) tiny_burst msg pod_asked))"
proof -
  let ?ctx = "(launch_message, 7 :: int32)"
  obtain msg where r: "pod_step\<^sup>*\<^sup>* pod_asked (claimed 5 ?ctx (double_of_bits 0) tiny_burst msg pod_asked)"
    using launch_expired [OF _ pod_asked_sel(2) pod_asked_expired pod_asked_named, of 5 ?ctx "double_of_bits 0"] hook_moves_steps
    by (fastforce simp: pod_asked_sel)
  define c where "c = claimed 5 ?ctx (double_of_bits 0) tiny_burst msg pod_asked"
  have c: "sender c = SWait" "sender_signalled c" "request_queue c = [(0, msg)]" "response_map c = Map.empty"
      "hooks c = (\<lambda>_. HNone)(5 := HAwait ?ctx 0)"
    by (simp_all add: c_def claimed_def pod_asked_sel)
  define c1 where "c1 = c\<lparr>sender := SLoop, sender_signalled := False, request_queue := [], to_scheduler := to_scheduler c @ [msg]\<rparr>"
  obtain rsp off where rsp: "length rsp = RSP_MSG_LEN" "parse_response rsp = Some (0, off)"
    using prepare_response_parses [of "replicate RSP_MSG_LEN 0" REQ_QUOTA "[ADouble 0]" "bytes64 0" 0] by auto
  define c2 where "c2 = c1\<lparr>response_map := [0 \<mapsto> attached_data rsp off], rsp_signalled := {}\<rparr>"
  define c3 where "c3 = c2\<lparr>hooks := (hooks c2)(5 := HBlocked ?ctx 0)\<rparr>"
  have "pod_step c c1"
    by (rule pod_send [of Wake True]) (simp add: sender_step_def c c1_def wakes_def Let_def)
  moreover have "receiver_step rsp c1 = Some c2"
    using receiver_stores [OF rsp] c by (simp add: c1_def c2_def)
  then have "pod_step c1 c2" by (rule pod_response [OF rsp(1)])
  moreover have "pod_step c2 c3"
    by (rule pod_hook [of Run 5]) (simp add: hook_step_def c2_def c1_def c c3_def launch_wait_def set_pc_def)
  moreover have "pod_step c3 (lost msg (attached_data rsp off) c)"
    by (rule pod_send [of Run True]) (simp add: sender_step_def c3_def c2_def c1_def c lost_def)
  ultimately have "pod_step\<^sup>*\<^sup>* c (lost msg (attached_data rsp off) c)"
    by (meson converse_rtranclp_into_rtranclp rtranclp.rtrancl_refl)
  then show ?thesis using reach_rtranclp [OF pod_asked_reachable] r unfolding c_def by (meson rtranclp_trans)
qed

section \<open>Properties\<close>

text \<open>The pod's account survives all interleavings: in every reachable state of the pod manager
  the used memory is the sum of the connections' entries modulo \<open>2^64\<close>.\<close>

lemma pod_account_balanced:
  assumes "reach pod_init pod_step s"
  shows "pod_mem_used (pod_account s) = map_total (allocation_map (pod_account s))"
  using podm.reach_inv [OF assms] by (simp add: pod_inv_def pod.balanced_def)

text \<open>C31. Responses cannot be confused: as long as no more than \<open>2^32\<close> requests have been made, no two
  hook threads wait for a response with the same id.\<close>

theorem request_ids_unique:
  assumes "reach pod_init pod_step s" and "issued s \<le> 2 ^ 32"
    and "awaiting s j = Some i" and "awaiting s k = Some i"
  shows "j = k"
  using podm.reach_inv [OF assms(1)] assms(2-4) by (auto simp: pod_inv_def id_inv_def)

theorem request_ids_unique_witness:
  "\<exists>s. reach pod_init pod_step s \<and> awaiting s 5 = Some 0 \<and> awaiting s 6 \<noteq> Some 0"
proof -
  obtain msg rsp off where r: "reach pod_init pod_step
      (lost msg (attached_data rsp off) (claimed 5 (launch_message, 7) (double_of_bits 0) tiny_burst msg pod_asked))"
    using lost_reachable by blast
  let ?s = "lost msg (attached_data rsp off) (claimed 5 (launch_message, 7) (double_of_bits 0) tiny_burst msg pod_asked)"
  have i: "issued ?s \<le> 2 ^ 32" "awaiting ?s 5 = Some 0"
    by (simp_all add: lost_def claimed_def pod_asked_def ask_def set_pc_def hook_connect_def pod_boot_def awaiting_def)
  then have "awaiting ?s 6 \<noteq> Some 0" using request_ids_unique [OF r i(1,2), of 6] by auto
  then show ?thesis using r i(2) by blast
qed

text \<open>A launch the quota still covers is answered at once: when no other thread works with the
  quota and the elapsed time plus the announced burst is within it, the thread answers with the
  remaining time, which covers the burst, without asking the scheduler.\<close>

lemma launch_within_quota:
  assumes "hooks s k = HCheck ctx overuse burst" and "quota_state s = 0" and "elapsed_ms s + burst \<le> pod_quota s"
  shows "\<exists>t buf off. pod_step\<^sup>*\<^sup>* s t \<and> hooks t k = HRecv (fst ctx) \<and> request_queue t = request_queue s
    \<and> to_hooks t = to_hooks s @ [(k, buf)] \<and> parse_response buf = Some (snd ctx, off)
    \<and> get_msg_data 8 word64 (attached_data buf off) 0 = Some (bits_of_double (pod_quota s - elapsed_ms s), 8)
    \<and> burst \<le> pod_quota s - elapsed_ms s"
proof -
  have "burst \<le> pod_quota s - elapsed_ms s" using assms(3) by linarith
  then show ?thesis using launch_within [OF assms] hook_moves_steps by blast
qed



text \<open>C39. The wait for a response can miss it: there is a reachable state in which the response to a
  thread's request is in the map, the thread is blocked in the wait it entered afterwards without
  looking, the quota is marked as being updated, and no thread of the pod manager can run unless a
  wait ends spuriously or a new message arrives.\<close>

theorem response_can_be_missed:
  "\<exists>s k ctx i. reach pod_init pod_step s \<and> hooks s k = HBlocked ctx i \<and> response_map s i \<noteq> None
     \<and> quota_state s = 1 \<and> request_queue s = []
     \<and> (\<forall>mv ok j. mv \<noteq> Spurious \<longrightarrow> hook_step mv j s = None \<and> sender_step mv ok s = None)"
proof -
  obtain msg rsp off where r: "reach pod_init pod_step
      (lost msg (attached_data rsp off) (claimed 5 (launch_message, 7) (double_of_bits 0) tiny_burst msg pod_asked))"
    using lost_reachable by blast
  let ?s = "lost msg (attached_data rsp off) (claimed 5 (launch_message, 7) (double_of_bits 0) tiny_burst msg pod_asked)"
  have "hooks ?s 5 = HBlocked (launch_message, 7) 0" "response_map ?s 0 \<noteq> None" "quota_state ?s = 1" "request_queue ?s = []"
    by (simp_all add: lost_def claimed_def)
  moreover have "hook_step mv j ?s = None \<and> sender_step mv ok ?s = None" if "mv \<noteq> Spurious" for mv j ok
    using that by (simp add: hook_step_def sender_step_def lost_def wakes_def)
  ultimately show ?thesis using r by blast
qed

theorem response_can_be_missed_witness:
  "\<exists>s k. reach pod_init pod_step s \<and> hook_step Run k s = None \<and> hook_step Wake k s = None \<and> awaiting s k \<noteq> None"
proof -
  obtain s k ctx i where s: "reach pod_init pod_step s" "hooks s k = HBlocked ctx i"
      "\<forall>mv ok j. mv \<noteq> Spurious \<longrightarrow> hook_step mv j s = None \<and> sender_step mv ok s = None"
    using response_can_be_missed by blast
  have "hook_step Run k s = None" "hook_step Wake k s = None" using s(3) by blast+
  then show ?thesis using s(1,2) by (intro exI [of _ s] exI [of _ k]) (simp add: awaiting_def)
qed

end
