(* ===== verification/Gem_Intercept.thy ===== *)
theory Gem_Intercept
  imports Gem_Prelude
begin

text \<open>
  The interposition layer of the hook library, \<^verbatim>\<open>src/src/hook.h\<close> and \<^verbatim>\<open>src/src/hook.cpp\<close>: the
  enumeration of hooked symbols, the replacement of \<^verbatim>\<open>dlsym\<close>, the hook tables filled by
  \<^verbatim>\<open>initialize\<close>, and the function that the macro \<^verbatim>\<open>CU_HOOK_GENERATE_INTERCEPT\<close> generates for every
  driver call.

  The header \<^verbatim>\<open>cuda.h\<close> maps many function names to versioned ones (\<^verbatim>\<open>cuMemAlloc\<close> to
  \<^verbatim>\<open>cuMemAlloc_v2\<close>); that mapping, which \<^verbatim>\<open>CUDA_SYMBOL_STRING\<close> applies, is the parameter
  \<open>expand\<close>. The driver function behind a symbol is the parameter \<open>real_func\<close>.
\<close>

section \<open>Hooked symbols\<close>

datatype HookSymbols =
    CU_HOOK_MEM_ALLOC
  | CU_HOOK_MEM_ALLOC_MANAGED
  | CU_HOOK_MEM_ALLOC_PITCH
  | CU_HOOK_MEM_FREE
  | CU_HOOK_ARRAY_CREATE
  | CU_HOOK_ARRAY3D_CREATE
  | CU_HOOK_MIPMAPPED_ARRAY_CREATE
  | CU_HOOK_ARRAY_DESTROY
  | CU_HOOK_MIPMAPPED_ARRAY_DESTROY
  | CU_HOOK_CTX_GET_CURRENT
  | CU_HOOK_CTX_SET_CURRENT
  | CU_HOOK_CTX_CREATE
  | CU_HOOK_CTX_DESTROY
  | CU_HOOK_CTX_POP_CURRENT
  | CU_HOOK_CTX_PUSH_CURRENT
  | CU_HOOK_DEVICE_PRIMARY_CTX_RETAIN
  | CU_HOOK_DEVICE_PRIMARY_CTX_RESET
  | CU_HOOK_DEVICE_PRIMARY_CTX_RELEASE
  | CU_HOOK_LAUNCH_KERNEL
  | CU_HOOK_LAUNCH_COOPERATIVE_KERNEL
  | CU_HOOK_DEVICE_TOTOAL_MEM
  | CU_HOOK_MEM_INFO
  | CU_HOOK_CTX_SYNC
  | CU_HOOK_MEMCPY_ATOH
  | CU_HOOK_MEMCPY_DTOH
  | CU_HOOK_MEMCPY_HTOA
  | CU_HOOK_MEMCPY_HTOD

section \<open>dlsym\<close>

text \<open>The result of a lookup: one of the library's own functions, by name, or what the real
  \<^verbatim>\<open>dlsym\<close> returns.\<close>

datatype symbol_address = Interposed string | RealDlsym string

text \<open>The names compared, in the order of the \<^verbatim>\<open>if\<close> chain.\<close>

definition dlsym_names :: "string list" where
  "dlsym_names = [''cuMemAlloc'', ''cuMemAllocManaged'', ''cuMemAllocPitch'', ''cuMemFree'', ''cuArrayCreate'',
     ''cuArray3DCreate'', ''cuArrayDestroy'', ''cuMipmappedArrayCreate'', ''cuMipmappedArrayDestroy'',
     ''cuLaunchKernel'', ''cuLaunchCooperativeKernel'', ''cuMemGetInfo'', ''cuCtxSynchronize'', ''cuMemcpyAtoH'',
     ''cuMemcpyDtoH'', ''cuMemcpyDtoHAsync'', ''cuMemcpyHtoA'', ''cuMemcpyHtoD'', ''cuCtxSetCurrent'',
     ''cuCtxDestroy'', ''cuCtxCreate'', ''cuDevicePrimaryCtxReset'', ''cuDevicePrimaryCtxRelease'',
     ''cuCtxPopCurrent'', ''cuCtxPushCurrent'']"

definition dlsym :: "(string \<Rightarrow> string) \<Rightarrow> string \<Rightarrow> symbol_address" where
  "dlsym expand symbol =
     (if take 2 symbol \<noteq> ''cu'' then RealDlsym symbol
      else case find (\<lambda>n. symbol = expand n) dlsym_names of
             Some n \<Rightarrow> Interposed n
           | None \<Rightarrow> RealDlsym symbol)"

section \<open>The hook tables\<close>

text \<open>The functions whose addresses \<^verbatim>\<open>initialize\<close> stores.\<close>

datatype hook_fn =
    fp_cuMemcpyAtoH_posthook | fp_cuMemcpyDtoH_posthook | fp_cuMemcpyHtoA_posthook | fp_cuMemcpyHtoD_posthook
  | fp_cuCtxSynchronize_posthook
  | fp_cuMemAlloc_posthook | fp_cuMemAllocManaged_posthook | fp_cuMemAllocPitch_posthook
  | fp_cuArrayCreate_posthook | fp_cuArray3DCreate_posthook | fp_cuMipmappedArrayCreate_posthook
  | fp_cuMemFree_prehook | fp_cuArrayDestroy_prehook | fp_cuMipmappedArrayDestroy_prehook
  | fp_cuLaunchKernel_prehook | fp_cuLaunchCooperativeKernel_prehook
  | fp_cuMemAlloc_prehook | fp_cuMemAllocManaged_prehook | fp_cuMemAllocPitch_prehook
  | fp_cuArrayCreate_prehook | fp_cuArray3DCreate_prehook | fp_cuMipmappedArrayCreate_prehook

record hookInfo =
  debug_mode :: bool
  preHooks :: "HookSymbols \<Rightarrow> hook_fn option"
  postHooks :: "HookSymbols \<Rightarrow> hook_fn option"
  call_count :: "HookSymbols \<Rightarrow> int32"

text \<open>The object has static storage: its tables start as null pointers and its counters as zero; the
  constructor reads \<^verbatim>\<open>CU_HOOK_DEBUG\<close>.\<close>

definition new_hookInfo :: "string option \<Rightarrow> hookInfo" where
  "new_hookInfo envHookDebug =
     \<lparr>debug_mode = (case envHookDebug of Some (c # _) \<Rightarrow> c = CHR ''1'' | _ \<Rightarrow> False),
      preHooks = (\<lambda>_. None), postHooks = (\<lambda>_. None), call_count = (\<lambda>_. 0)\<rparr>"

text \<open>The part of \<^verbatim>\<open>initialize\<close> that places the hooks.\<close>

definition place_hooks :: "hookInfo \<Rightarrow> hookInfo" where
  "place_hooks h = h\<lparr>
     postHooks := (postHooks h)(
       CU_HOOK_MEMCPY_ATOH \<mapsto> fp_cuMemcpyAtoH_posthook,
       CU_HOOK_MEMCPY_DTOH \<mapsto> fp_cuMemcpyDtoH_posthook,
       CU_HOOK_MEMCPY_HTOA \<mapsto> fp_cuMemcpyHtoA_posthook,
       CU_HOOK_MEMCPY_HTOD \<mapsto> fp_cuMemcpyHtoD_posthook,
       CU_HOOK_CTX_SYNC \<mapsto> fp_cuCtxSynchronize_posthook,
       CU_HOOK_MEM_ALLOC \<mapsto> fp_cuMemAlloc_posthook,
       CU_HOOK_MEM_ALLOC_MANAGED \<mapsto> fp_cuMemAllocManaged_posthook,
       CU_HOOK_MEM_ALLOC_PITCH \<mapsto> fp_cuMemAllocPitch_posthook,
       CU_HOOK_ARRAY_CREATE \<mapsto> fp_cuArrayCreate_posthook,
       CU_HOOK_ARRAY3D_CREATE \<mapsto> fp_cuArray3DCreate_posthook,
       CU_HOOK_MIPMAPPED_ARRAY_CREATE \<mapsto> fp_cuMipmappedArrayCreate_posthook),
     preHooks := (preHooks h)(
       CU_HOOK_MEM_FREE \<mapsto> fp_cuMemFree_prehook,
       CU_HOOK_ARRAY_DESTROY \<mapsto> fp_cuArrayDestroy_prehook,
       CU_HOOK_MIPMAPPED_ARRAY_DESTROY \<mapsto> fp_cuMipmappedArrayDestroy_prehook,
       CU_HOOK_LAUNCH_KERNEL \<mapsto> fp_cuLaunchKernel_prehook,
       CU_HOOK_LAUNCH_COOPERATIVE_KERNEL \<mapsto> fp_cuLaunchCooperativeKernel_prehook,
       CU_HOOK_MEM_ALLOC \<mapsto> fp_cuMemAlloc_prehook,
       CU_HOOK_MEM_ALLOC_MANAGED \<mapsto> fp_cuMemAllocManaged_prehook,
       CU_HOOK_MEM_ALLOC_PITCH \<mapsto> fp_cuMemAllocPitch_prehook,
       CU_HOOK_ARRAY_CREATE \<mapsto> fp_cuArrayCreate_prehook,
       CU_HOOK_ARRAY3D_CREATE \<mapsto> fp_cuArray3DCreate_prehook,
       CU_HOOK_MIPMAPPED_ARRAY_CREATE \<mapsto> fp_cuMipmappedArrayCreate_prehook)\<rparr>"

section \<open>Parameter types\<close>

text \<open>The parameter types of the intercepted functions (the \<^verbatim>\<open>params\<close> of each macro call) and of the
  hooks: a hook pointer is cast to the function type of its symbol before it is called.\<close>

datatype ctype =
    TVoidPtr | TConstVoidPtr | TVoidPtrPtr | TSize | TSizePtr | TUInt | TDevicePtr | TDevicePtrPtr | TArray | TArrayPtr
  | TMipmappedArray | TMipmappedArrayPtr | TArrayDesc | TArray3DDesc | TStream | TFunction | TContext | TContextPtr | TDevice

fun symbol_params :: "HookSymbols \<Rightarrow> ctype list" where
  "symbol_params CU_HOOK_MEM_ALLOC = [TDevicePtrPtr, TSize]"
| "symbol_params CU_HOOK_MEM_ALLOC_MANAGED = [TDevicePtrPtr, TSize, TUInt]"
| "symbol_params CU_HOOK_MEM_ALLOC_PITCH = [TDevicePtrPtr, TSizePtr, TSize, TSize, TUInt]"
| "symbol_params CU_HOOK_MEM_FREE = [TDevicePtr]"
| "symbol_params CU_HOOK_ARRAY_CREATE = [TArrayPtr, TArrayDesc]"
| "symbol_params CU_HOOK_ARRAY3D_CREATE = [TArrayPtr, TArray3DDesc]"
| "symbol_params CU_HOOK_MIPMAPPED_ARRAY_CREATE = [TMipmappedArrayPtr, TArray3DDesc, TUInt]"
| "symbol_params CU_HOOK_ARRAY_DESTROY = [TArray]"
| "symbol_params CU_HOOK_MIPMAPPED_ARRAY_DESTROY = [TMipmappedArray]"
| "symbol_params CU_HOOK_CTX_GET_CURRENT = [TContextPtr]"
| "symbol_params CU_HOOK_CTX_SET_CURRENT = [TContext]"
| "symbol_params CU_HOOK_CTX_CREATE = [TContextPtr, TUInt, TDevice]"
| "symbol_params CU_HOOK_CTX_DESTROY = [TContext]"
| "symbol_params CU_HOOK_CTX_POP_CURRENT = [TContextPtr]"
| "symbol_params CU_HOOK_CTX_PUSH_CURRENT = [TContext]"
| "symbol_params CU_HOOK_DEVICE_PRIMARY_CTX_RETAIN = [TContextPtr, TDevice]"
| "symbol_params CU_HOOK_DEVICE_PRIMARY_CTX_RESET = [TDevice]"
| "symbol_params CU_HOOK_DEVICE_PRIMARY_CTX_RELEASE = [TDevice]"
| "symbol_params CU_HOOK_LAUNCH_KERNEL =
     [TFunction, TUInt, TUInt, TUInt, TUInt, TUInt, TUInt, TUInt, TStream, TVoidPtrPtr, TVoidPtrPtr]"
| "symbol_params CU_HOOK_LAUNCH_COOPERATIVE_KERNEL =
     [TFunction, TUInt, TUInt, TUInt, TUInt, TUInt, TUInt, TUInt, TStream, TVoidPtrPtr]"
| "symbol_params CU_HOOK_DEVICE_TOTOAL_MEM = [TSizePtr, TDevice]"
| "symbol_params CU_HOOK_MEM_INFO = [TSizePtr, TSizePtr]"
| "symbol_params CU_HOOK_CTX_SYNC = []"
| "symbol_params CU_HOOK_MEMCPY_ATOH = [TVoidPtr, TArray, TSize, TSize]"
| "symbol_params CU_HOOK_MEMCPY_DTOH = [TVoidPtr, TDevicePtr, TSize]"
| "symbol_params CU_HOOK_MEMCPY_HTOA = [TArray, TSize, TConstVoidPtr, TSize]"
| "symbol_params CU_HOOK_MEMCPY_HTOD = [TDevicePtr, TConstVoidPtr, TSize]"

fun hook_params :: "hook_fn \<Rightarrow> ctype list" where
  "hook_params fp_cuMemcpyAtoH_posthook = [TVoidPtr, TArray, TSize, TSize]"
| "hook_params fp_cuMemcpyDtoH_posthook = [TVoidPtr, TDevicePtr, TSize]"
| "hook_params fp_cuMemcpyHtoA_posthook = [TArray, TSize, TConstVoidPtr, TSize]"
| "hook_params fp_cuMemcpyHtoD_posthook = [TArray, TSize, TConstVoidPtr, TSize, TStream]"
| "hook_params fp_cuCtxSynchronize_posthook = []"
| "hook_params fp_cuMemAlloc_posthook = [TDevicePtrPtr, TSize]"
| "hook_params fp_cuMemAllocManaged_posthook = [TDevicePtrPtr, TSize, TUInt]"
| "hook_params fp_cuMemAllocPitch_posthook = [TDevicePtrPtr, TSizePtr, TSize, TSize, TUInt]"
| "hook_params fp_cuArrayCreate_posthook = [TArrayPtr, TArrayDesc]"
| "hook_params fp_cuArray3DCreate_posthook = [TArrayPtr, TArray3DDesc]"
| "hook_params fp_cuMipmappedArrayCreate_posthook = [TMipmappedArrayPtr, TArray3DDesc, TUInt]"
| "hook_params fp_cuMemFree_prehook = [TDevicePtr]"
| "hook_params fp_cuArrayDestroy_prehook = [TArray]"
| "hook_params fp_cuMipmappedArrayDestroy_prehook = [TMipmappedArray]"
| "hook_params fp_cuLaunchKernel_prehook =
     [TFunction, TUInt, TUInt, TUInt, TUInt, TUInt, TUInt, TUInt, TStream, TVoidPtrPtr, TVoidPtrPtr]"
| "hook_params fp_cuLaunchCooperativeKernel_prehook =
     [TFunction, TUInt, TUInt, TUInt, TUInt, TUInt, TUInt, TUInt, TStream, TVoidPtrPtr]"
| "hook_params fp_cuMemAlloc_prehook = [TDevicePtrPtr, TSize]"
| "hook_params fp_cuMemAllocManaged_prehook = [TDevicePtrPtr, TSize, TUInt]"
| "hook_params fp_cuMemAllocPitch_prehook = [TDevicePtrPtr, TSizePtr, TSize, TSize, TUInt]"
| "hook_params fp_cuArrayCreate_prehook = [TArrayPtr, TArrayDesc]"
| "hook_params fp_cuArray3DCreate_prehook = [TArrayPtr, TArray3DDesc]"
| "hook_params fp_cuMipmappedArrayCreate_prehook = [TMipmappedArrayPtr, TArray3DDesc, TUInt]"

section \<open>The generated function\<close>

datatype CUresult = CUDA_SUCCESS | CUDA_ERROR_OUT_OF_MEMORY | CUDA_ERROR_OTHER nat

text \<open>
  The body of the macro, on a state \<open>'s\<close> in which the hooks and the driver run: \<open>run_hook\<close> is the call
  of a hook with the arguments of this call, \<open>real_func\<close> the call of the driver. A hook may fault
  (\<open>Inl\<close>), for instance by ending the process.
\<close>

definition intercept ::
  "(hook_fn \<Rightarrow> 's \<Rightarrow> 'e + CUresult \<times> 's) \<Rightarrow> ('s \<Rightarrow> CUresult \<times> 's) \<Rightarrow> HookSymbols \<Rightarrow> hookInfo \<Rightarrow> 's
    \<Rightarrow> 'e + CUresult \<times> hookInfo \<times> 's" where
  "intercept run_hook real_func hooksymbol hook_inf s =
     (let hook_inf = (if debug_mode hook_inf
            then hook_inf\<lparr>call_count := (call_count hook_inf)(hooksymbol := call_count hook_inf hooksymbol + 1)\<rparr>
            else hook_inf)
      in case (case preHooks hook_inf hooksymbol of None \<Rightarrow> Inr (CUDA_SUCCESS, s) | Some h \<Rightarrow> run_hook h s) of
           Inl e \<Rightarrow> Inl e
         | Inr (result, s) \<Rightarrow>
             if result \<noteq> CUDA_SUCCESS then Inr (result, hook_inf, s)
             else case real_func s of
               (result, s) \<Rightarrow>
                 (case (if result = CUDA_SUCCESS then postHooks hook_inf hooksymbol else None) of
                    None \<Rightarrow> Inr (result, hook_inf, s)
                  | Some h \<Rightarrow>
                      (case run_hook h s of
                         Inl e \<Rightarrow> Inl e
                       | Inr (result, s) \<Rightarrow> Inr (result, hook_inf, s))))"

text \<open>The functions generated by the macro, in the order of the file.\<close>

definition intercepted :: "(HookSymbols \<times> string) list" where
  "intercepted = [(CU_HOOK_MEMCPY_ATOH, ''cuMemcpyAtoH''), (CU_HOOK_MEMCPY_DTOH, ''cuMemcpyDtoH''),
     (CU_HOOK_MEMCPY_HTOA, ''cuMemcpyHtoA''), (CU_HOOK_MEMCPY_HTOD, ''cuMemcpyHtoD''),
     (CU_HOOK_CTX_SYNC, ''cuCtxSynchronize''), (CU_HOOK_CTX_GET_CURRENT, ''cuCtxGetCurrent''),
     (CU_HOOK_CTX_SET_CURRENT, ''cuCtxSetCurrent''), (CU_HOOK_CTX_DESTROY, ''cuCtxDestroy''),
     (CU_HOOK_CTX_CREATE, ''cuCtxCreate''), (CU_HOOK_CTX_POP_CURRENT, ''cuCtxPopCurrent''),
     (CU_HOOK_CTX_PUSH_CURRENT, ''cuCtxPushCurrent''),
     (CU_HOOK_DEVICE_PRIMARY_CTX_RETAIN, ''cuDevicePrimaryCtxRetain''),
     (CU_HOOK_DEVICE_PRIMARY_CTX_RESET, ''cuDevicePrimaryCtxReset''),
     (CU_HOOK_DEVICE_PRIMARY_CTX_RELEASE, ''cuDevicePrimaryCtxRelease''), (CU_HOOK_MEM_ALLOC, ''cuMemAlloc''),
     (CU_HOOK_MEM_ALLOC_MANAGED, ''cuMemAllocManaged''), (CU_HOOK_MEM_ALLOC_PITCH, ''cuMemAllocPitch''),
     (CU_HOOK_MEM_FREE, ''cuMemFree''), (CU_HOOK_ARRAY_CREATE, ''cuArrayCreate''),
     (CU_HOOK_ARRAY3D_CREATE, ''cuArray3DCreate''), (CU_HOOK_MIPMAPPED_ARRAY_CREATE, ''cuMipmappedArrayCreate''),
     (CU_HOOK_ARRAY_DESTROY, ''cuArrayDestroy''), (CU_HOOK_MIPMAPPED_ARRAY_DESTROY, ''cuMipmappedArrayDestroy''),
     (CU_HOOK_LAUNCH_KERNEL, ''cuLaunchKernel''), (CU_HOOK_LAUNCH_COOPERATIVE_KERNEL, ''cuLaunchCooperativeKernel'')]"

section \<open>Lookup and call\<close>

lemma find_SomeD: "find P xs = Some x \<Longrightarrow> x \<in> set xs \<and> P x"
  by (auto simp: find_Some_iff)

lemma dlsym_interposed:
  assumes "n \<in> set dlsym_names" and "take 2 (expand n) = ''cu''" and "inj_on expand (set dlsym_names)"
  shows "dlsym expand (expand n) = Interposed n"
proof -
  have "find (\<lambda>m. expand n = expand m) dlsym_names = Some n"
    unfolding find_Some_iff
  proof -
    obtain i where i: "i < length dlsym_names" "dlsym_names ! i = n" using assms(1) by (auto simp: in_set_conv_nth)
    have d: "distinct dlsym_names" by code_simp
    have "expand n \<noteq> expand (dlsym_names ! j)" if "j < i" for j
      using that i d assms(1,3) by (metis inj_onD nth_eq_iff_index_eq nth_mem order.strict_trans less_irrefl)
    then show "\<exists>i<length dlsym_names. expand n = expand (dlsym_names ! i) \<and> n = dlsym_names ! i
        \<and> (\<forall>j<i. expand n \<noteq> expand (dlsym_names ! j))"
      using i by blast
  qed
  then show ?thesis using assms(2) by (simp add: dlsym_def)
qed

lemma dlsym_other: "symbol \<notin> expand ` set dlsym_names \<Longrightarrow> dlsym expand symbol = RealDlsym symbol"
  by (auto simp: dlsym_def find_None_iff split: option.splits dest: find_SomeD)

text \<open>A hook that does not return \<open>CUDA_SUCCESS\<close> ends the call before the driver is reached; without
  hooks the call is the driver's.\<close>

lemma intercept_blocked:
  assumes "preHooks hook_inf sy = Some h" and "run_hook h s = Inr (r, s')" and "r \<noteq> CUDA_SUCCESS"
  shows "\<exists>hi. intercept run_hook real_func sy hook_inf s = Inr (r, hi, s') \<and> preHooks hi = preHooks hook_inf
    \<and> postHooks hi = postHooks hook_inf"
  using assms by (auto simp: intercept_def Let_def)

lemma intercept_passed:
  assumes "preHooks hook_inf sy = Some h" and "run_hook h s = Inr (CUDA_SUCCESS, s1)"
    and "real_func s1 = (CUDA_SUCCESS, s2)" and "postHooks hook_inf sy = Some g" and "run_hook g s2 = Inr (r, s3)"
  shows "\<exists>hi. intercept run_hook real_func sy hook_inf s = Inr (r, hi, s3) \<and> preHooks hi = preHooks hook_inf
    \<and> postHooks hi = postHooks hook_inf"
  using assms by (auto simp: intercept_def Let_def)

lemma intercept_driver_error:
  assumes "preHooks hook_inf sy = Some h" and "run_hook h s = Inr (CUDA_SUCCESS, s1)"
    and "real_func s1 = (r, s2)" and "r \<noteq> CUDA_SUCCESS \<or> postHooks hook_inf sy = None"
  shows "\<exists>hi. intercept run_hook real_func sy hook_inf s = Inr (r, hi, s2) \<and> preHooks hi = preHooks hook_inf
    \<and> postHooks hi = postHooks hook_inf"
  using assms by (auto simp: intercept_def Let_def)

lemma intercept_fault:
  assumes "preHooks hook_inf sy = Some h" and "run_hook h s = Inl e"
  shows "intercept run_hook real_func sy hook_inf s = Inl e"
  using assms by (simp add: intercept_def Let_def)

lemma intercept_tables:
  assumes "intercept run_hook real_func sy hook_inf s = Inr (r, hi, s')"
  shows "preHooks hi = preHooks hook_inf \<and> postHooks hi = postHooks hook_inf"
  using assms by (auto simp: intercept_def Let_def split: option.splits sum.splits prod.splits if_splits)

section \<open>Properties\<close>

text \<open>C35. Hooks and the functions they are called as: the generated functions call every hook through a
  pointer cast to the parameter list of the intercepted function. Every hook that \<^verbatim>\<open>initialize\<close>
  places has exactly that parameter list, except the one of \<^verbatim>\<open>cuMemcpyHtoD\<close>, which is declared with
  five parameters and called with three.\<close>

theorem hook_types_match:
  assumes "h \<in> set_option (preHooks (place_hooks (new_hookInfo env)) sy) \<union> set_option (postHooks (place_hooks (new_hookInfo env)) sy)"
  shows "hook_params h = symbol_params sy \<longleftrightarrow> sy \<noteq> CU_HOOK_MEMCPY_HTOD"
  using assms by (cases sy) (auto simp: place_hooks_def new_hookInfo_def)

theorem hook_types_match_witness:
  "hook_params fp_cuMemAlloc_posthook = symbol_params CU_HOOK_MEM_ALLOC"
proof -
  have "fp_cuMemAlloc_posthook \<in> set_option (postHooks (place_hooks (new_hookInfo None)) CU_HOOK_MEM_ALLOC)"
    by (simp add: place_hooks_def)
  then show ?thesis using hook_types_match [of fp_cuMemAlloc_posthook None CU_HOOK_MEM_ALLOC] by blast
qed

text \<open>Interposition is exact: when the names of \<^verbatim>\<open>cuda.h\<close> expand to distinct names that start with
  \<^verbatim>\<open>cu\<close>, \<^verbatim>\<open>dlsym\<close> answers with the library's own function for exactly the expanded names of its
  table, and asks the real \<^verbatim>\<open>dlsym\<close> for everything else. Of the functions the library generates, only
  \<^verbatim>\<open>cuCtxGetCurrent\<close> and \<^verbatim>\<open>cuDevicePrimaryCtxRetain\<close> cannot be reached this way.\<close>

lemma dlsym_interposes:
  assumes "inj_on expand (set dlsym_names)" and "\<forall>n\<in>set dlsym_names. take 2 (expand n) = ''cu''"
  shows "(dlsym expand symbol = Interposed n \<longleftrightarrow> n \<in> set dlsym_names \<and> symbol = expand n)
    \<and> (symbol \<notin> expand ` set dlsym_names \<longrightarrow> dlsym expand symbol = RealDlsym symbol)
    \<and> {g \<in> snd ` set intercepted. dlsym expand (expand g) = RealDlsym (expand g)} \<subseteq> {''cuCtxGetCurrent'', ''cuDevicePrimaryCtxRetain''}"
proof (intro conjI impI)
  show "dlsym expand symbol = Interposed n \<longleftrightarrow> n \<in> set dlsym_names \<and> symbol = expand n"
  proof
    assume "dlsym expand symbol = Interposed n"
    then show "n \<in> set dlsym_names \<and> symbol = expand n"
      by (auto simp: dlsym_def split: if_splits option.splits dest: find_SomeD)
  qed (use assms dlsym_interposed [of n expand] in auto)
  show "symbol \<notin> expand ` set dlsym_names \<Longrightarrow> dlsym expand symbol = RealDlsym symbol" by (rule dlsym_other)
  have "dlsym expand (expand g) = Interposed g" if "g \<in> set dlsym_names" for g
    using that assms dlsym_interposed [of g expand] by auto
  moreover have "\<forall>p\<in>set intercepted. snd p \<in> set dlsym_names \<or> snd p \<in> {''cuCtxGetCurrent'', ''cuDevicePrimaryCtxRetain''}"
    by code_simp
  ultimately show "{g \<in> snd ` set intercepted. dlsym expand (expand g) = RealDlsym (expand g)}
      \<subseteq> {''cuCtxGetCurrent'', ''cuDevicePrimaryCtxRetain''}"
    by force
qed

end
