(* ===== verification/Gem_HookConn.thy ===== *)
theory Gem_HookConn
  imports Gem_Comm Gem_Config Gem_Intercept
begin

text \<open>
  The hook library's side of the wire, \<^verbatim>\<open>src/src/hook.cpp\<close>: its globals, \<^verbatim>\<open>configure_connection\<close>,
  \<^verbatim>\<open>establish_connection\<close>, \<^verbatim>\<open>communicate\<close>, and the two requests about memory,
  \<^verbatim>\<open>get_gpu_memory_info\<close> and \<^verbatim>\<open>update_memory_usage\<close>.

  \<^item> The operating system and the CUDA driver are the record \<open>hook_ops\<close> of functions on a state \<open>'w\<close>;
    a call that fails returns \<open>-1\<close> and the value of \<^verbatim>\<open>errno\<close>. Every call returns: a \<^verbatim>\<open>recv\<close> on a socket
    without a timeout, as token requests make it, may block for ever, which is not modelled.
  \<^item> \<open>Exit n\<close> is a call of \<^verbatim>\<open>exit\<close>, \<open>Undefined\<close> an access outside an array or a buffer, a read of an
    uninitialised variable or a signed overflow in \<^verbatim>\<open>atoi\<close>.
  \<^item> \<^verbatim>\<open>rbuf\<close> is not initialised: its contents before the first byte is received are \<open>stack_bytes\<close>.
\<close>

section \<open>The globals\<close>

datatype hook_error = Exit int | Undefined

definition max_gpu_num :: int where "max_gpu_num = 8"
definition NET_OP_MAX_ATTEMPT :: int where "NET_OP_MAX_ATTEMPT = 5"
definition NET_OP_RETRY_INTV :: int where "NET_OP_RETRY_INTV = 10"

record hook_lib =
  pod_manager_ip :: string
  pod_manager_port_list :: "16 word list"
  current_gpu_num :: int
  sockfd_of :: "int list"
  allocation_maps :: "(size_t \<rightharpoonup> size_t) list"
  gpu_mem_used :: "size_t list"
  hook_comm :: comm_state

definition new_hook_lib :: hook_lib where
  "new_hook_lib = \<lparr>pod_manager_ip = ''127.0.0.1'', pod_manager_port_list = [], current_gpu_num = 0,
     sockfd_of = replicate (nat max_gpu_num) 0, allocation_maps = replicate (nat max_gpu_num) Map.empty,
     gpu_mem_used = replicate (nat max_gpu_num) 0, hook_comm = comm_init\<rparr>"

record 'w hook_ops =
  op_env :: comm_env
  op_device :: "'w \<Rightarrow> CUresult \<times> int"
  op_socket :: "'w \<Rightarrow> int \<times> 'w"
  op_connect :: "int \<Rightarrow> string \<Rightarrow> 16 word \<Rightarrow> 'w \<Rightarrow> int \<times> int \<times> 'w"
  op_timeout :: "int \<Rightarrow> int \<Rightarrow> 'w \<Rightarrow> 'w"
  op_send :: "int \<Rightarrow> byte list \<Rightarrow> 'w \<Rightarrow> int \<times> int \<times> 'w"
  op_recv :: "int \<Rightarrow> byte list \<Rightarrow> 'w \<Rightarrow> int \<times> int \<times> byte list \<times> 'w"
  op_sleep :: "int \<Rightarrow> 'w \<Rightarrow> 'w"
  stack_bytes :: "byte list"

text \<open>\<^verbatim>\<open>get_current_device_id\<close> reports a device number that is too large and returns it nevertheless;
  after a failed \<^verbatim>\<open>cuCtxGetDevice\<close> it returns an uninitialised variable.\<close>

definition get_current_device_id :: "('w, 'o) hook_ops_scheme \<Rightarrow> 'w \<Rightarrow> hook_error + int" where
  "get_current_device_id ops w = (case op_device ops w of
     (rc, device) \<Rightarrow> if rc \<noteq> CUDA_SUCCESS then Inl Undefined else Inr device)"

section \<open>configure_connection\<close>

text \<open>\<^verbatim>\<open>strtok\<close> with the delimiter \<^verbatim>\<open>","\<close>: the next token and what is left after its delimiter.\<close>

definition strtok :: "string \<Rightarrow> (string \<times> string) option" where
  "strtok s = (let t = dropWhile (\<lambda>c. c = CHR '','') s in
     if t = [] then None
     else Some (takeWhile (\<lambda>c. c \<noteq> CHR '','') t, drop 1 (dropWhile (\<lambda>c. c \<noteq> CHR '','') t)))"

definition atoi :: "string \<Rightarrow> int option" where
  "atoi s = (let (neg, ds, r) = scan_int (dropWhile is_space s);
                 v = (if neg then - int (digits_value ds) else int (digits_value ds))
             in if - (2 ^ 31) \<le> v \<and> v < 2 ^ 31 then Some v else None)"

text \<open>The loop over the tokens; \<open>None\<close> would be a loop that does not end.\<close>

partial_function (option) port_loop :: "string \<Rightarrow> 16 word list \<Rightarrow> (hook_error + 16 word list) option" where
  "port_loop s ports = (case strtok s of
     None \<Rightarrow> Some (Inr ports)
   | Some p \<Rightarrow> (case atoi (fst p) of
       None \<Rightarrow> Some (Inl Undefined)
     | Some i \<Rightarrow> port_loop (snd p) (ports @ [word_of_int i])))"

definition configure_connection ::
  "string option \<Rightarrow> string option \<Rightarrow> 'z hook_lib_scheme \<Rightarrow> (hook_error + 'z hook_lib_scheme) option" where
  "configure_connection ip port h =
     (if ip \<noteq> None \<and> 20 \<le> length (the ip) then Some (Inl Undefined)
      else let h = (case ip of None \<Rightarrow> h | Some a \<Rightarrow> h\<lparr>pod_manager_ip := a\<rparr>) in
      case port of
        None \<Rightarrow> Some (Inr h)
      | Some s \<Rightarrow> (case port_loop s (pod_manager_port_list h) of
          None \<Rightarrow> None
        | Some (Inl e) \<Rightarrow> Some (Inl e)
        | Some (Inr ports) \<Rightarrow> Some (Inr (h\<lparr>pod_manager_port_list := ports, current_gpu_num := int (length ports)\<rparr>))))"

section \<open>establish_connection and communicate\<close>

definition establish_connection ::
  "('w, 'o) hook_ops_scheme \<Rightarrow> int \<Rightarrow> 'z hook_lib_scheme \<Rightarrow> 'w \<Rightarrow> hook_error + int \<times> 'w" where
  "establish_connection ops device h w =
     (let (sockfd_e, w) = op_socket ops w in
      if sockfd_e = -1 then Inl (Exit (-1))
      else if device < 0 \<or> int (length (pod_manager_port_list h)) \<le> device then Inl Undefined
      else let (rc, w) = multiple_attempt
                 (op_connect ops sockfd_e (pod_manager_ip h) (pod_manager_port_list h ! nat device))
                 (op_sleep ops NET_OP_RETRY_INTV) NET_OP_MAX_ATTEMPT NET_OP_RETRY_INTV w
           in case rc of
                None \<Rightarrow> Inl Undefined
              | Some rc \<Rightarrow> if rc \<noteq> 0 then Inl (Exit rc) else Inr (sockfd_e, w))"

text \<open>The lambda of \<^verbatim>\<open>communicate\<close>, on the receive buffer and the world.\<close>

definition send_and_recv ::
  "('w, 'o) hook_ops_scheme \<Rightarrow> int \<Rightarrow> byte list \<Rightarrow> byte list \<times> 'w \<Rightarrow> int \<times> int \<times> byte list \<times> 'w" where
  "send_and_recv ops sock sbuf = (\<lambda>(rbuf, w).
     let (n, errno, w) = op_send ops sock sbuf w in
     if n = -1 then (-1, errno, rbuf, w)
     else let (n, errno, rbuf, w) = op_recv ops sock rbuf w in
          if n = -1 then (-1, errno, rbuf, w) else (0, errno, rbuf, w))"

definition communicate ::
  "('w, 'o) hook_ops_scheme \<Rightarrow> byte list \<Rightarrow> byte list \<Rightarrow> int \<Rightarrow> int \<Rightarrow> 'z hook_lib_scheme \<Rightarrow> 'w
    \<Rightarrow> hook_error + int \<times> byte list \<times> 'z hook_lib_scheme \<times> 'w" where
  "communicate ops sbuf rbuf socket_timeout device h w =
     (case establish_connection ops device h w of
        Inl e \<Rightarrow> Inl e
      | Inr (sock, w) \<Rightarrow>
          if device < 0 \<or> int (length (sockfd_of h)) \<le> device then Inl Undefined
          else let h = h\<lparr>sockfd_of := (sockfd_of h)[nat device := sock]\<rparr>;
                   w = op_timeout ops sock socket_timeout w;
                   (rc, rbuf, w) = multiple_attempt (send_and_recv ops sock sbuf) (\<lambda>s. s) NET_OP_MAX_ATTEMPT 0 (rbuf, w)
               in case rc of None \<Rightarrow> Inl Undefined | Some rc \<Rightarrow> Inr (rc, rbuf, h, w))"

section \<open>Requests about memory\<close>

text \<open>The frame both functions share: prepare the request, ask for the device, communicate, leave the
  process on an error, and find the data in the response.\<close>

definition memory_request ::
  "('w, 'o) hook_ops_scheme \<Rightarrow> comm_request_t \<Rightarrow> vararg list \<Rightarrow> 'z hook_lib_scheme \<Rightarrow> 'w
    \<Rightarrow> hook_error + byte list \<times> 'z hook_lib_scheme \<times> 'w" where
  "memory_request ops type args h w =
     (case prepare_request (op_env ops) (hook_comm h) (replicate REQ_MSG_LEN 0) type args of
        None \<Rightarrow> Inl Undefined
      | Some (rid, st, sbuf) \<Rightarrow>
          (case get_current_device_id ops w of
             Inl e \<Rightarrow> Inl e
           | Inr device \<Rightarrow>
               (case communicate ops sbuf (stack_bytes ops) NET_OP_RETRY_INTV device (h\<lparr>hook_comm := st\<rparr>) w of
                  Inl e \<Rightarrow> Inl e
                | Inr (rc, rbuf, h, w) \<Rightarrow>
                    if rc \<noteq> 0 then Inl (Exit rc)
                    else case parse_response rbuf of
                      None \<Rightarrow> Inl Undefined
                    | Some (rid, off) \<Rightarrow> Inr (attached_data rbuf off, h, w))))"

definition get_gpu_memory_info ::
  "('w, 'o) hook_ops_scheme \<Rightarrow> 'z hook_lib_scheme \<Rightarrow> 'w \<Rightarrow> hook_error + (size_t \<times> size_t) \<times> 'z hook_lib_scheme \<times> 'w" where
  "get_gpu_memory_info ops h w =
     (case memory_request ops REQ_MEM_LIMIT [] h w of
        Inl e \<Rightarrow> Inl e
      | Inr (attached, h, w) \<Rightarrow>
          (case get_msg_data 8 word64 attached 0 of
             None \<Rightarrow> Inl Undefined
           | Some (used, rpos) \<Rightarrow>
               (case get_msg_data 8 word64 attached rpos of
                  None \<Rightarrow> Inl Undefined
                | Some (limit, rpos) \<Rightarrow> Inr ((limit - used, limit), h, w))))"

definition update_memory_usage ::
  "('w, 'o) hook_ops_scheme \<Rightarrow> size_t \<Rightarrow> int32 \<Rightarrow> 'z hook_lib_scheme \<Rightarrow> 'w \<Rightarrow> hook_error + int32 \<times> 'z hook_lib_scheme \<times> 'w" where
  "update_memory_usage ops bytes is_allocate h w =
     (case memory_request ops REQ_MEM_UPDATE [ASize bytes, AInt is_allocate] h w of
        Inl e \<Rightarrow> Inl e
      | Inr (attached, h, w) \<Rightarrow>
          (case get_msg_data 4 word32 attached 0 of
             None \<Rightarrow> Inl Undefined
           | Some (verdict, rpos) \<Rightarrow> Inr (verdict, h, w)))"

section \<open>The port list\<close>

text \<open>The fields between commas, and the numbers of a list of tokens.\<close>

fun split_commas :: "string \<Rightarrow> string list" where
  "split_commas [] = [[]]"
| "split_commas (c # s) =
     (if c = CHR '','' then [] # split_commas s else (c # hd (split_commas s)) # tl (split_commas s))"

fun read_ports :: "string list \<Rightarrow> 16 word list \<Rightarrow> hook_error + 16 word list" where
  "read_ports [] ports = Inr ports"
| "read_ports (t # ts) ports = (case atoi t of None \<Rightarrow> Inl Undefined | Some i \<Rightarrow> read_ports ts (ports @ [word_of_int i]))"

definition tokens :: "string \<Rightarrow> string list" where
  "tokens s = filter (\<lambda>t. t \<noteq> []) (split_commas s)"

lemma split_commas_field:
  "split_commas s = takeWhile (\<lambda>c. c \<noteq> CHR '','') s
     # (case dropWhile (\<lambda>c. c \<noteq> CHR '','') s of [] \<Rightarrow> [] | c # r \<Rightarrow> split_commas r)"
  by (induction s) auto

lemma tokens_Nil [simp]: "tokens [] = []"
  by (simp add: tokens_def)

lemma tokens_comma [simp]: "tokens (CHR '','' # s) = tokens s"
  by (simp add: tokens_def)

lemma tokens_skip: "tokens (dropWhile (\<lambda>c. c = CHR '','') s) = tokens s"
  by (induction s) auto

lemma tokens_field:
  assumes "s = c # r" and "c \<noteq> CHR '',''"
  shows "tokens s = takeWhile (\<lambda>c. c \<noteq> CHR '','') s # tokens (drop 1 (dropWhile (\<lambda>c. c \<noteq> CHR '','') s))"
proof -
  have "takeWhile (\<lambda>c. c \<noteq> CHR '','') s \<noteq> []" using assms by simp
  moreover have "split_commas s = takeWhile (\<lambda>c. c \<noteq> CHR '','') s
     # (case dropWhile (\<lambda>c. c \<noteq> CHR '','') s of [] \<Rightarrow> [] | c # r \<Rightarrow> split_commas r)"
    by (rule split_commas_field)
  ultimately show ?thesis by (cases "dropWhile (\<lambda>c. c \<noteq> CHR '','') s") (simp_all add: tokens_def del: dropWhile_eq_Nil_conv)
qed

lemma tokens_strtok:
  "tokens s = (case strtok s of None \<Rightarrow> [] | Some (t, r) \<Rightarrow> t # tokens r)"
proof -
  let ?t = "dropWhile (\<lambda>c. c = CHR '','') s"
  show ?thesis
  proof (cases ?t)
    case Nil
    then have "tokens s = []" using tokens_skip [of s] by (simp del: dropWhile_eq_Nil_conv)
    then show ?thesis using Nil by (simp add: strtok_def)
  next
    case (Cons c t)
    then have "c \<noteq> CHR '',''" using hd_dropWhile [of "\<lambda>c. c = CHR '',''" s] by auto
    from tokens_field [OF Cons this] tokens_skip [of s] Cons show ?thesis
      unfolding strtok_def Let_def by (simp only: option.case prod.case list.distinct if_False)
  qed
qed

lemma strtok_shorter: "strtok s = Some (t, r) \<Longrightarrow> length r < length s"
proof -
  assume a: "strtok s = Some (t, r)"
  let ?t = "dropWhile (\<lambda>c. c = CHR '','') s"
  have "?t \<noteq> []" and r: "r = drop 1 (dropWhile (\<lambda>c. c \<noteq> CHR '','') ?t)"
    using a by (auto simp: strtok_def Let_def split: if_splits)
  have "length (dropWhile (\<lambda>c. c \<noteq> CHR '','') ?t) \<le> length ?t" by (rule length_dropWhile_le)
  then have "length r < length ?t" using r \<open>?t \<noteq> []\<close> by (cases ?t) auto
  also have "\<dots> \<le> length s" by (rule length_dropWhile_le)
  finally show ?thesis .
qed

lemma port_loop_tokens: "port_loop s ports = Some (read_ports (tokens s) ports)"
proof (induction "length s" arbitrary: s ports rule: less_induct)
  case less
  show ?case
  proof (cases "strtok s")
    case None
    then show ?thesis using tokens_strtok [of s] by (simp add: port_loop.simps)
  next
    case (Some p)
    then have "length (snd p) < length s" using strtok_shorter [of s "fst p" "snd p"] by simp
    then show ?thesis
      using less Some tokens_strtok [of s] by (subst port_loop.simps) (auto split: option.splits prod.splits)
  qed
qed

text \<open>A list of numbers written with commas.\<close>

fun show_ports :: "nat list \<Rightarrow> string" where
  "show_ports [] = []"
| "show_ports [n] = show_nat n"
| "show_ports (n # m # ns) = show_nat n @ CHR '','' # show_ports (m # ns)"

lemma digit_not_comma: "is_digit c \<Longrightarrow> c \<noteq> CHR '',''"
  by (auto simp: is_digit_def)

lemma split_commas_digits:
  "list_all is_digit ds \<Longrightarrow> split_commas (ds @ CHR '','' # s) = ds # split_commas s \<and> split_commas ds = [ds]"
  by (induction ds) (auto dest: digit_not_comma)

lemma tokens_show_ports: "tokens (show_ports ns) = map show_nat ns"
  using show_nat_digits split_commas_digits
  by (induction ns rule: show_ports.induct) (auto simp: tokens_def)

lemma atoi_show_nat: "n < 2 ^ 31 \<Longrightarrow> atoi (show_nat n) = Some (int n)"
  using show_nat_digits [of n] by (simp add: atoi_def scan_show_nat)

lemma read_ports_show: "\<forall>n\<in>set ns. n < 2 ^ 31 \<Longrightarrow> read_ports (map show_nat ns) ports = Inr (ports @ map word_of_nat ns)"
  by (induction ns arbitrary: ports) (auto simp: atoi_show_nat)

section \<open>Requests that fit\<close>

lemma attempt_loop_invariant:
  assumes "\<And>s r e s'. func s = (r, e, s') \<Longrightarrow> I s \<Longrightarrow> I s'" and "\<And>s. I s \<Longrightarrow> I (slp s)" and "I s"
    and "attempt_loop func slp interval n rc s = (rc', s')"
  shows "I s'"
  using assms(3,4)
proof (induction n arbitrary: rc s)
  case (Suc n)
  obtain r e s1 where f: "func s = (r, e, s1)" by (cases "func s")
  have "I s1" "I (slp s1)" using assms(1) [OF f Suc.prems(1)] assms(2) by auto
  then show ?case using Suc.IH Suc.prems(2) by (auto simp: f Let_def split: if_splits)
qed simp

lemma attempt_loop_defined:
  "attempt_loop func slp interval n rc s = (rc', s') \<Longrightarrow> 0 < n \<or> rc \<noteq> None \<Longrightarrow> rc' \<noteq> None"
  by (induction n arbitrary: rc s) (auto simp: Let_def split: prod.splits if_splits)

lemma multiple_attempt_defined:
  "multiple_attempt func slp max_attempt interval s = (rc, s') \<Longrightarrow> 0 < max_attempt \<Longrightarrow> rc \<noteq> None"
  unfolding multiple_attempt_def by (erule attempt_loop_defined) simp

lemma multiple_attempt_first:
  assumes "0 < max_attempt" and "func s = (0, e, s')"
  shows "multiple_attempt func slp max_attempt interval s = (Some 0, s')"
proof -
  obtain n where "nat max_attempt = Suc n" using assms(1) gr0_implies_Suc by fastforce
  then show ?thesis using assms(2) by (simp add: multiple_attempt_def)
qed

text \<open>What \<^verbatim>\<open>recv\<close> promises: it writes into the buffer it is given.\<close>

definition recv_in_place :: "('w, 'o) hook_ops_scheme \<Rightarrow> bool" where
  "recv_in_place ops \<longleftrightarrow>
     (\<forall>sock buf w n e buf' w'. op_recv ops sock buf w = (n, e, buf', w') \<longrightarrow> length buf' = length buf)"

lemma send_and_recv_length:
  "recv_in_place ops \<Longrightarrow> send_and_recv ops sock sbuf s = (r, e, s') \<Longrightarrow> length (fst s') = length (fst s)"
proof (cases s)
  case (Pair rbuf w)
  assume r: "recv_in_place ops" and s: "send_and_recv ops sock sbuf s = (r, e, s')"
  obtain n1 e1 w1 where 1: "op_send ops sock sbuf w = (n1, e1, w1)" by (cases "op_send ops sock sbuf w")
  obtain n2 e2 b2 w2 where 2: "op_recv ops sock rbuf w1 = (n2, e2, b2, w2)" by (cases "op_recv ops sock rbuf w1")
  have "length b2 = length rbuf" using r 2 unfolding recv_in_place_def by blast
  then show ?thesis using s by (auto simp: send_and_recv_def Pair 1 2 split: if_splits)
qed

text \<open>The devices both the port list and the arrays have a place for.\<close>

definition device_ok :: "'z hook_lib_scheme \<Rightarrow> int \<Rightarrow> bool" where
  "device_ok h device \<longleftrightarrow> 0 \<le> device \<and> device < int (length (pod_manager_port_list h)) \<and> device < int (length (sockfd_of h))"

lemma communicate_result:
  assumes "device_ok h device" and "recv_in_place ops"
  shows "(\<exists>n. communicate ops sbuf rbuf timeout device h w = Inl (Exit n))
    \<or> (\<exists>rc rbuf' h' w'. communicate ops sbuf rbuf timeout device h w = Inr (rc, rbuf', h', w') \<and> length rbuf' = length rbuf)"
proof (cases "establish_connection ops device h w")
  case (Inl e)
  have "multiple_attempt (op_connect ops s ip p) (op_sleep ops NET_OP_RETRY_INTV) NET_OP_MAX_ATTEMPT NET_OP_RETRY_INTV w1
      \<noteq> (None, w2)" for s ip p w1 w2
    using multiple_attempt_defined by (metis NET_OP_MAX_ATTEMPT_def zero_less_numeral)
  then have "\<exists>n. e = Exit n"
    using Inl assms(1) by (auto simp: establish_connection_def device_ok_def Let_def split: prod.splits if_splits option.splits)
  then show ?thesis by (auto simp: communicate_def Inl)
next
  case (Inr p)
  let ?w = "op_timeout ops (fst p) timeout (snd p)"
  obtain rc rbuf' w' where m: "multiple_attempt (send_and_recv ops (fst p) sbuf) (\<lambda>s. s) NET_OP_MAX_ATTEMPT 0 (rbuf, ?w) = (rc, rbuf', w')"
    by (cases "multiple_attempt (send_and_recv ops (fst p) sbuf) (\<lambda>s. s) NET_OP_MAX_ATTEMPT 0 (rbuf, ?w)") auto
  then have "length rbuf' = length rbuf"
    using attempt_loop_invariant [of "send_and_recv ops (fst p) sbuf" "\<lambda>s. length (fst s) = length rbuf" "\<lambda>s. s" "(rbuf, ?w)"]
      send_and_recv_length [OF assms(2)] by (auto simp: multiple_attempt_def)
  moreover obtain c where "rc = Some c" using multiple_attempt_defined [OF m] by (auto simp: NET_OP_MAX_ATTEMPT_def)
  ultimately show ?thesis
    using assms(1) m by (auto simp: communicate_def Inr device_ok_def case_prod_unfold Let_def)
qed

lemma memory_request_result:
  assumes "op_device ops w = (CUDA_SUCCESS, device)" and "device_ok h device" and "recv_in_place ops"
    and "length (stack_bytes ops) = RSP_MSG_LEN" and "request_extra type args = Some e"
    and "17 + length (resolve_name (op_env ops) (hook_comm h)) + length e \<le> REQ_MSG_LEN"
  shows "(\<exists>n. memory_request ops type args h w = Inl (Exit n))
    \<or> (\<exists>att h' w'. memory_request ops type args h w = Inr (att, h', w') \<and> length att = 36)"
proof -
  obtain rid st sbuf where p: "prepare_request (op_env ops) (hook_comm h) (replicate REQ_MSG_LEN 0) type args = Some (rid, st, sbuf)"
    using prepare_request_layout [of "replicate REQ_MSG_LEN 0" type args e "op_env ops" "hook_comm h"] assms(5,6)
    by (auto simp: Let_def REQ_MSG_LEN_def)
  have d: "get_current_device_id ops w = Inr device" using assms(1) by (simp add: get_current_device_id_def)
  have ok: "device_ok (h\<lparr>hook_comm := st\<rparr>) device" using assms(2) by (simp add: device_ok_def)
  have "parse_response buf = Some (word32 (take 4 buf), 4) \<and> length (attached_data buf 4) = 36" if "length buf = RSP_MSG_LEN" for buf
    using that by (simp add: parse_response_def get_msg_data_def attached_data_def RSP_MSG_LEN_def)
  then show ?thesis
    using communicate_result [OF ok assms(3), of sbuf "stack_bytes ops" NET_OP_RETRY_INTV w] assms(4)
    by (auto simp: memory_request_def p d)
qed

text \<open>A peer that accepts and answers at once.\<close>

lemma communicate_first_try:
  assumes "device_ok h device" and "op_socket ops w = (sock, w1)" and "sock \<noteq> -1"
    and "op_connect ops sock (pod_manager_ip h) (pod_manager_port_list h ! nat device) w1 = (0, e1, w2)"
    and "op_send ops sock sbuf (op_timeout ops sock timeout w2) = (n3, e3, w3)" and "n3 \<noteq> -1"
    and "op_recv ops sock rbuf w3 = (n4, e4, rbuf', w4)" and "n4 \<noteq> -1"
  shows "communicate ops sbuf rbuf timeout device h w =
    Inr (0, rbuf', h\<lparr>sockfd_of := (sockfd_of h)[nat device := sock]\<rparr>, w4)"
proof -
  have five: "0 < NET_OP_MAX_ATTEMPT" by (simp add: NET_OP_MAX_ATTEMPT_def)
  have "establish_connection ops device h w = Inr (sock, w2)"
    using assms(1-4) multiple_attempt_first [OF five, where func = "op_connect ops sock (pod_manager_ip h) (pod_manager_port_list h ! nat device)"] by (simp add: establish_connection_def device_ok_def)
  moreover have "send_and_recv ops sock sbuf (rbuf, op_timeout ops sock timeout w2) = (0, e4, rbuf', w4)"
    using assms(5-8) by (simp add: send_and_recv_def)
  then have "multiple_attempt (send_and_recv ops sock sbuf) (\<lambda>s. s) NET_OP_MAX_ATTEMPT 0 (rbuf, op_timeout ops sock timeout w2)
      = (Some 0, rbuf', w4)"
    using multiple_attempt_first [OF five, where func = "send_and_recv ops sock sbuf"] by blast
  ultimately show ?thesis using assms(1) by (simp add: communicate_def device_ok_def)
qed

section \<open>Properties\<close>

text \<open>The loop over \<^verbatim>\<open>POD_MANAGER_PORT\<close> ends on every string, and its result is the list of the
  numbers of the non-empty fields between commas, in order: empty fields are skipped, a field that
  is no number counts as zero, and a field outside the range of \<^verbatim>\<open>int\<close> is the only failure.\<close>

lemma port_loop_terminates:
  "port_loop s ports = Some (read_ports (filter (\<lambda>t. t \<noteq> []) (split_commas s)) ports)"
  using port_loop_tokens by (simp add: tokens_def)

text \<open>A list of ports written with commas is read back: \<^verbatim>\<open>configure_connection\<close> stores exactly the
  ports in order, one per GPU, and keeps everything else of the library.\<close>

lemma port_list_roundtrip:
  assumes "\<forall>n\<in>set ns. n < 2 ^ 16" and "pod_manager_port_list h = []"
  shows "configure_connection None (Some (show_ports ns)) h =
      Some (Inr (h\<lparr>pod_manager_port_list := map word_of_nat ns, current_gpu_num := int (length ns)\<rparr>))
    \<and> map unat (map word_of_nat ns :: 16 word list) = ns"
proof
  have "\<forall>n\<in>set ns. n < 2 ^ 31" using assms(1) by fastforce
  then have "port_loop (show_ports ns) [] = Some (Inr (map word_of_nat ns))"
    using read_ports_show [of ns "[]"] by (simp add: port_loop_tokens tokens_show_ports)
  then show "configure_connection None (Some (show_ports ns)) h =
      Some (Inr (h\<lparr>pod_manager_port_list := map word_of_nat ns, current_gpu_num := int (length ns)\<rparr>))"
    using assms(2) by (simp add: configure_connection_def)
  show "map unat (map word_of_nat ns :: 16 word list) = ns"
    using assms(1) by (induction ns) (auto simp: unat_of_nat)
qed

lemma memory_request_overflow:
  assumes "request_extra type args = Some e" and "REQ_MSG_LEN < 17 + length (resolve_name (op_env ops) (hook_comm h)) + length e"
  shows "memory_request ops type args h w = Inl Undefined"
  using prepare_request_layout [of "replicate REQ_MSG_LEN 0" type args e "op_env ops" "hook_comm h"] assms
  by (auto simp: memory_request_def Let_def REQ_MSG_LEN_def)

text \<open>C28. The exact bound on pod names for the requests about memory. On a current device that has a port and is below the number of
  devices, with system calls that all return and a \<^verbatim>\<open>recv\<close> that writes into its buffer, \<^verbatim>\<open>update_memory_usage\<close> leaves its
  buffers or arrays when the pod's name has more than 51 characters, and never with a shorter one;
  \<^verbatim>\<open>get_gpu_memory_info\<close> when it has more than 63. Otherwise the two give an answer or end the process, whatever answers
  and errors the network produces.\<close>

theorem memory_requests_safe:
  assumes "op_device ops w = (CUDA_SUCCESS, device)" and "device_ok h device" and "recv_in_place ops"
    and "length (stack_bytes ops) = RSP_MSG_LEN"
  shows "(update_memory_usage ops bytes is_allocate h w = Inl Undefined \<longleftrightarrow> 51 < length (resolve_name (op_env ops) (hook_comm h)))
    \<and> (get_gpu_memory_info ops h w = Inl Undefined \<longleftrightarrow> 63 < length (resolve_name (op_env ops) (hook_comm h)))"
proof
  let ?n = "length (resolve_name (op_env ops) (hook_comm h))"
  show "update_memory_usage ops bytes is_allocate h w = Inl Undefined \<longleftrightarrow> 51 < ?n"
  proof (cases "51 < ?n")
    case True
    then have "memory_request ops REQ_MEM_UPDATE [ASize bytes, AInt is_allocate] h w = Inl Undefined"
      by (intro memory_request_overflow, simp, simp add: REQ_MSG_LEN_def)
    then show ?thesis using True by (simp add: update_memory_usage_def)
  next
    case False
    then show ?thesis
      using memory_request_result [OF assms, of REQ_MEM_UPDATE "[ASize bytes, AInt is_allocate]"]
      by (auto simp: update_memory_usage_def get_msg_data_def REQ_MSG_LEN_def)
  qed
  show "get_gpu_memory_info ops h w = Inl Undefined \<longleftrightarrow> 63 < ?n"
  proof (cases "63 < ?n")
    case True
    then have "memory_request ops REQ_MEM_LIMIT [] h w = Inl Undefined"
      by (intro memory_request_overflow, simp, simp add: REQ_MSG_LEN_def)
    then show ?thesis using True by (simp add: get_gpu_memory_info_def)
  next
    case False
    then show ?thesis
      using memory_request_result [OF assms, of REQ_MEM_LIMIT "[]"]
      by (auto simp: get_gpu_memory_info_def get_msg_data_def REQ_MSG_LEN_def)
  qed
qed

text \<open>A machine whose pod manager refuses every connection; its world counts the attempts.\<close>

definition refusing_ops :: "nat hook_ops" where
  "refusing_ops = \<lparr>op_env = \<lparr>env_pod_name = Some ''pod1'', env_hostname = ''node''\<rparr>, op_device = (\<lambda>w. (CUDA_SUCCESS, 0)),
     op_socket = (\<lambda>w. (3, w)), op_connect = (\<lambda>_ _ _ w. (-1, 111, w + 1)), op_timeout = (\<lambda>_ _ w. w),
     op_send = (\<lambda>_ _ w. (-1, 32, w)), op_recv = (\<lambda>_ buf w. (-1, 104, buf, w)), op_sleep = (\<lambda>_ w. w),
     stack_bytes = replicate RSP_MSG_LEN 0\<rparr>"

theorem memory_requests_safe_witness:
  "update_memory_usage refusing_ops 100 1 (new_hook_lib\<lparr>pod_manager_port_list := [50052]\<rparr>) 0 \<noteq> Inl Undefined
   \<and> update_memory_usage (refusing_ops\<lparr>op_env := \<lparr>env_pod_name = Some (replicate 52 (CHR ''a'')), env_hostname = ''node''\<rparr>\<rparr>) 100 1
       (new_hook_lib\<lparr>pod_manager_port_list := [50052]\<rparr>) 0 = Inl Undefined"
  using memory_requests_safe [of refusing_ops 0 0 "new_hook_lib\<lparr>pod_manager_port_list := [50052]\<rparr>" 100 1]
    memory_requests_safe [of "refusing_ops\<lparr>op_env := \<lparr>env_pod_name = Some (replicate 52 (CHR ''a'')), env_hostname = ''node''\<rparr>\<rparr>"
      0 0 "new_hook_lib\<lparr>pod_manager_port_list := [50052]\<rparr>" 100 1]
  by (simp add: refusing_ops_def new_hook_lib_def device_ok_def recv_in_place_def resolve_name_def comm_init_def max_gpu_num_def)

end
