(* ===== verification/Gem_HookMem.thy ===== *)
theory Gem_HookMem
  imports Gem_HookConn Gem_Ledger
begin

text \<open>
  The memory hooks of \<^verbatim>\<open>src/src/hook.cpp\<close>: what runs before and after every driver call that creates
  or destroys memory, the account per device, the two calls that report memory, and the generated
  functions around the driver.

  The handles of arrays are kept in the same map as device pointers, as the code casts them. A call of
  the application is a value of \<open>mem_call\<close>; what its output pointers refer to, the library and the
  world are the record \<open>call_frame\<close>. The driver is the parameter \<open>drv\<close>.
\<close>

section \<open>Hooks\<close>

definition cuMemFree_prehook ::
  "('w, 'o) hook_ops_scheme \<Rightarrow> size_t \<Rightarrow> 'z hook_lib_scheme \<Rightarrow> 'w \<Rightarrow> hook_error + CUresult \<times> 'z hook_lib_scheme \<times> 'w" where
  "cuMemFree_prehook ops ptr h w =
     (case get_current_device_id ops w of
        Inl e \<Rightarrow> Inl e
      | Inr device \<Rightarrow>
          if device < 0 \<or> max_gpu_num \<le> device then Inl Undefined
          else case (allocation_maps h ! nat device) ptr of
            None \<Rightarrow> Inr (CUDA_SUCCESS, h, w)
          | Some n \<Rightarrow>
              let h = h\<lparr>gpu_mem_used := (gpu_mem_used h)[nat device := gpu_mem_used h ! nat device - n]\<rparr> in
              (case update_memory_usage ops n 0 h w of
                 Inl e \<Rightarrow> Inl e
               | Inr (verdict, h, w) \<Rightarrow>
                   Inr (CUDA_SUCCESS,
                        h\<lparr>allocation_maps := (allocation_maps h)[nat device := (allocation_maps h ! nat device)(ptr := None)]\<rparr>,
                        w)))"

definition cuArrayDestroy_prehook where
  "cuArrayDestroy_prehook ops hArray h w = cuMemFree_prehook ops hArray h w"

definition cuMipmappedArrayDestroy_prehook where
  "cuMipmappedArrayDestroy_prehook ops hMipmappedArray h w = cuMemFree_prehook ops hMipmappedArray h w"

definition cuMemAlloc_prehook ::
  "('w, 'o) hook_ops_scheme \<Rightarrow> size_t \<Rightarrow> 'z hook_lib_scheme \<Rightarrow> 'w \<Rightarrow> hook_error + CUresult \<times> 'z hook_lib_scheme \<times> 'w" where
  "cuMemAlloc_prehook ops bytesize h w =
     (case get_gpu_memory_info ops h w of
        Inl e \<Rightarrow> Inl e
      | Inr ((remain, limit), h, w) \<Rightarrow>
          Inr (if bytesize > remain then CUDA_ERROR_OUT_OF_MEMORY else CUDA_SUCCESS, h, w))"

definition cuMemAlloc_posthook ::
  "('w, 'o) hook_ops_scheme \<Rightarrow> size_t \<Rightarrow> size_t \<Rightarrow> 'z hook_lib_scheme \<Rightarrow> 'w
    \<Rightarrow> hook_error + CUresult \<times> 'z hook_lib_scheme \<times> 'w" where
  "cuMemAlloc_posthook ops dptr bytesize h w =
     (case get_current_device_id ops w of
        Inl e \<Rightarrow> Inl e
      | Inr device \<Rightarrow>
          (case update_memory_usage ops bytesize 1 h w of
             Inl e \<Rightarrow> Inl e
           | Inr (verdict, h, w) \<Rightarrow>
               if verdict = 0 then Inr (CUDA_ERROR_OUT_OF_MEMORY, h, w)
               else if device < 0 \<or> max_gpu_num \<le> device then Inl Undefined
               else Inr (CUDA_SUCCESS,
                 h\<lparr>allocation_maps := (allocation_maps h)[nat device := (allocation_maps h ! nat device)(dptr \<mapsto> bytesize)],
                   gpu_mem_used := (gpu_mem_used h)[nat device := gpu_mem_used h ! nat device + bytesize]\<rparr>,
                 w)))"

definition cuMemAllocManaged_prehook where
  "cuMemAllocManaged_prehook ops bytesize flags h w = Inr (CUDA_SUCCESS, h, w)"

definition cuMemAllocManaged_posthook where
  "cuMemAllocManaged_posthook ops dptr bytesize flags h w = Inr (CUDA_SUCCESS, h, w)"

text \<open>The pitch is read through the pointer the application passes: before the driver has stored it,
  and after.\<close>

definition cuMemAllocPitch_prehook where
  "cuMemAllocPitch_prehook ops pPitch WidthInBytes Height ElementSizeBytes h w = cuMemAlloc_prehook ops (pPitch * Height) h w"

definition cuMemAllocPitch_posthook where
  "cuMemAllocPitch_posthook ops dptr pPitch WidthInBytes Height ElementSizeBytes h w =
     cuMemAlloc_posthook ops dptr (pPitch * Height) h w"

datatype CUarray_format =
    CU_AD_FORMAT_UNSIGNED_INT8 | CU_AD_FORMAT_UNSIGNED_INT16 | CU_AD_FORMAT_UNSIGNED_INT32
  | CU_AD_FORMAT_SIGNED_INT8 | CU_AD_FORMAT_SIGNED_INT16 | CU_AD_FORMAT_SIGNED_INT32
  | CU_AD_FORMAT_HALF | CU_AD_FORMAT_FLOAT | CU_AD_FORMAT_OTHER int32

text \<open>A format outside the \<^verbatim>\<open>switch\<close> makes the function flow off its end.\<close>

fun CUarray_format_to_size_t :: "CUarray_format \<Rightarrow> size_t option" where
  "CUarray_format_to_size_t CU_AD_FORMAT_UNSIGNED_INT8 = Some 1"
| "CUarray_format_to_size_t CU_AD_FORMAT_SIGNED_INT8 = Some 1"
| "CUarray_format_to_size_t CU_AD_FORMAT_UNSIGNED_INT16 = Some 2"
| "CUarray_format_to_size_t CU_AD_FORMAT_SIGNED_INT16 = Some 2"
| "CUarray_format_to_size_t CU_AD_FORMAT_HALF = Some 2"
| "CUarray_format_to_size_t CU_AD_FORMAT_UNSIGNED_INT32 = Some 4"
| "CUarray_format_to_size_t CU_AD_FORMAT_SIGNED_INT32 = Some 4"
| "CUarray_format_to_size_t CU_AD_FORMAT_FLOAT = Some 4"
| "CUarray_format_to_size_t (CU_AD_FORMAT_OTHER f) = None"

record CUDA_ARRAY_DESCRIPTOR =
  Width :: size_t
  Height :: size_t
  Format :: CUarray_format
  NumChannels :: "32 word"

record CUDA_ARRAY3D_DESCRIPTOR = CUDA_ARRAY_DESCRIPTOR +
  Depth :: size_t

definition array_bytes :: "CUDA_ARRAY_DESCRIPTOR \<Rightarrow> size_t option" where
  "array_bytes desc = (let totalMemoryNumber = Width desc * Height desc * ucast (NumChannels desc)
     in map_option (\<lambda>formatSize. totalMemoryNumber * formatSize) (CUarray_format_to_size_t (Format desc)))"

definition array3d_bytes :: "CUDA_ARRAY3D_DESCRIPTOR \<Rightarrow> size_t option" where
  "array3d_bytes desc = (let totalMemoryNumber = Width desc * Height desc * Depth desc * ucast (NumChannels desc)
     in map_option (\<lambda>formatSize. totalMemoryNumber * formatSize) (CUarray_format_to_size_t (Format desc)))"

definition cuArrayCreate_prehook where
  "cuArrayCreate_prehook ops pAllocateArray h w = (case array_bytes pAllocateArray of
     None \<Rightarrow> Inl Undefined | Some n \<Rightarrow> cuMemAlloc_prehook ops n h w)"

definition cuArrayCreate_posthook where
  "cuArrayCreate_posthook ops pHandle pAllocateArray h w = (case array_bytes pAllocateArray of
     None \<Rightarrow> Inl Undefined | Some n \<Rightarrow> cuMemAlloc_posthook ops pHandle n h w)"

definition cuArray3DCreate_prehook where
  "cuArray3DCreate_prehook ops pAllocateArray h w = (case array3d_bytes pAllocateArray of
     None \<Rightarrow> Inl Undefined | Some n \<Rightarrow> cuMemAlloc_prehook ops n h w)"

definition cuArray3DCreate_posthook where
  "cuArray3DCreate_posthook ops pHandle pAllocateArray h w = (case array3d_bytes pAllocateArray of
     None \<Rightarrow> Inl Undefined | Some n \<Rightarrow> cuMemAlloc_posthook ops pHandle n h w)"

definition cuMipmappedArrayCreate_prehook where
  "cuMipmappedArrayCreate_prehook ops pMipmappedArrayDesc numMipmapLevels h w = Inr (CUDA_SUCCESS, h, w)"

definition cuMipmappedArrayCreate_posthook where
  "cuMipmappedArrayCreate_posthook ops pHandle pMipmappedArrayDesc numMipmapLevels h w = Inr (CUDA_SUCCESS, h, w)"

section \<open>The generated functions\<close>

datatype mem_call =
    MemAlloc size_t
  | MemAllocManaged size_t int32
  | MemAllocPitch size_t size_t int32
  | MemFree size_t
  | ArrayCreate CUDA_ARRAY_DESCRIPTOR
  | Array3DCreate CUDA_ARRAY3D_DESCRIPTOR
  | MipmappedArrayCreate CUDA_ARRAY3D_DESCRIPTOR int32
  | ArrayDestroy size_t
  | MipmappedArrayDestroy size_t

record ('h, 'w) call_frame =
  out_ptr :: size_t
  out_pitch :: size_t
  frame_lib :: 'h
  frame_world :: 'w

fun call_symbol :: "mem_call \<Rightarrow> HookSymbols" where
  "call_symbol (MemAlloc n) = CU_HOOK_MEM_ALLOC"
| "call_symbol (MemAllocManaged n flags) = CU_HOOK_MEM_ALLOC_MANAGED"
| "call_symbol (MemAllocPitch wd ht es) = CU_HOOK_MEM_ALLOC_PITCH"
| "call_symbol (MemFree p) = CU_HOOK_MEM_FREE"
| "call_symbol (ArrayCreate d) = CU_HOOK_ARRAY_CREATE"
| "call_symbol (Array3DCreate d) = CU_HOOK_ARRAY3D_CREATE"
| "call_symbol (MipmappedArrayCreate d l) = CU_HOOK_MIPMAPPED_ARRAY_CREATE"
| "call_symbol (ArrayDestroy p) = CU_HOOK_ARRAY_DESTROY"
| "call_symbol (MipmappedArrayDestroy p) = CU_HOOK_MIPMAPPED_ARRAY_DESTROY"

text \<open>A hook called with the arguments of a call; any other pair would be a call through a pointer of
  the wrong type.\<close>

definition hook_body ::
  "('w, 'o) hook_ops_scheme \<Rightarrow> hook_fn \<Rightarrow> mem_call \<Rightarrow> size_t \<Rightarrow> size_t \<Rightarrow> 'z hook_lib_scheme \<Rightarrow> 'w
    \<Rightarrow> hook_error + CUresult \<times> 'z hook_lib_scheme \<times> 'w" where
  "hook_body ops fp call p q h w = (case call of
     MemAlloc n \<Rightarrow>
       if fp = fp_cuMemAlloc_prehook then cuMemAlloc_prehook ops n h w
       else if fp = fp_cuMemAlloc_posthook then cuMemAlloc_posthook ops p n h w else Inl Undefined
   | MemAllocManaged n flags \<Rightarrow>
       if fp = fp_cuMemAllocManaged_prehook then cuMemAllocManaged_prehook ops n flags h w
       else if fp = fp_cuMemAllocManaged_posthook then cuMemAllocManaged_posthook ops p n flags h w else Inl Undefined
   | MemAllocPitch wd ht es \<Rightarrow>
       if fp = fp_cuMemAllocPitch_prehook then cuMemAllocPitch_prehook ops q wd ht es h w
       else if fp = fp_cuMemAllocPitch_posthook then cuMemAllocPitch_posthook ops p q wd ht es h w else Inl Undefined
   | MemFree x \<Rightarrow> if fp = fp_cuMemFree_prehook then cuMemFree_prehook ops x h w else Inl Undefined
   | ArrayCreate d \<Rightarrow>
       if fp = fp_cuArrayCreate_prehook then cuArrayCreate_prehook ops d h w
       else if fp = fp_cuArrayCreate_posthook then cuArrayCreate_posthook ops p d h w else Inl Undefined
   | Array3DCreate d \<Rightarrow>
       if fp = fp_cuArray3DCreate_prehook then cuArray3DCreate_prehook ops d h w
       else if fp = fp_cuArray3DCreate_posthook then cuArray3DCreate_posthook ops p d h w else Inl Undefined
   | MipmappedArrayCreate d l \<Rightarrow>
       if fp = fp_cuMipmappedArrayCreate_prehook then cuMipmappedArrayCreate_prehook ops d l h w
       else if fp = fp_cuMipmappedArrayCreate_posthook then cuMipmappedArrayCreate_posthook ops p d l h w else Inl Undefined
   | ArrayDestroy x \<Rightarrow> if fp = fp_cuArrayDestroy_prehook then cuArrayDestroy_prehook ops x h w else Inl Undefined
   | MipmappedArrayDestroy x \<Rightarrow>
       if fp = fp_cuMipmappedArrayDestroy_prehook then cuMipmappedArrayDestroy_prehook ops x h w else Inl Undefined)"

definition run_hook ::
  "('w, 'o) hook_ops_scheme \<Rightarrow> mem_call \<Rightarrow> hook_fn \<Rightarrow> ('z hook_lib_scheme, 'w) call_frame
    \<Rightarrow> hook_error + CUresult \<times> ('z hook_lib_scheme, 'w) call_frame" where
  "run_hook ops call fp f = (case hook_body ops fp call (out_ptr f) (out_pitch f) (frame_lib f) (frame_world f) of
     Inl e \<Rightarrow> Inl e | Inr (r, h, w) \<Rightarrow> Inr (r, f\<lparr>frame_lib := h, frame_world := w\<rparr>))"

type_synonym 'w driver = "mem_call \<Rightarrow> size_t \<Rightarrow> size_t \<Rightarrow> 'w \<Rightarrow> CUresult \<times> size_t \<times> size_t \<times> 'w"

definition real_call :: "'w driver \<Rightarrow> mem_call \<Rightarrow> ('h, 'w) call_frame \<Rightarrow> CUresult \<times> ('h, 'w) call_frame" where
  "real_call drv call f = (case drv call (out_ptr f) (out_pitch f) (frame_world f) of
     (r, p, q, w) \<Rightarrow> (r, f\<lparr>out_ptr := p, out_pitch := q, frame_world := w\<rparr>))"

definition mem_api ::
  "('w, 'o) hook_ops_scheme \<Rightarrow> 'w driver \<Rightarrow> mem_call \<Rightarrow> hookInfo \<Rightarrow> ('z hook_lib_scheme, 'w) call_frame
    \<Rightarrow> hook_error + CUresult \<times> hookInfo \<times> ('z hook_lib_scheme, 'w) call_frame" where
  "mem_api ops drv call hook_inf f = intercept (run_hook ops call) (real_call drv call) (call_symbol call) hook_inf f"

section \<open>Reporting memory\<close>

definition count_call :: "HookSymbols \<Rightarrow> hookInfo \<Rightarrow> hookInfo" where
  "count_call sy hi = (if debug_mode hi then hi\<lparr>call_count := (call_count hi)(sy := call_count hi sy + 1)\<rparr> else hi)"

definition cuDeviceTotalMem where
  "cuDeviceTotalMem ops dev hi h w = (case get_gpu_memory_info ops h w of
     Inl e \<Rightarrow> Inl e
   | Inr (mem_info, h, w) \<Rightarrow> Inr (CUDA_SUCCESS, snd mem_info, count_call CU_HOOK_DEVICE_TOTOAL_MEM hi, h, w))"

definition cuMemGetInfo where
  "cuMemGetInfo ops hi h w = (case get_gpu_memory_info ops h w of
     Inl e \<Rightarrow> Inl e
   | Inr (mem_info, h, w) \<Rightarrow> Inr (CUDA_SUCCESS, fst mem_info, snd mem_info, count_call CU_HOOK_MEM_INFO hi, h, w))"

section \<open>What the requests leave alone\<close>

lemma communicate_frame:
  assumes "communicate ops sbuf rbuf timeout device h w = Inr (rc, rbuf', h', w')"
  shows "\<exists>fds. h' = h\<lparr>sockfd_of := fds\<rparr> \<and> length fds = length (sockfd_of h)"
  using assms
  by (auto simp: communicate_def Let_def split: sum.splits prod.splits if_splits option.splits)

lemma memory_request_frame:
  assumes "memory_request ops type args h w = Inr (att, h', w')"
  shows "\<exists>st fds. h' = h\<lparr>hook_comm := st, sockfd_of := fds\<rparr> \<and> length fds = length (sockfd_of h)"
proof -
  obtain st sbuf device rc rbuf' where
    "communicate ops sbuf (stack_bytes ops) NET_OP_RETRY_INTV device (h\<lparr>hook_comm := st\<rparr>) w = Inr (rc, rbuf', h', w')"
    using assms by (auto simp: memory_request_def split: sum.splits option.splits if_splits)
  from communicate_frame [OF this] show ?thesis by auto
qed

lemma update_memory_usage_frame:
  "update_memory_usage ops bytes flag h w = Inr (v, h', w') \<Longrightarrow>
   \<exists>st fds. h' = h\<lparr>hook_comm := st, sockfd_of := fds\<rparr> \<and> length fds = length (sockfd_of h)"
  using memory_request_frame [of ops REQ_MEM_UPDATE "[ASize bytes, AInt flag]" h w _ h' w']
  by (auto simp: update_memory_usage_def split: sum.splits option.splits)

section \<open>The account of a device is a ledger\<close>

definition lib_wf :: "'z hook_lib_scheme \<Rightarrow> bool" where
  "lib_wf h \<longleftrightarrow> length (sockfd_of h) = nat max_gpu_num \<and> length (allocation_maps h) = nat max_gpu_num
     \<and> length (gpu_mem_used h) = nat max_gpu_num"

lemma new_hook_lib_wf: "lib_wf new_hook_lib"
  by (simp add: lib_wf_def new_hook_lib_def)

text \<open>
  The hooks that change the account of a device, on the library and the world. Nothing is assumed of the
  pointers the driver hands out: when it hands out one that is still in the library's table of the
  device (after the context that owned it was destroyed, say, or when it was released while another
  device was current), the posthook overwrites the entry. The third component of a state lists the
  entries lost in this way.
\<close>

definition overwritten :: "(size_t \<rightharpoonup> size_t) \<Rightarrow> size_t \<Rightarrow> CUresult \<Rightarrow> (size_t \<times> size_t) list" where
  "overwritten m p r = (case m p of Some v \<Rightarrow> if r = CUDA_SUCCESS then [(p, v)] else [] | None \<Rightarrow> [])"

inductive account_step ::
  "('w, 'o) hook_ops_scheme \<Rightarrow> int \<Rightarrow> 'z hook_lib_scheme \<times> 'w \<times> (size_t \<times> size_t) list
    \<Rightarrow> 'z hook_lib_scheme \<times> 'w \<times> (size_t \<times> size_t) list \<Rightarrow> bool" for ops device where
  account_free: "op_device ops w = (CUDA_SUCCESS, device) \<Longrightarrow> lib_wf h \<Longrightarrow>
    cuMemFree_prehook ops p h w = Inr (r, h', w') \<Longrightarrow> account_step ops device (h, w, lost) (h', w', lost)"
| account_alloc: "op_device ops w = (CUDA_SUCCESS, device) \<Longrightarrow> lib_wf h \<Longrightarrow>
    cuMemAlloc_posthook ops p n h w = Inr (r, h', w') \<Longrightarrow>
    account_step ops device (h, w, lost) (h', w', lost @ overwritten (allocation_maps h ! nat device) p r)"
| account_driver: "account_step ops device (h, w, lost) (h, w', lost)"

definition device_used :: "int \<Rightarrow> 'z hook_lib_scheme \<times> 'w \<times> (size_t \<times> size_t) list \<Rightarrow> size_t" where
  "device_used device s = gpu_mem_used (fst s) ! nat device - sum_list (map snd (snd (snd s)))"

definition device_book :: "int \<Rightarrow> 'z hook_lib_scheme \<times> 'w \<times> (size_t \<times> size_t) list \<Rightarrow> size_t \<rightharpoonup> size_t" where
  "device_book device s = allocation_maps (fst s) ! nat device"

lemma sum_overwritten: "sum_list (map snd (overwritten m p r)) = (if r = CUDA_SUCCESS then entry m p else 0)"
  by (simp add: overwritten_def entry_def split: option.split)

lemma free_prehook_cases:
  assumes "cuMemFree_prehook ops p h w = Inr (r, h', w')" and "op_device ops w = (CUDA_SUCCESS, device)" and "lib_wf h"
  shows "r = CUDA_SUCCESS \<and> 0 \<le> device \<and> device < max_gpu_num \<and> lib_wf h'
    \<and> gpu_mem_used h' ! nat device = gpu_mem_used h ! nat device - entry (allocation_maps h ! nat device) p
    \<and> allocation_maps h' ! nat device = (allocation_maps h ! nat device)(p := None)"
proof -
  have dev: "0 \<le> device" "device < max_gpu_num"
    using assms(1,2) by (auto simp: cuMemFree_prehook_def get_current_device_id_def split: if_splits)
  show ?thesis
  proof (cases "(allocation_maps h ! nat device) p")
    case None
    then have "h' = h \<and> r = CUDA_SUCCESS"
      using assms(1,2) dev by (auto simp: cuMemFree_prehook_def get_current_device_id_def)
    then show ?thesis using None dev assms(3) by (auto simp: entry_def fun_upd_idem)
  next
    case (Some n)
    let ?h = "h\<lparr>gpu_mem_used := (gpu_mem_used h)[nat device := gpu_mem_used h ! nat device - n]\<rparr>"
    obtain v h1 where u: "update_memory_usage ops n 0 ?h w = Inr (v, h1, w')" and r: "r = CUDA_SUCCESS"
      and h': "h' = h1\<lparr>allocation_maps := (allocation_maps h1)[nat device := (allocation_maps h1 ! nat device)(p := None)]\<rparr>"
      using assms(1,2) dev Some
      by (auto simp: cuMemFree_prehook_def get_current_device_id_def Let_def split: sum.splits)
    show ?thesis
      using update_memory_usage_frame [OF u] h' r dev assms(3) Some by (auto simp: lib_wf_def entry_def max_gpu_num_def)
  qed
qed

lemma alloc_posthook_cases:
  assumes "cuMemAlloc_posthook ops p n h w = Inr (r, h', w')" and "op_device ops w = (CUDA_SUCCESS, device)" and "lib_wf h"
  shows "lib_wf h' \<and> (r = CUDA_ERROR_OUT_OF_MEMORY \<and> gpu_mem_used h' = gpu_mem_used h \<and> allocation_maps h' = allocation_maps h
    \<or> r = CUDA_SUCCESS \<and> 0 \<le> device \<and> device < max_gpu_num
      \<and> gpu_mem_used h' ! nat device = gpu_mem_used h ! nat device + n
      \<and> allocation_maps h' ! nat device = (allocation_maps h ! nat device)(p \<mapsto> n))"
proof -
  obtain v h1 w1 where u: "update_memory_usage ops n 1 h w = Inr (v, h1, w1)"
    using assms(1,2) by (auto simp: cuMemAlloc_posthook_def get_current_device_id_def split: sum.splits)
  show ?thesis
    using update_memory_usage_frame [OF u] u assms
    by (auto simp: cuMemAlloc_posthook_def get_current_device_id_def lib_wf_def max_gpu_num_def split: if_splits)
qed

lemma account_step_total:
  assumes "account_step ops device s t" and "finite (dom (device_book device s))"
  shows "finite (dom (device_book device t))
    \<and> device_used device t - device_used device s = map_total (device_book device t) - map_total (device_book device s)"
  using assms
proof cases
  case (account_free w h p r h' w' lost)
  with free_prehook_cases [OF this(5,3,4)] assms(2) show ?thesis
    by (simp add: device_used_def device_book_def map_total_del)
next
  case (account_alloc w h p n r h' w' lost)
  with alloc_posthook_cases [OF this(5,3,4)] assms(2) show ?thesis
    by (auto simp: device_used_def device_book_def map_total_upd sum_overwritten)
next
  case (account_driver h w lost w')
  with assms(2) show ?thesis by (simp add: device_used_def device_book_def)
qed

interpretation dev: ledger "device_used device" "device_book device" "account_step ops device" for device ops
  by unfold_locales (use account_step_total in auto)

section \<open>What the generated functions do\<close>

text \<open>The three kinds of calls: those that book memory under the pointer the driver returns (\<open>None\<close>: of
  unknown size), those that release a pointer, and those the library does not account for.\<close>

datatype track_kind = Books "size_t option" | Releases size_t | Untracked

fun tracking :: "mem_call \<Rightarrow> size_t \<Rightarrow> track_kind" where
  "tracking (MemAlloc n) q = Books (Some n)"
| "tracking (MemAllocManaged n flags) q = Untracked"
| "tracking (MemAllocPitch wd ht es) q = Books (Some (q * ht))"
| "tracking (MemFree p) q = Releases p"
| "tracking (ArrayCreate d) q = Books (array_bytes d)"
| "tracking (Array3DCreate d) q = Books (array3d_bytes d)"
| "tracking (MipmappedArrayCreate d l) q = Untracked"
| "tracking (ArrayDestroy p) q = Releases p"
| "tracking (MipmappedArrayDestroy p) q = Releases p"

definition placed :: "hookInfo \<Rightarrow> bool" where
  "placed hi \<longleftrightarrow> preHooks hi = preHooks (place_hooks (new_hookInfo None)) \<and> postHooks hi = postHooks (place_hooks (new_hookInfo None))"

lemma placed_place_hooks: "placed (place_hooks (new_hookInfo env))"
  by (simp add: placed_def place_hooks_def new_hookInfo_def)

lemma placed_slots:
  assumes "placed hi"
  shows "\<exists>g. preHooks hi (call_symbol call) = Some g \<and>
    (\<forall>p q h w. hook_body ops g call p q h w = (case tracking call q of
      Books None \<Rightarrow> Inl Undefined | Books (Some n) \<Rightarrow> cuMemAlloc_prehook ops n h w
    | Releases x \<Rightarrow> cuMemFree_prehook ops x h w | Untracked \<Rightarrow> Inr (CUDA_SUCCESS, h, w)))"
  using assms
  by (cases call)
     (auto simp: placed_def place_hooks_def new_hookInfo_def hook_body_def cuMemAllocManaged_prehook_def
       cuMemAllocPitch_prehook_def cuArrayCreate_prehook_def cuArray3DCreate_prehook_def cuMipmappedArrayCreate_prehook_def
       cuArrayDestroy_prehook_def cuMipmappedArrayDestroy_prehook_def split: option.splits)

lemma placed_post_slots:
  assumes "placed hi"
  shows "(\<exists>x. \<forall>q. tracking call q = Releases x) \<and> postHooks hi (call_symbol call) = None
    \<or> (\<forall>q x. tracking call q \<noteq> Releases x) \<and> (\<exists>g. postHooks hi (call_symbol call) = Some g \<and>
        (\<forall>p q h w. hook_body ops g call p q h w = (case tracking call q of
          Books None \<Rightarrow> Inl Undefined | Books (Some n) \<Rightarrow> cuMemAlloc_posthook ops p n h w
        | _ \<Rightarrow> Inr (CUDA_SUCCESS, h, w))))"
  using assms
  by (cases call)
     (auto simp: placed_def place_hooks_def new_hookInfo_def hook_body_def cuMemAllocManaged_posthook_def
       cuMemAllocPitch_posthook_def cuArrayCreate_posthook_def cuArray3DCreate_posthook_def cuMipmappedArrayCreate_posthook_def
       split: option.splits)

lemma mem_api_blocked:
  assumes "placed hi" and "preHooks hi (call_symbol call) = Some g" and "run_hook ops call g f = Inr (r, f')" and "r \<noteq> CUDA_SUCCESS"
  shows "\<exists>hi'. mem_api ops drv call hi f = Inr (r, hi', f') \<and> placed hi'"
  using intercept_blocked [where run_hook = "run_hook ops call" and real_func = "real_call drv call", OF assms(2-4)] assms(1)
  by (auto simp: mem_api_def placed_def)

lemma mem_api_driver_error:
  assumes "placed hi" and "preHooks hi (call_symbol call) = Some g" and "run_hook ops call g f = Inr (CUDA_SUCCESS, f1)"
    and "real_call drv call f1 = (r, f2)" and "r \<noteq> CUDA_SUCCESS \<or> postHooks hi (call_symbol call) = None"
  shows "\<exists>hi'. mem_api ops drv call hi f = Inr (r, hi', f2) \<and> placed hi'"
  using intercept_driver_error [where run_hook = "run_hook ops call" and real_func = "real_call drv call", OF assms(2-5)] assms(1)
  by (auto simp: mem_api_def placed_def)

lemma mem_api_passed:
  assumes "placed hi" and "preHooks hi (call_symbol call) = Some g" and "run_hook ops call g f = Inr (CUDA_SUCCESS, f1)"
    and "real_call drv call f1 = (CUDA_SUCCESS, f2)" and "postHooks hi (call_symbol call) = Some g'"
    and "run_hook ops call g' f2 = Inr (r, f3)"
  shows "\<exists>hi'. mem_api ops drv call hi f = Inr (r, hi', f3) \<and> placed hi'"
  using intercept_passed [where run_hook = "run_hook ops call" and real_func = "real_call drv call", OF assms(2-6)] assms(1)
  by (auto simp: mem_api_def placed_def)

lemma unat_mult_mod: "unat (a * b :: size_t) = unat a * unat b mod 2 ^ 64"
  by (simp add: unat_word_ariths)

lemma unat_mult4_mod: "unat (a * b * c * d :: size_t) = unat a * unat b * unat c * unat d mod 2 ^ 64"
  by (simp add: unat_mult_mod mod_mult_left_eq)

text \<open>A pod manager that grants every update; the world counts the messages sent.\<close>

definition granting_ops :: "nat hook_ops" where
  "granting_ops = \<lparr>op_env = \<lparr>env_pod_name = Some ''pod1'', env_hostname = ''node''\<rparr>, op_device = (\<lambda>w. (CUDA_SUCCESS, 1)),
     op_socket = (\<lambda>w. (3, w)), op_connect = (\<lambda>_ _ _ w. (0, 0, w)), op_timeout = (\<lambda>_ _ w. w),
     op_send = (\<lambda>_ _ w. (80, 0, w + 1)), op_recv = (\<lambda>_ buf w. (40, 0, bytes32 0 @ bytes32 1 @ drop 8 buf, w)),
     op_sleep = (\<lambda>_ w. w), stack_bytes = replicate RSP_MSG_LEN 0\<rparr>"

definition two_gpu_lib :: hook_lib where
  "two_gpu_lib = new_hook_lib\<lparr>pod_manager_port_list := [50052, 50053], current_gpu_num := 2\<rparr>"

lemma resolve_name_after:
  "prepare_request env st buf type args = Some (rid, st', msg) \<Longrightarrow> resolve_name env st' = resolve_name env st"
  by (auto simp: prepare_request_def Let_def bind_eq_Some_conv resolve_name_def)

lemma update_memory_usage_granted:
  assumes "device_ok h 1" and "length (resolve_name (op_env granting_ops) (hook_comm h)) \<le> 51"
  shows "\<exists>h'. update_memory_usage granting_ops bytes flag h w = Inr (1, h', w + 1)
    \<and> resolve_name (op_env granting_ops) (hook_comm h') = resolve_name (op_env granting_ops) (hook_comm h)"
proof -
  obtain rid st sbuf where p: "prepare_request (op_env granting_ops) (hook_comm h) (replicate REQ_MSG_LEN 0) REQ_MEM_UPDATE
      [ASize bytes, AInt flag] = Some (rid, st, sbuf)"
    using prepare_request_layout [of "replicate REQ_MSG_LEN 0" REQ_MEM_UPDATE "[ASize bytes, AInt flag]" _ "op_env granting_ops" "hook_comm h"]
      assms(2) by (auto simp: Let_def REQ_MSG_LEN_def)
  have ok: "device_ok (h\<lparr>hook_comm := st\<rparr>) 1" using assms(1) by (simp add: device_ok_def)
  have "\<exists>h'. communicate granting_ops sbuf (stack_bytes granting_ops) NET_OP_RETRY_INTV 1 (h\<lparr>hook_comm := st\<rparr>) w =
      Inr (0, bytes32 0 @ bytes32 1 @ replicate 32 0, h', w + 1)"
    using communicate_first_try [OF ok, of granting_ops w 3 w 0 w sbuf NET_OP_RETRY_INTV 80 0 "w + 1"
        "replicate RSP_MSG_LEN 0" 40 0 "bytes32 0 @ bytes32 1 @ replicate 32 0" "w + 1"]
    by (auto simp: granting_ops_def RSP_MSG_LEN_def)
  then obtain h' where c: "communicate granting_ops sbuf (stack_bytes granting_ops) NET_OP_RETRY_INTV 1 (h\<lparr>hook_comm := st\<rparr>) w =
      Inr (0, bytes32 0 @ bytes32 1 @ replicate 32 0, h', w + 1)" by blast
  obtain off where off: "parse_response (bytes32 0 @ bytes32 1 @ replicate 32 0) = Some (0, off)"
      "attached_data (bytes32 0 @ bytes32 1 @ replicate 32 0) off = bytes32 1 @ replicate 32 0"
    using parse_response_layout [of 0 "bytes32 1 @ replicate 32 0"] by auto
  have g: "get_msg_data 4 word32 (bytes32 1 @ replicate 32 0) 0 = Some (1, 4)"
    using d32.get_at [of "[]" 1 "replicate 32 0"] by (simp add: after_Nil) (simp add: after_def)
  have d: "get_current_device_id granting_ops w = Inr 1" by (simp add: get_current_device_id_def granting_ops_def)
  have "resolve_name (op_env granting_ops) (hook_comm h') = resolve_name (op_env granting_ops) (hook_comm h)"
    using communicate_frame [OF c] resolve_name_after [OF p] by auto
  then show ?thesis by (simp add: update_memory_usage_def memory_request_def p d c off g)
qed

section \<open>Properties\<close>

text \<open>C29. The library's account of a device: over any run of \<^verbatim>\<open>cuMemFree_prehook\<close> and
  \<^verbatim>\<open>cuMemAlloc_posthook\<close> on that device, whatever the pod manager answers and whatever pointers the
  driver hands out, \<^verbatim>\<open>gpu_mem_used\<close> is, modulo \<open>2^64\<close>, the sum of the sizes in \<^verbatim>\<open>allocation_map\<close> and of the
  entries that were overwritten because the driver handed out a pointer that was still in the map. So
  the account is balanced as long as this does not happen, and by the overwritten entries too high when
  it does: nothing takes them off again.\<close>

theorem hook_account_balanced:
  assumes "(account_step ops device)\<^sup>*\<^sup>* (h, w, []) (h', w', lost)"
    and "finite (dom (allocation_maps h ! nat device))"
    and "gpu_mem_used h ! nat device = map_total (allocation_maps h ! nat device)"
  shows "finite (dom (allocation_maps h' ! nat device))
    \<and> gpu_mem_used h' ! nat device = map_total (allocation_maps h' ! nat device) + sum_list (map snd lost)"
proof -
  have "dev.balanced device (h, w, [])" using assms(2,3) by (simp add: dev.balanced_def device_used_def device_book_def)
  then have "dev.balanced device (h', w', lost)" by (rule dev.run_balanced [OF assms(1)])
  then show ?thesis by (simp add: dev.balanced_def device_used_def device_book_def diff_eq_eq)
qed

text \<open>Two allocations of 300 and 500 bytes for which the driver hands out the same pointer.\<close>

theorem hook_account_balanced_witness:
  "\<exists>h1 h2. cuMemAlloc_posthook granting_ops 4096 300 two_gpu_lib 0 = Inr (CUDA_SUCCESS, h1, 1)
     \<and> gpu_mem_used h1 ! 1 = map_total (allocation_maps h1 ! 1)
     \<and> cuMemAlloc_posthook granting_ops 4096 500 h1 1 = Inr (CUDA_SUCCESS, h2, 2)
     \<and> gpu_mem_used h2 ! 1 = map_total (allocation_maps h2 ! 1) + 300"
proof -
  have w: "lib_wf two_gpu_lib" "device_ok two_gpu_lib 1" "allocation_maps two_gpu_lib ! 1 = Map.empty"
      "gpu_mem_used two_gpu_lib ! 1 = 0" "hook_comm two_gpu_lib = comm_init"
    by (simp_all add: lib_wf_def device_ok_def two_gpu_lib_def new_hook_lib_def max_gpu_num_def numeral_eq_Suc)
  have dv: "op_device granting_ops k = (CUDA_SUCCESS, 1)" for k by (simp add: granting_ops_def)
  have post: "\<exists>h'. cuMemAlloc_posthook granting_ops 4096 n h k = Inr (CUDA_SUCCESS, h', k + 1) \<and> device_ok h' 1
      \<and> length (resolve_name (op_env granting_ops) (hook_comm h')) \<le> 51"
    if ok: "device_ok h 1" "length (resolve_name (op_env granting_ops) (hook_comm h)) \<le> 51" for n h k
  proof -
    obtain h' where u: "update_memory_usage granting_ops n 1 h k = Inr (1, h', k + 1)"
        "length (resolve_name (op_env granting_ops) (hook_comm h')) \<le> 51"
      using update_memory_usage_granted [OF ok, of n 1 k] ok(2) by auto
    from update_memory_usage_frame [OF u(1)] have "device_ok h' 1" using ok(1) by (auto simp: device_ok_def)
    then show ?thesis
      using u by (simp add: cuMemAlloc_posthook_def get_current_device_id_def dv max_gpu_num_def device_ok_def)
  qed
  obtain h1 where h1: "cuMemAlloc_posthook granting_ops 4096 300 two_gpu_lib 0 = Inr (CUDA_SUCCESS, h1, 1)" "device_ok h1 1"
      "length (resolve_name (op_env granting_ops) (hook_comm h1)) \<le> 51"
    using post [OF w(2), of 300 0] by (auto simp: w resolve_name_def comm_init_def granting_ops_def)
  obtain h2 where h2: "cuMemAlloc_posthook granting_ops 4096 500 h1 1 = Inr (CUDA_SUCCESS, h2, 2)"
    using post [OF h1(2,3), of 500 1] by (auto simp: numeral_2_eq_2)
  have m1: "lib_wf h1" "allocation_maps h1 ! 1 = [4096 \<mapsto> 300]"
    using alloc_posthook_cases [OF h1(1) dv w(1)] w(3) by simp_all
  have s1: "account_step granting_ops 1 (two_gpu_lib, 0, []) (h1, 1, [])"
    using account_alloc [OF dv w(1) h1(1), of "[]"] w(3) by (simp add: overwritten_def)
  have s2: "account_step granting_ops 1 (h1, 1, []) (h2, 2, [(4096, 300)])"
    using account_alloc [OF dv m1(1) h2, of "[]"] m1(2) by (simp add: overwritten_def)
  have "gpu_mem_used h1 ! 1 = map_total (allocation_maps h1 ! 1)"
    using hook_account_balanced [of granting_ops 1 two_gpu_lib 0 h1 1 "[]"] s1 w(3,4) by auto
  moreover have "gpu_mem_used h2 ! 1 = map_total (allocation_maps h2 ! 1) + 300"
    using hook_account_balanced [of granting_ops 1 two_gpu_lib 0 h2 2 "[(4096, 300)]"]
      rtranclp.rtrancl_into_rtrancl [OF r_into_rtranclp [of "account_step granting_ops 1", OF s1] s2] w(3,4) by auto
  ultimately show ?thesis using h1(1) h2 by blast
qed

text \<open>The size booked for an array is the product of its dimensions, channels and element size only
  while that product fits in 64 bits: it is reduced modulo \<open>2^64\<close>. For an array without a height,
  which is how the driver interface describes a one-dimensional array, nothing is booked at all, and
  likewise for three dimensions without a depth.\<close>

lemma array_bytes_wrap:
  assumes "CUarray_format_to_size_t (Format d) = Some f" and "CUarray_format_to_size_t (Format e) = Some g"
  shows "map_option unat (array_bytes d) = Some (unat (Width d) * unat (Height d) * unat (NumChannels d) * unat f mod 2 ^ 64)
    \<and> map_option unat (array3d_bytes e) =
        Some (unat (Width e) * unat (Height e) * unat (Depth e) * unat (NumChannels e) * unat g mod 2 ^ 64)
    \<and> (Height d = 0 \<longrightarrow> array_bytes d = Some 0) \<and> (Depth e = 0 \<longrightarrow> array3d_bytes e = Some 0)"
proof (intro conjI impI)
  have u: "unat (ucast c :: size_t) = unat c" for c :: "32 word"
    using unat_int32_less [of c] by (simp add: unsigned_ucast_eq take_bit_nat_eq_self)
  show "map_option unat (array_bytes d) = Some (unat (Width d) * unat (Height d) * unat (NumChannels d) * unat f mod 2 ^ 64)"
    using assms(1) by (simp add: array_bytes_def unat_mult4_mod u)
  show "map_option unat (array3d_bytes e) =
      Some (unat (Width e) * unat (Height e) * unat (Depth e) * unat (NumChannels e) * unat g mod 2 ^ 64)"
    using assms(2) by (simp add: array3d_bytes_def unat_mult4_mod unat_mult_mod u mod_mult_left_eq)
qed (use assms in \<open>simp_all add: array_bytes_def array3d_bytes_def\<close>)

end
