(* ===== verification/Gem_Isolation.thy ===== *)
theory Gem_Isolation
  imports Gem_HookMem Gem_Pod
begin

text \<open>
  The memory hooks and the pod manager together. The world of the hook library is here the pod manager
  of the model: every \<^verbatim>\<open>communicate\<close> opens a connection that the pod manager accepts, sends a request
  that its hook thread handles, and receives the response that thread sends. The driver remains a
  parameter; what the properties need of it is that it hands out pointers that are not in use.
\<close>

section \<open>The hook library against a pod manager\<close>

record 'd gpu_world =
  gw_pod :: pod_state
  gw_next :: int
  gw_drv :: 'd

text \<open>Connections are numbered by \<open>gw_next\<close>; the response to a connection is the last message the pod
  manager has sent on it.\<close>

definition pod_ops :: "comm_env \<Rightarrow> 'd gpu_world hook_ops" where
  "pod_ops env = \<lparr>op_env = env, op_device = (\<lambda>w. (CUDA_SUCCESS, 0)),
     op_socket = (\<lambda>w. (gw_next w, w\<lparr>gw_next := gw_next w + 1\<rparr>)),
     op_connect = (\<lambda>k ip port w. (0, 0, w\<lparr>gw_pod := hook_connect k (replicate REQ_MSG_LEN 0) (gw_pod w)\<rparr>)),
     op_timeout = (\<lambda>k t w. w),
     op_send = (\<lambda>k sbuf w. case hook_message k sbuf (gw_pod w) of
        None \<Rightarrow> (-1, 32, w) | Some p \<Rightarrow> (int REQ_MSG_LEN, 0, w\<lparr>gw_pod := p\<rparr>)),
     op_recv = (\<lambda>k buf w. case filter (\<lambda>m. fst m = k) (to_hooks (gw_pod w)) of
        [] \<Rightarrow> (-1, 11, buf, w) | ms \<Rightarrow> (int RSP_MSG_LEN, 0, snd (last ms), w)),
     op_sleep = (\<lambda>t w. w), stack_bytes = replicate RSP_MSG_LEN 0\<rparr>"

lemma pod_ops_sel [simp]:
  "op_env (pod_ops env) = env" "op_device (pod_ops env) w = (CUDA_SUCCESS, 0)" "stack_bytes (pod_ops env) = replicate RSP_MSG_LEN 0"
  "get_current_device_id (pod_ops env) w = Inr 0"
  by (simp_all add: pod_ops_def get_current_device_id_def)

definition world_ok :: "comm_env \<Rightarrow> 'z hook_lib_scheme \<Rightarrow> 'd gpu_world \<Rightarrow> bool" where
  "world_ok env h w \<longleftrightarrow> device_ok h 0 \<and> c_safe (resolve_name env (hook_comm h)) \<and> length (resolve_name env (hook_comm h)) \<le> 51
     \<and> 0 \<le> gw_next w \<and> (\<forall>k\<ge>gw_next w. hooks (gw_pod w) k = HNone)"

text \<open>What an exchange does besides its effect on the account.\<close>

definition exchanged :: "comm_env \<Rightarrow> hook_lib \<Rightarrow> 'd gpu_world \<Rightarrow> hook_lib \<Rightarrow> 'd gpu_world \<Rightarrow> bool" where
  "exchanged env h w h' w' \<longleftrightarrow> world_ok env h' w' \<and> (\<exists>st fds. h' = h\<lparr>hook_comm := st, sockfd_of := fds\<rparr> \<and> length fds = length (sockfd_of h))
     \<and> gw_drv w' = gw_drv w \<and> pod_step\<^sup>*\<^sup>* (gw_pod w) (gw_pod w')"

definition pod_totals :: "'d gpu_world \<Rightarrow> size_t \<times> size_t" where
  "pod_totals w = (pod_mem_used (pod_account (gw_pod w)), pod_mem_limit (pod_account (gw_pod w)))"

section \<open>One exchange\<close>

lemma hook_message_limit:
  assumes "carries msg name rid REQ_MEM_LIMIT att"
  shows "\<exists>rsp off r. hook_message k msg s = Some (set_pc k (HRecv msg) (s\<lparr>to_hooks := to_hooks s @ [(k, rsp)]\<rparr>))
    \<and> parse_response rsp = Some (rid, off) \<and> length r = 20
    \<and> attached_data rsp off = bytes64 (pod_mem_used (pod_account s)) @ bytes64 (pod_mem_limit (pod_account s)) @ r"
proof -
  let ?args = "[ASize (pod_mem_used (pod_account s)), ASize (pod_mem_limit (pod_account s))]"
  obtain buf off where "prepare_response (replicate RSP_MSG_LEN 0) REQ_MEM_LIMIT rid ?args = Some (buf, 20)"
      "parse_response buf = Some (rid, off)"
      "attached_data buf off = bytes64 (pod_mem_used (pod_account s)) @ bytes64 (pod_mem_limit (pod_account s)) @ drop 20 (replicate RSP_MSG_LEN 0)"
    using prepare_response_parses [of "replicate RSP_MSG_LEN 0" REQ_MEM_LIMIT ?args _ rid] by auto
  then show ?thesis
    using assms by (auto simp: hook_message_def respond_def carries_def RSP_MSG_LEN_def)
qed

lemma hook_message_update:
  assumes "carries msg name rid REQ_MEM_UPDATE att" and "get_msg_data 8 word64 att 0 = Some (n, 8)"
    and "get_msg_data 4 word32 att 8 = Some (a, 12)" and "hook_update_memory_usage n a k (pod_account s) = (ok, acc)"
  shows "\<exists>rsp off r. hook_message k msg s = Some (set_pc k (HRecv msg) (s\<lparr>pod_account := acc, to_hooks := to_hooks s @ [(k, rsp)]\<rparr>))
    \<and> parse_response rsp = Some (rid, off) \<and> length r = 32 \<and> attached_data rsp off = bytes32 ok @ r"
proof -
  obtain buf off where "prepare_response (replicate RSP_MSG_LEN 0) REQ_MEM_UPDATE rid [AInt ok] = Some (buf, 8)"
      "parse_response buf = Some (rid, off)" "attached_data buf off = bytes32 ok @ drop 8 (replicate RSP_MSG_LEN 0)"
    using prepare_response_parses [of "replicate RSP_MSG_LEN 0" REQ_MEM_UPDATE "[AInt ok]" _ rid] by auto
  then show ?thesis
    using assms by (auto simp: hook_message_def respond_def carries_def RSP_MSG_LEN_def)
qed

lemma hook_connect_sel [simp]:
  "hooks (hook_connect k buf p) = (hooks p)(k := HRecv buf)" "to_hooks (hook_connect k buf p) = to_hooks p"
  "pod_account (hook_connect k buf p) = mem_connect k (pod_account p)"
  by (simp_all add: hook_connect_def set_pc_def)

lemma pod_exchange_steps:
  assumes "hooks p k = HNone" and "hook_message k msg (hook_connect k (replicate REQ_MSG_LEN 0) p) = Some p'"
    and "length msg = REQ_MSG_LEN"
  shows "pod_step\<^sup>*\<^sup>* p p'"
proof -
  have "pod_step p (hook_connect k (replicate REQ_MSG_LEN 0) p)" using assms(1) by (rule pod_accept) simp
  moreover have "pod_step (hook_connect k (replicate REQ_MSG_LEN 0) p) p'"
    by (rule pod_recv [of _ k "replicate REQ_MSG_LEN 0" msg]) (use assms in \<open>auto simp: REQ_MSG_LEN_def\<close>)
  ultimately show ?thesis by (meson converse_rtranclp_into_rtranclp rtranclp.rtrancl_refl)
qed

text \<open>A memory request: \<open>Q\<close> is what the hook thread's handling of the message establishes for the pod
  manager and the data of its response.\<close>

lemma pod_memory_request:
  fixes h :: hook_lib
  assumes ok: "world_ok env h w" and extra: "request_extra type args = Some e" "length e \<le> 12" "known_request type"
    and handled: "\<And>msg. carries msg (resolve_name env (hook_comm h)) (next_id (hook_comm h)) type
        (e @ drop (17 + length (resolve_name env (hook_comm h)) + length e) (replicate REQ_MSG_LEN 0)) \<Longrightarrow>
      \<exists>p rsp off i. hook_message (gw_next w) msg (hook_connect (gw_next w) (replicate REQ_MSG_LEN 0) (gw_pod w)) = Some p
        \<and> to_hooks p = to_hooks (gw_pod w) @ [(gw_next w, rsp)] \<and> hooks p = (hooks (gw_pod w))(gw_next w := HRecv msg)
        \<and> parse_response rsp = Some (i, off) \<and> Q p (attached_data rsp off)"
  shows "\<exists>att h' w'. memory_request (pod_ops env) type args h w = Inr (att, h', w') \<and> exchanged env h w h' w' \<and> Q (gw_pod w') att"
proof -
  let ?k = "gw_next w" and ?n = "resolve_name env (hook_comm h)"
  note w = ok [unfolded world_ok_def]
  obtain st msg where p: "prepare_request env (hook_comm h) (replicate REQ_MSG_LEN 0) type args = Some (next_id (hook_comm h), st, msg)"
      "length msg = REQ_MSG_LEN" "carries msg ?n (next_id (hook_comm h)) type (e @ drop (17 + length ?n + length e) (replicate REQ_MSG_LEN 0))"
    using prepare_request_carries [OF _ extra(1,3), of "replicate REQ_MSG_LEN 0" env "hook_comm h"] w extra(2)
    by (auto simp: REQ_MSG_LEN_def)
  obtain q rsp off i where q: "hook_message ?k msg (hook_connect ?k (replicate REQ_MSG_LEN 0) (gw_pod w)) = Some q"
      "to_hooks q = to_hooks (gw_pod w) @ [(?k, rsp)]" "hooks q = (hooks (gw_pod w))(?k := HRecv msg)"
      "parse_response rsp = Some (i, off)" "Q q (attached_data rsp off)"
    using handled [OF p(3)] by blast
  define w1 where "w1 = w\<lparr>gw_next := ?k + 1\<rparr>"
  define w2 where "w2 = w1\<lparr>gw_pod := hook_connect ?k (replicate REQ_MSG_LEN 0) (gw_pod w)\<rparr>"
  define w3 where "w3 = w2\<lparr>gw_pod := q\<rparr>"
  define h1 where "h1 = h\<lparr>hook_comm := st\<rparr>"
  define h2 where "h2 = h1\<lparr>sockfd_of := (sockfd_of h1)[0 := ?k]\<rparr>"
  obtain m ms where ms: "filter (\<lambda>m. fst m = ?k) (to_hooks q) = m # ms" "last (m # ms) = (?k, rsp)"
    by (cases "filter (\<lambda>m. fst m = ?k) (to_hooks (gw_pod w))") (auto simp: q(2))
  then have recv: "op_recv (pod_ops env) ?k (replicate RSP_MSG_LEN 0) w3 = (int RSP_MSG_LEN, 0, rsp, w3)"
    by (simp add: pod_ops_def w3_def ms(1) del: last.simps)
  have "communicate (pod_ops env) msg (replicate RSP_MSG_LEN 0) NET_OP_RETRY_INTV 0 h1 w = Inr (0, rsp, h2, w3)"
    unfolding h2_def
    by (rule communicate_first_try [of h1 0 "pod_ops env" w ?k w1 0 w2 msg NET_OP_RETRY_INTV "int REQ_MSG_LEN" 0 w3, OF _ _ _ _ _ _ recv, simplified])
       (use w q(1) in \<open>auto simp: device_ok_def pod_ops_def w1_def w2_def w3_def h1_def RSP_MSG_LEN_def REQ_MSG_LEN_def\<close>)
  then have "memory_request (pod_ops env) type args h w = Inr (attached_data rsp off, h2, w3)"
    using p(1) q(4) by (simp add: memory_request_def h1_def)
  moreover have "pod_step\<^sup>*\<^sup>* (gw_pod w) q" using pod_exchange_steps [OF _ q(1) p(2)] w by simp
  moreover have "h2 = h\<lparr>hook_comm := st, sockfd_of := (sockfd_of h)[0 := ?k]\<rparr>" by (simp add: h2_def h1_def)
  then have "\<exists>st fds. h2 = h\<lparr>hook_comm := st, sockfd_of := fds\<rparr> \<and> length fds = length (sockfd_of h)"
    by (metis length_list_update)
  moreover have "world_ok env h2 w3"
    using w q(3) resolve_name_after [OF p(1)] by (auto simp: world_ok_def device_ok_def w3_def w2_def w1_def h2_def h1_def)
  ultimately have "exchanged env h w h2 w3" "memory_request (pod_ops env) type args h w = Inr (attached_data rsp off, h2, w3)"
    by (simp_all add: exchanged_def w3_def w2_def w1_def)
  moreover have "gw_pod w3 = q" by (simp add: w3_def)
  ultimately show ?thesis using q(5) by blast
qed

lemma mem_connect_totals [simp]:
  "pod_mem_used (mem_connect k p) = pod_mem_used p" "pod_mem_limit (mem_connect k p) = pod_mem_limit p"
  by (simp_all add: mem_connect_def)

lemma pod_memory_info:
  fixes h :: hook_lib
  assumes "world_ok env h w" and "pod_totals w = (used, limit)"
  shows "\<exists>h' w'. get_gpu_memory_info (pod_ops env) h w = Inr ((limit - used, limit), h', w')
    \<and> exchanged env h w h' w' \<and> pod_totals w' = (used, limit)"
proof -
  have t: "pod_mem_used (pod_account (gw_pod w)) = used" "pod_mem_limit (pod_account (gw_pod w)) = limit"
    using assms(2) by (simp_all add: pod_totals_def)
  let ?Q = "\<lambda>p att. pod_mem_used (pod_account p) = used \<and> pod_mem_limit (pod_account p) = limit
    \<and> (\<exists>r. length r = 20 \<and> att = bytes64 used @ bytes64 limit @ r)"
  obtain att h' w' where m: "memory_request (pod_ops env) REQ_MEM_LIMIT [] h w = Inr (att, h', w')" "exchanged env h w h' w'"
    and q: "?Q (gw_pod w') att"
  proof -
    have "\<exists>p rsp off i. hook_message (gw_next w) msg (hook_connect (gw_next w) (replicate REQ_MSG_LEN 0) (gw_pod w)) = Some p
        \<and> to_hooks p = to_hooks (gw_pod w) @ [(gw_next w, rsp)] \<and> hooks p = (hooks (gw_pod w))(gw_next w := HRecv msg)
        \<and> parse_response rsp = Some (i, off) \<and> ?Q p (attached_data rsp off)"
      if "carries msg nm rid REQ_MEM_LIMIT att" for msg nm rid att
      using hook_message_limit [OF that, of "gw_next w" "hook_connect (gw_next w) (replicate REQ_MSG_LEN 0) (gw_pod w)"] t
      by (auto simp: set_pc_def)
    from pod_memory_request [OF assms(1), of REQ_MEM_LIMIT "[]" "[]" ?Q] this that show thesis by force
  qed
  obtain r where att: "att = bytes64 used @ bytes64 limit @ r" "length r = 20" using q by blast
  have "get_gpu_memory_info (pod_ops env) h w = Inr ((limit - used, limit), h', w')"
    using get_two_64 [of used limit r] att(2) by (simp add: get_gpu_memory_info_def m(1) att(1))
  then show ?thesis using m(2) q by (auto simp: pod_totals_def)
qed

lemma pod_memory_update:
  fixes h :: hook_lib
  assumes "world_ok env h w" and "pod_totals w = (used, limit)"
  shows "\<exists>v h' w'. update_memory_usage (pod_ops env) n a h w = Inr (v, h', w') \<and> exchanged env h w h' w'
    \<and> (if a = 0 then v = 1 \<and> pod_totals w' = (used - n, limit)
       else if used + n > limit then v = 0 \<and> pod_totals w' = (used, limit)
       else v = 1 \<and> pod_totals w' = (used + n, limit))"
proof -
  have t: "pod_mem_used (pod_account (gw_pod w)) = used" "pod_mem_limit (pod_account (gw_pod w)) = limit"
    using assms(2) by (simp_all add: pod_totals_def)
  obtain ok acc where u: "hook_update_memory_usage n a (gw_next w) (mem_connect (gw_next w) (pod_account (gw_pod w))) = (ok, acc)"
    by (cases "hook_update_memory_usage n a (gw_next w) (mem_connect (gw_next w) (pod_account (gw_pod w)))")
  let ?Q = "\<lambda>p att. pod_account p = acc \<and> (\<exists>r. length r = 32 \<and> att = bytes32 ok @ r)"
  let ?pad = "drop (17 + length (resolve_name env (hook_comm h)) + 12) (replicate REQ_MSG_LEN (0 :: byte))"
  obtain att h' w' where m: "memory_request (pod_ops env) REQ_MEM_UPDATE [ASize n, AInt a] h w = Inr (att, h', w')"
      "exchanged env h w h' w'" and q: "?Q (gw_pod w') att"
  proof -
    have pad: "get_msg_data 8 word64 (bytes64 n @ bytes32 a @ ?pad) 0 = Some (n, 8)"
        "get_msg_data 4 word32 (bytes64 n @ bytes32 a @ ?pad) 8 = Some (a, 12)"
      using get_64_32 [of n a ?pad] by (simp_all add: REQ_MSG_LEN_def)
    have "\<exists>p rsp off i. hook_message (gw_next w) msg (hook_connect (gw_next w) (replicate REQ_MSG_LEN 0) (gw_pod w)) = Some p
        \<and> to_hooks p = to_hooks (gw_pod w) @ [(gw_next w, rsp)] \<and> hooks p = (hooks (gw_pod w))(gw_next w := HRecv msg)
        \<and> parse_response rsp = Some (i, off) \<and> ?Q p (attached_data rsp off)"
      if "carries msg nm rid REQ_MEM_UPDATE (bytes64 n @ bytes32 a @ ?pad)" for msg nm rid
      using hook_message_update [OF that pad, of "gw_next w" "hook_connect (gw_next w) (replicate REQ_MSG_LEN 0) (gw_pod w)"] u
      by (auto simp: set_pc_def)
    from pod_memory_request [OF assms(1), of REQ_MEM_UPDATE "[ASize n, AInt a]" "bytes64 n @ bytes32 a" ?Q] this that
    show thesis by force
  qed
  obtain r where att: "att = bytes32 ok @ r" "length r = 32" using q by blast
  have "update_memory_usage (pod_ops env) n a h w = Inr (ok, h', w')"
    using d32.get_at [of "[]" ok r] att(2) by (simp add: update_memory_usage_def m(1) att(1) after_Nil)
  moreover have "pod_totals w' = (pod_mem_used acc, pod_mem_limit acc)" using q by (simp add: pod_totals_def)
  moreover have "if a = 0 then ok = 1 \<and> pod_mem_used acc = used - n else if used + n > limit then ok = 0 \<and> pod_mem_used acc = used
      else ok = 1 \<and> pod_mem_used acc = used + n" and "pod_mem_limit acc = limit"
    using u t by (auto simp: hook_update_memory_usage_def split: if_splits)
  ultimately show ?thesis using m(2) by (auto split: if_splits)
qed

section \<open>The hooks keep the accounts together\<close>

definition isolated :: "comm_env \<Rightarrow> ('d \<Rightarrow> size_t set) \<Rightarrow> size_t \<Rightarrow> hook_lib \<Rightarrow> 'd gpu_world \<Rightarrow> bool" where
  "isolated env alive limit h w \<longleftrightarrow> world_ok env h w \<and> lib_wf h \<and> pod_totals w = (gpu_mem_used h ! 0, limit)
     \<and> finite (dom (allocation_maps h ! 0)) \<and> unat (gpu_mem_used h ! 0) = map_nat_total (allocation_maps h ! 0)
     \<and> gpu_mem_used h ! 0 \<le> limit \<and> dom (allocation_maps h ! 0) \<subseteq> alive (gw_drv w)"

lemma exchanged_isolated:
  assumes "isolated env alive limit h w" and "exchanged env h w h' w'" and "pod_totals w' = pod_totals w"
  shows "isolated env alive limit h' w' \<and> allocation_maps h' = allocation_maps h \<and> gpu_mem_used h' = gpu_mem_used h"
  using assms by (auto simp: isolated_def exchanged_def lib_wf_def)

lemma alloc_prehook_isolated:
  assumes "isolated env alive limit h w"
  shows "\<exists>h' w'. cuMemAlloc_prehook (pod_ops env) n h w =
      Inr (if n > limit - gpu_mem_used h ! 0 then CUDA_ERROR_OUT_OF_MEMORY else CUDA_SUCCESS, h', w')
    \<and> isolated env alive limit h' w' \<and> exchanged env h w h' w'"
proof -
  have t: "pod_totals w = (gpu_mem_used h ! 0, limit)" "world_ok env h w" using assms by (auto simp: isolated_def)
  obtain h' w' where g: "get_gpu_memory_info (pod_ops env) h w = Inr ((limit - gpu_mem_used h ! 0, limit), h', w')"
      "exchanged env h w h' w'" "pod_totals w' = (gpu_mem_used h ! 0, limit)"
    using pod_memory_info [OF t(2,1)] by blast
  then show ?thesis using exchanged_isolated [OF assms g(2)] t(1) by (simp add: cuMemAlloc_prehook_def)
qed

lemma world_ok_cong:
  "pod_manager_port_list h' = pod_manager_port_list h \<Longrightarrow> length (sockfd_of h') = length (sockfd_of h) \<Longrightarrow> hook_comm h' = hook_comm h \<Longrightarrow>
   world_ok env h' w = world_ok env h w"
  by (simp add: world_ok_def device_ok_def)

lemma free_prehook_isolated:
  assumes "isolated env alive limit h w"
  shows "\<exists>h' w'. cuMemFree_prehook (pod_ops env) x h w = Inr (CUDA_SUCCESS, h', w') \<and> isolated env alive limit h' w'
    \<and> allocation_maps h' ! 0 = (allocation_maps h ! 0)(x := None) \<and> gw_drv w' = gw_drv w \<and> pod_step\<^sup>*\<^sup>* (gw_pod w) (gw_pod w')"
proof (cases "(allocation_maps h ! 0) x")
  case None
  then have "cuMemFree_prehook (pod_ops env) x h w = Inr (CUDA_SUCCESS, h, w)" by (simp add: cuMemFree_prehook_def max_gpu_num_def)
  then show ?thesis using assms None by (auto simp: fun_upd_idem)
next
  case (Some n)
  note iso = assms [unfolded isolated_def]
  let ?m = "allocation_maps h ! 0" and ?u = "gpu_mem_used h ! 0"
  let ?h = "h\<lparr>gpu_mem_used := (gpu_mem_used h)[0 := ?u - n]\<rparr>"
  have "world_ok env ?h w" using iso world_ok_cong [of ?h h env w] by simp
  then obtain v h1 w' where u: "update_memory_usage (pod_ops env) n 0 ?h w = Inr (v, h1, w')"
      "exchanged env ?h w h1 w'" "pod_totals w' = (?u - n, limit)"
    using pod_memory_update [of env ?h w ?u limit n 0] iso by auto
  define h' where "h' = h1\<lparr>allocation_maps := (allocation_maps h1)[0 := (allocation_maps h1 ! 0)(x := None)]\<rparr>"
  have h1: "allocation_maps h1 = allocation_maps h" "gpu_mem_used h1 = (gpu_mem_used h)[0 := ?u - n]" using u(2) by (auto simp: exchanged_def)
  have "unat n \<le> map_nat_total ?m" using entry_le_total [of ?m x] iso Some by (simp add: entry_def)
  then have n: "n \<le> ?u" using iso by (simp add: word_le_nat_alt)
  have tot: "unat (?u - n) = map_nat_total (?m(x := None))"
    using map_nat_total_split [of ?m x] word_sub_exact [OF n] iso Some by (simp add: entry_def)
  have w': "world_ok env h1 w'" "gw_drv w' = gw_drv w" "pod_step\<^sup>*\<^sup>* (gw_pod w) (gw_pod w')"
      "length (sockfd_of h1) = length (sockfd_of h)"
    using u(2) by (auto simp: exchanged_def)
  have "?u - n \<le> limit" using word_sub_exact [OF n] iso by auto
  then have "isolated env alive limit h' w'"
    using iso tot u(3) w' h1 world_ok_cong [of h' h1 env w'] by (auto simp: isolated_def h'_def lib_wf_def max_gpu_num_def)
  moreover have "cuMemFree_prehook (pod_ops env) x h w = Inr (CUDA_SUCCESS, h', w')"
    using u(1) by (simp add: cuMemFree_prehook_def max_gpu_num_def Some h'_def)
  moreover have "allocation_maps h' ! 0 = ?m(x := None)" using iso h1 by (simp add: h'_def lib_wf_def max_gpu_num_def)
  ultimately show ?thesis using w' by blast
qed

lemma alloc_posthook_isolated:
  assumes "isolated env alive limit h w" and "(allocation_maps h ! 0) p = None" and "p \<in> alive (gw_drv w)"
    and "unat (gpu_mem_used h ! 0) + unat n < 2 ^ 64"
  shows "\<exists>h' w'. cuMemAlloc_posthook (pod_ops env) p n h w =
      Inr (if n > limit - gpu_mem_used h ! 0 then CUDA_ERROR_OUT_OF_MEMORY else CUDA_SUCCESS, h', w')
    \<and> isolated env alive limit h' w' \<and> gw_drv w' = gw_drv w \<and> pod_step\<^sup>*\<^sup>* (gw_pod w) (gw_pod w')
    \<and> allocation_maps h' ! 0 = (if n > limit - gpu_mem_used h ! 0 then allocation_maps h ! 0 else (allocation_maps h ! 0)(p \<mapsto> n))"
proof -
  note iso = assms(1) [unfolded isolated_def]
  let ?m = "allocation_maps h ! 0" and ?u = "gpu_mem_used h ! 0"
  have add: "unat (?u + n) = unat ?u + unat n" by (rule unat_word_add_exact [OF assms(4)])
  have cmp: "?u + n > limit \<longleftrightarrow> n > limit - ?u"
    using add word_sub_exact [of ?u limit] iso by (simp add: word_less_nat_alt word_le_nat_alt) linarith
  obtain v h1 w' where u: "update_memory_usage (pod_ops env) n 1 h w = Inr (v, h1, w')" "exchanged env h w h1 w'"
      "if n > limit - ?u then v = 0 \<and> pod_totals w' = (?u, limit) else v = 1 \<and> pod_totals w' = (?u + n, limit)"
    using pod_memory_update [of env h w ?u limit n 1] iso cmp by auto
  have h1: "allocation_maps h1 = allocation_maps h" "gpu_mem_used h1 = gpu_mem_used h" "world_ok env h1 w'"
      "gw_drv w' = gw_drv w" "pod_step\<^sup>*\<^sup>* (gw_pod w) (gw_pod w')" "length (sockfd_of h1) = length (sockfd_of h)"
    using u(2) by (auto simp: exchanged_def)
  show ?thesis
  proof (cases "n > limit - ?u")
    case True
    then have "cuMemAlloc_posthook (pod_ops env) p n h w = Inr (CUDA_ERROR_OUT_OF_MEMORY, h1, w')"
      using u by (simp add: cuMemAlloc_posthook_def)
    then show ?thesis using True exchanged_isolated [OF assms(1) u(2)] u(3) iso h1 by auto
  next
    case False
    define h' where "h' = h1\<lparr>allocation_maps := (allocation_maps h1)[0 := (allocation_maps h1 ! 0)(p \<mapsto> n)],
      gpu_mem_used := (gpu_mem_used h1)[0 := gpu_mem_used h1 ! 0 + n]\<rparr>"
    have tot: "unat (?u + n) = map_nat_total (?m(p \<mapsto> n))"
      using map_nat_total_upd [of ?m p n] iso assms(2) add by (simp add: entry_def)
    have "isolated env alive limit h' w'"
      using iso tot u(3) h1 False cmp assms(3) world_ok_cong [of h' h1 env w']
      by (auto simp: isolated_def h'_def lib_wf_def max_gpu_num_def not_less)
    moreover have "cuMemAlloc_posthook (pod_ops env) p n h w = Inr (CUDA_SUCCESS, h', w')"
      using u False by (simp add: cuMemAlloc_posthook_def h'_def max_gpu_num_def)
    moreover have "allocation_maps h' ! 0 = ?m(p \<mapsto> n)" using iso h1 by (simp add: h'_def lib_wf_def max_gpu_num_def)
    ultimately show ?thesis using h1 False by auto
  qed
qed

section \<open>Calls of the application\<close>

definition lift_driver :: "'d driver \<Rightarrow> 'd gpu_world driver" where
  "lift_driver drv call p q w = (case drv call p q (gw_drv w) of (r, p', q', d) \<Rightarrow> (r, p', q', w\<lparr>gw_drv := d\<rparr>))"

text \<open>What the driver is relied on for: the pointers and handles it returns are not in use, and it keeps
  those that are not released. A pitched allocation is far from overflowing 64 bits.\<close>

definition fresh_driver :: "('d \<Rightarrow> size_t set) \<Rightarrow> 'd driver \<Rightarrow> bool" where
  "fresh_driver alive drv \<longleftrightarrow> (\<forall>call p q d r p' q' d'. drv call p q d = (r, p', q', d') \<longrightarrow>
     (case tracking call q' of
        Books _ \<Rightarrow> (if r = CUDA_SUCCESS then p' \<notin> alive d \<and> alive d' = insert p' (alive d) else alive d' = alive d)
      | Releases x \<Rightarrow> alive d - {x} \<subseteq> alive d'
      | Untracked \<Rightarrow> alive d \<subseteq> alive d'))"

definition pitch_bounded :: "size_t \<Rightarrow> 'd driver \<Rightarrow> bool" where
  "pitch_bounded limit drv \<longleftrightarrow> (\<forall>wd ht es p q d p' q' d'. drv (MemAllocPitch wd ht es) p q d = (CUDA_SUCCESS, p', q', d') \<longrightarrow>
     unat limit + unat (q' * ht) < 2 ^ 64)"

definition known_size :: "mem_call \<Rightarrow> bool" where
  "known_size call \<longleftrightarrow> tracking call 0 \<noteq> Books None"

definition frame_ok :: "comm_env \<Rightarrow> ('d \<Rightarrow> size_t set) \<Rightarrow> size_t \<Rightarrow> (hook_lib, 'd gpu_world) call_frame \<Rightarrow> bool" where
  "frame_ok env alive limit f \<longleftrightarrow> isolated env alive limit (frame_lib f) (frame_world f)"

text \<open>
  The ledger of an application, from its calls and what it sees of their outcomes alone: the result and
  the pointer (or handle) and pitch stored for it. A successful allocation enters its pointer with its
  size; a release takes its pointer off. It knows nothing of the library or the pod manager. Managed
  memory and mipmapped arrays, which the hooks pass through untracked, are not in it.
\<close>

type_synonym app_ledger = "size_t \<rightharpoonup> size_t"

definition ledger_step :: "mem_call \<Rightarrow> CUresult \<Rightarrow> size_t \<Rightarrow> size_t \<Rightarrow> app_ledger \<Rightarrow> app_ledger" where
  "ledger_step call r p q m =
     (case tracking call q of
        Books (Some n) \<Rightarrow> if r = CUDA_SUCCESS then m(p \<mapsto> n) else m
      | Books None \<Rightarrow> m
      | Releases x \<Rightarrow> m(x := None)
      | Untracked \<Rightarrow> m)"

lemma ledger_step_failed: "tracking call q = Books n \<Longrightarrow> r \<noteq> CUDA_SUCCESS \<Longrightarrow> ledger_step call r p q' m = m"
  by (cases call) (auto simp: ledger_step_def split: option.splits)

text \<open>The outcome of a call: it returns, the hooks stay in place, the accounts stay together, the
  library's table follows the ledger, and the pod manager has made steps of its own.\<close>

definition call_returns ::
  "comm_env \<Rightarrow> ('d \<Rightarrow> size_t set) \<Rightarrow> size_t \<Rightarrow> mem_call \<Rightarrow> (hook_lib, 'd gpu_world) call_frame
    \<Rightarrow> hook_error + CUresult \<times> hookInfo \<times> (hook_lib, 'd gpu_world) call_frame \<Rightarrow> bool" where
  "call_returns env alive limit call f res \<longleftrightarrow> (\<exists>r hi f'. res = Inr (r, hi, f') \<and> placed hi \<and> frame_ok env alive limit f'
     \<and> allocation_maps (frame_lib f') ! 0 = ledger_step call r (out_ptr f') (out_pitch f') (allocation_maps (frame_lib f) ! 0)
     \<and> pod_step\<^sup>*\<^sup>* (gw_pod (frame_world f)) (gw_pod (frame_world f')))"

lemma tracking_pitch:
  "tracking call q = Books n \<Longrightarrow> (\<exists>wd ht es. call = MemAllocPitch wd ht es) \<or> tracking call q' = Books n"
  "tracking call q = Releases x \<longleftrightarrow> tracking call q' = Releases x"
  "tracking call q = Untracked \<longleftrightarrow> tracking call q' = Untracked"
  "tracking call q = Books None \<longleftrightarrow> tracking call q' = Books None"
  by (cases call; simp)+

lemma isolated_driver:
  "isolated env alive limit h w \<Longrightarrow> dom (allocation_maps h ! 0) \<subseteq> alive d \<Longrightarrow> isolated env alive limit h (w\<lparr>gw_drv := d\<rparr>)"
  by (simp add: isolated_def world_ok_def pod_totals_def)

lemma fresh_driverD:
  "fresh_driver alive drv \<Longrightarrow> drv call p q d = (r, p', q', d') \<Longrightarrow>
   (case tracking call q' of
      Books _ \<Rightarrow> (if r = CUDA_SUCCESS then p' \<notin> alive d \<and> alive d' = insert p' (alive d) else alive d' = alive d)
    | Releases x \<Rightarrow> alive d - {x} \<subseteq> alive d'
    | Untracked \<Rightarrow> alive d \<subseteq> alive d')"
  unfolding fresh_driver_def by blast

lemma pod_pre_slot:
  "placed hi \<Longrightarrow> \<exists>g. preHooks hi (call_symbol call) = Some g \<and>
    (\<forall>p q (h :: hook_lib) (w :: 'd gpu_world). hook_body (pod_ops env) g call p q h w = (case tracking call q of
      Books None \<Rightarrow> Inl Undefined | Books (Some n) \<Rightarrow> cuMemAlloc_prehook (pod_ops env) n h w
    | Releases x \<Rightarrow> cuMemFree_prehook (pod_ops env) x h w | Untracked \<Rightarrow> Inr (CUDA_SUCCESS, h, w)))"
  by (rule placed_slots)

lemma pod_post_slot:
  "placed hi \<Longrightarrow> (\<exists>x. \<forall>q. tracking call q = Releases x) \<and> postHooks hi (call_symbol call) = None
    \<or> (\<forall>q x. tracking call q \<noteq> Releases x) \<and> (\<exists>g. postHooks hi (call_symbol call) = Some g \<and>
        (\<forall>p q (h :: hook_lib) (w :: 'd gpu_world). hook_body (pod_ops env) g call p q h w = (case tracking call q of
          Books None \<Rightarrow> Inl Undefined | Books (Some n) \<Rightarrow> cuMemAlloc_posthook (pod_ops env) p n h w
        | _ \<Rightarrow> Inr (CUDA_SUCCESS, h, w))))"
  by (rule placed_post_slots)

lemma releases_returns:
  fixes f :: "(hook_lib, 'd gpu_world) call_frame"
  assumes "placed hi" and "frame_ok env alive limit f" and "fresh_driver alive drv" and tr: "\<And>q. tracking call q = Releases x"
  shows "call_returns env alive limit call f (mem_api (pod_ops env) (lift_driver drv) call hi f)"
proof -
  obtain g where g: "preHooks hi (call_symbol call) = Some g"
      "\<And>p q (h :: hook_lib) (w :: 'd gpu_world). hook_body (pod_ops env) g call p q h w = cuMemFree_prehook (pod_ops env) x h w"
    using pod_pre_slot [OF assms(1), of call env] by (auto simp: tr)
  obtain h1 w1 where pre: "cuMemFree_prehook (pod_ops env) x (frame_lib f) (frame_world f) = Inr (CUDA_SUCCESS, h1, w1)"
      "isolated env alive limit h1 w1" "allocation_maps h1 ! 0 = (allocation_maps (frame_lib f) ! 0)(x := None)"
      "gw_drv w1 = gw_drv (frame_world f)" "pod_step\<^sup>*\<^sup>* (gw_pod (frame_world f)) (gw_pod w1)"
    using free_prehook_isolated assms(2) unfolding frame_ok_def by blast
  let ?f1 = "f\<lparr>frame_lib := h1, frame_world := w1\<rparr>"
  have run: "run_hook (pod_ops env) call g f = Inr (CUDA_SUCCESS, ?f1)" by (simp add: run_hook_def g(2) pre(1))
  obtain r p' q' d where d: "drv call (out_ptr f) (out_pitch f) (gw_drv w1) = (r, p', q', d)"
    by (cases "drv call (out_ptr f) (out_pitch f) (gw_drv w1)")
  let ?f2 = "?f1\<lparr>out_ptr := p', out_pitch := q', frame_world := w1\<lparr>gw_drv := d\<rparr>\<rparr>"
  have real: "real_call (lift_driver drv) call ?f1 = (r, ?f2)" by (simp add: real_call_def lift_driver_def d)
  have "alive (gw_drv w1) - {x} \<subseteq> alive d" using fresh_driverD [OF assms(3) d] by (simp add: tr)
  then have "isolated env alive limit h1 (w1\<lparr>gw_drv := d\<rparr>)"
    using isolated_driver [OF pre(2)] pre(2,3) by (auto simp: isolated_def)
  moreover have "postHooks hi (call_symbol call) = None" using pod_post_slot [OF assms(1), of call env] by (auto simp: tr)
  ultimately show ?thesis
    using mem_api_driver_error [OF assms(1) g(1) run real] pre(3,5) by (fastforce simp: call_returns_def frame_ok_def ledger_step_def tr)
qed

lemma untracked_returns:
  fixes f :: "(hook_lib, 'd gpu_world) call_frame"
  assumes "placed hi" and "frame_ok env alive limit f" and "fresh_driver alive drv" and tr: "\<And>q. tracking call q = Untracked"
  shows "call_returns env alive limit call f (mem_api (pod_ops env) (lift_driver drv) call hi f)"
proof -
  obtain g where g: "preHooks hi (call_symbol call) = Some g"
      "\<And>p q (h :: hook_lib) (w :: 'd gpu_world). hook_body (pod_ops env) g call p q h w = Inr (CUDA_SUCCESS, h, w)"
    using pod_pre_slot [OF assms(1), of call env] by (auto simp: tr)
  obtain g' where g': "postHooks hi (call_symbol call) = Some g'"
      "\<And>p q (h :: hook_lib) (w :: 'd gpu_world). hook_body (pod_ops env) g' call p q h w = Inr (CUDA_SUCCESS, h, w)"
    using pod_post_slot [OF assms(1), of call env] by (auto simp: tr)
  let ?w = "frame_world f"
  have run: "run_hook (pod_ops env) call g f = Inr (CUDA_SUCCESS, f)" by (simp add: run_hook_def g(2))
  obtain r p' q' d where d: "drv call (out_ptr f) (out_pitch f) (gw_drv ?w) = (r, p', q', d)"
    by (cases "drv call (out_ptr f) (out_pitch f) (gw_drv ?w)")
  let ?f2 = "f\<lparr>out_ptr := p', out_pitch := q', frame_world := ?w\<lparr>gw_drv := d\<rparr>\<rparr>"
  have real: "real_call (lift_driver drv) call f = (r, ?f2)" by (simp add: real_call_def lift_driver_def d)
  have post: "run_hook (pod_ops env) call g' ?f2 = Inr (CUDA_SUCCESS, ?f2)" by (simp add: run_hook_def g'(2))
  have "alive (gw_drv ?w) \<subseteq> alive d" using fresh_driverD [OF assms(3) d] by (simp add: tr)
  then have ok: "frame_ok env alive limit ?f2"
    using isolated_driver [of env alive limit "frame_lib f" ?w d] assms(2) by (auto simp: frame_ok_def isolated_def)
  show ?thesis
  proof (cases "r = CUDA_SUCCESS")
    case True
    then show ?thesis using mem_api_passed [OF assms(1) g(1) run _ g'(1) post] real ok by (fastforce simp: call_returns_def ledger_step_def tr)
  next
    case False
    then show ?thesis using mem_api_driver_error [OF assms(1) g(1) run real] ok by (fastforce simp: call_returns_def ledger_step_def tr)
  qed
qed

lemma books_pre_slot:
  assumes "placed hi"
  shows "\<exists>g. preHooks hi (call_symbol call) = Some g \<and> (\<forall>p q n (h :: hook_lib) (w :: 'd gpu_world). tracking call q = Books (Some n) \<longrightarrow>
    hook_body (pod_ops env) g call p q h w = cuMemAlloc_prehook (pod_ops env) n h w)"
proof -
  obtain g where "preHooks hi (call_symbol call) = Some g"
      "\<forall>p q (h :: hook_lib) (w :: 'd gpu_world). hook_body (pod_ops env) g call p q h w = (case tracking call q of
      Books None \<Rightarrow> Inl Undefined | Books (Some n) \<Rightarrow> cuMemAlloc_prehook (pod_ops env) n h w
    | Releases x \<Rightarrow> cuMemFree_prehook (pod_ops env) x h w | Untracked \<Rightarrow> Inr (CUDA_SUCCESS, h, w))"
    using pod_pre_slot [OF assms] by blast
  then show ?thesis by (intro exI [of _ g]) simp
qed

lemma books_post_slot:
  assumes "placed hi" and "tracking call q' = Books (Some k)"
  shows "\<exists>g. postHooks hi (call_symbol call) = Some g \<and> (\<forall>p q n (h :: hook_lib) (w :: 'd gpu_world). tracking call q = Books (Some n) \<longrightarrow>
    hook_body (pod_ops env) g call p q h w = cuMemAlloc_posthook (pod_ops env) p n h w)"
proof -
  obtain g where "postHooks hi (call_symbol call) = Some g"
      "\<forall>p q (h :: hook_lib) (w :: 'd gpu_world). hook_body (pod_ops env) g call p q h w = (case tracking call q of
      Books None \<Rightarrow> Inl Undefined | Books (Some n) \<Rightarrow> cuMemAlloc_posthook (pod_ops env) p n h w | _ \<Rightarrow> Inr (CUDA_SUCCESS, h, w))"
    using pod_post_slot [OF assms(1), of call env] assms(2) by (metis track_kind.distinct(1))
  then show ?thesis by (intro exI [of _ g]) simp
qed

text \<open>The posthook after a successful driver call: the size it books, \<open>k\<close>, is the one the prehook
  checked unless the pitch has changed.\<close>

lemma books_success:
  fixes h :: hook_lib
  assumes "isolated env alive limit h w" and "fresh_driver alive drv" and "pitch_bounded limit drv"
    and tr: "tracking call q = Books (Some n)" and n: "n \<le> limit - gpu_mem_used h ! 0"
    and d: "drv call p q (gw_drv w) = (CUDA_SUCCESS, p', q', d)"
  shows "\<exists>k h3 w3. tracking call q' = Books (Some k) \<and> ((\<forall>wd ht es. call \<noteq> MemAllocPitch wd ht es) \<longrightarrow> k = n)
    \<and> cuMemAlloc_posthook (pod_ops env) p' k h (w\<lparr>gw_drv := d\<rparr>) =
        Inr (if k > limit - gpu_mem_used h ! 0 then CUDA_ERROR_OUT_OF_MEMORY else CUDA_SUCCESS, h3, w3)
    \<and> isolated env alive limit h3 w3 \<and> gw_drv w3 = d \<and> pod_step\<^sup>*\<^sup>* (gw_pod w) (gw_pod w3)
    \<and> allocation_maps h3 ! 0 = (if k > limit - gpu_mem_used h ! 0 then allocation_maps h ! 0 else (allocation_maps h ! 0)(p' \<mapsto> k))"
proof -
  let ?u = "gpu_mem_used h ! 0"
  obtain k where k: "tracking call q' = Books (Some k)"
    using tr by (cases call) auto
  have kn: "k = n" if "\<forall>wd ht es. call \<noteq> MemAllocPitch wd ht es" using tracking_pitch(1) [OF tr, of q'] k that by auto
  have dom: "dom (allocation_maps h ! 0) \<subseteq> alive (gw_drv w)" and le: "unat ?u \<le> unat limit"
    using assms(1) by (auto simp: isolated_def word_le_nat_alt)
  have fresh: "p' \<notin> alive (gw_drv w)" "alive d = insert p' (alive (gw_drv w))" using fresh_driverD [OF assms(2) d] k by auto
  have "dom (allocation_maps h ! 0) \<subseteq> alive d" using dom fresh by auto
  note iso = isolated_driver [OF assms(1) this]
  have none: "(allocation_maps h ! 0) p' = None" using dom fresh by auto
  have "unat ?u + unat k < 2 ^ 64"
  proof (cases "\<exists>wd ht es. call = MemAllocPitch wd ht es")
    case True
    then obtain wd ht es where c: "call = MemAllocPitch wd ht es" by blast
    have "unat limit + unat (q' * ht) < 2 ^ 64" using assms(3) d unfolding pitch_bounded_def c by blast
    then show ?thesis using k le by (simp add: c)
  next
    case False
    then have "k \<le> limit - ?u" using kn n by auto
    then show ?thesis using word_sub_exact [of ?u limit] le unat_size_t_less [of limit] by (simp add: word_le_nat_alt)
  qed
  from alloc_posthook_isolated [OF iso none _ this] fresh k kn show ?thesis by auto
qed

text \<open>A call that books memory: blocked before the driver when the request exceeds what is left, else
  the result of the driver, and after a successful call the posthook books the size.\<close>

lemma books_blocked:
  fixes f :: "(hook_lib, 'd gpu_world) call_frame"
  assumes "placed hi" and ok: "frame_ok env alive limit f" and tr: "tracking call (out_pitch f) = Books (Some n)"
    and "n > limit - gpu_mem_used (frame_lib f) ! 0"
  shows "\<exists>hi' f'. mem_api (pod_ops env) (lift_driver drv) call hi f = Inr (CUDA_ERROR_OUT_OF_MEMORY, hi', f') \<and> placed hi'
    \<and> frame_ok env alive limit f' \<and> gw_drv (frame_world f') = gw_drv (frame_world f)
    \<and> allocation_maps (frame_lib f') = allocation_maps (frame_lib f)
    \<and> pod_step\<^sup>*\<^sup>* (gw_pod (frame_world f)) (gw_pod (frame_world f'))"
proof -
  obtain g where g: "preHooks hi (call_symbol call) = Some g"
      "hook_body (pod_ops env) g call (out_ptr f) (out_pitch f) (frame_lib f) (frame_world f) = cuMemAlloc_prehook (pod_ops env) n (frame_lib f) (frame_world f)"
    using books_pre_slot [OF assms(1), of call env] tr by blast
  obtain h1 w1 where pre: "cuMemAlloc_prehook (pod_ops env) n (frame_lib f) (frame_world f) = Inr (CUDA_ERROR_OUT_OF_MEMORY, h1, w1)"
      "isolated env alive limit h1 w1" "exchanged env (frame_lib f) (frame_world f) h1 w1"
    using alloc_prehook_isolated [of env alive limit "frame_lib f" "frame_world f" n] ok assms(4) unfolding frame_ok_def by auto
  have run: "run_hook (pod_ops env) call g f = Inr (CUDA_ERROR_OUT_OF_MEMORY, f\<lparr>frame_lib := h1, frame_world := w1\<rparr>)"
    by (simp add: run_hook_def g(2) pre(1))
  obtain hi' where "mem_api (pod_ops env) (lift_driver drv) call hi f = Inr (CUDA_ERROR_OUT_OF_MEMORY, hi', f\<lparr>frame_lib := h1, frame_world := w1\<rparr>)"
      "placed hi'"
    using mem_api_blocked [OF assms(1) g(1) run] by auto
  then show ?thesis using pre(2,3) by (auto simp: frame_ok_def exchanged_def)
qed

lemma books_passed:
  fixes f :: "(hook_lib, 'd gpu_world) call_frame"
  assumes "placed hi" and ok: "frame_ok env alive limit f" and "fresh_driver alive drv" and "pitch_bounded limit drv"
    and tr: "tracking call (out_pitch f) = Books (Some n)" and n: "n \<le> limit - gpu_mem_used (frame_lib f) ! 0"
    and d: "drv call (out_ptr f) (out_pitch f) (gw_drv (frame_world f)) = (r, p', q', d)"
  shows "\<exists>r' hi' f'. mem_api (pod_ops env) (lift_driver drv) call hi f = Inr (r', hi', f') \<and> placed hi'
    \<and> frame_ok env alive limit f' \<and> gw_drv (frame_world f') = d \<and> out_ptr f' = p'
    \<and> allocation_maps (frame_lib f') ! 0 = ledger_step call r' p' (out_pitch f') (allocation_maps (frame_lib f) ! 0)
    \<and> pod_step\<^sup>*\<^sup>* (gw_pod (frame_world f)) (gw_pod (frame_world f'))
    \<and> ((\<forall>wd ht es. call \<noteq> MemAllocPitch wd ht es) \<longrightarrow> r' = r
        \<and> allocation_maps (frame_lib f') ! 0 =
            (if r = CUDA_SUCCESS then (allocation_maps (frame_lib f) ! 0)(p' \<mapsto> n) else allocation_maps (frame_lib f) ! 0))"
proof -
  obtain g where g: "preHooks hi (call_symbol call) = Some g"
      "hook_body (pod_ops env) g call (out_ptr f) (out_pitch f) (frame_lib f) (frame_world f) = cuMemAlloc_prehook (pod_ops env) n (frame_lib f) (frame_world f)"
    using books_pre_slot [OF assms(1), of call env] tr by blast
  obtain h1 w1 where pre: "cuMemAlloc_prehook (pod_ops env) n (frame_lib f) (frame_world f) = Inr (CUDA_SUCCESS, h1, w1)"
      "isolated env alive limit h1 w1" "exchanged env (frame_lib f) (frame_world f) h1 w1"
    using alloc_prehook_isolated [of env alive limit "frame_lib f" "frame_world f" n] ok n unfolding frame_ok_def by auto
  have same: "gw_drv w1 = gw_drv (frame_world f)" "pod_step\<^sup>*\<^sup>* (gw_pod (frame_world f)) (gw_pod w1)"
      "allocation_maps h1 = allocation_maps (frame_lib f)" "gpu_mem_used h1 = gpu_mem_used (frame_lib f)"
    using pre(3) by (auto simp: exchanged_def)
  let ?f1 = "f\<lparr>frame_lib := h1, frame_world := w1\<rparr>" let ?f2 = "?f1\<lparr>out_ptr := p', out_pitch := q', frame_world := w1\<lparr>gw_drv := d\<rparr>\<rparr>"
  have run: "run_hook (pod_ops env) call g f = Inr (CUDA_SUCCESS, ?f1)" by (simp add: run_hook_def g(2) pre(1))
  have real: "real_call (lift_driver drv) call ?f1 = (r, ?f2)" by (simp add: real_call_def lift_driver_def d same)
  show ?thesis
  proof (cases "r = CUDA_SUCCESS")
    case False
    have "\<exists>k. tracking call q' = Books (Some k)" using tr by (cases call) auto
    then have "alive d = alive (gw_drv w1)" using fresh_driverD [OF assms(3) d] False same by auto
    then have "isolated env alive limit h1 (w1\<lparr>gw_drv := d\<rparr>)" using isolated_driver [OF pre(2)] pre(2) by (simp add: isolated_def)
    then show ?thesis using mem_api_driver_error [OF assms(1) g(1) run real] False same
      by (fastforce simp: frame_ok_def ledger_step_failed [OF tr])
  next
    case True
    have le: "n \<le> limit - gpu_mem_used h1 ! 0" and d1: "drv call (out_ptr f) (out_pitch f) (gw_drv w1) = (CUDA_SUCCESS, p', q', d)"
      using n d same True by simp_all
    obtain k h3 w3 where k: "tracking call q' = Books (Some k)" "(\<forall>wd ht es. call \<noteq> MemAllocPitch wd ht es) \<longrightarrow> k = n"
      and post: "cuMemAlloc_posthook (pod_ops env) p' k h1 (w1\<lparr>gw_drv := d\<rparr>) =
          Inr (if k > limit - gpu_mem_used h1 ! 0 then CUDA_ERROR_OUT_OF_MEMORY else CUDA_SUCCESS, h3, w3)" "isolated env alive limit h3 w3"
          "gw_drv w3 = d" "pod_step\<^sup>*\<^sup>* (gw_pod w1) (gw_pod w3)"
          "allocation_maps h3 ! 0 = (if k > limit - gpu_mem_used h1 ! 0 then allocation_maps h1 ! 0 else (allocation_maps h1 ! 0)(p' \<mapsto> k))"
      using books_success [OF pre(2) assms(3,4) tr le d1] by blast
    obtain g' where g': "postHooks hi (call_symbol call) = Some g'"
        "hook_body (pod_ops env) g' call p' q' h1 (w1\<lparr>gw_drv := d\<rparr>) = cuMemAlloc_posthook (pod_ops env) p' k h1 (w1\<lparr>gw_drv := d\<rparr>)"
      using books_post_slot [OF assms(1) k(1), of env] k(1) by blast
    let ?f3 = "?f2\<lparr>frame_lib := h3, frame_world := w3\<rparr>"
    have post_run: "run_hook (pod_ops env) call g' ?f2 =
        Inr (if k > limit - gpu_mem_used h1 ! 0 then CUDA_ERROR_OUT_OF_MEMORY else CUDA_SUCCESS, ?f3)"
      by (simp add: run_hook_def g'(2) post(1))
    obtain hi' where "mem_api (pod_ops env) (lift_driver drv) call hi f =
        Inr (if k > limit - gpu_mem_used h1 ! 0 then CUDA_ERROR_OUT_OF_MEMORY else CUDA_SUCCESS, hi', ?f3)" "placed hi'"
      using mem_api_passed [OF assms(1) g(1) run _ g'(1) post_run, of "lift_driver drv"] real True by blast
    then show ?thesis using post same k n True by (auto simp: frame_ok_def not_less ledger_step_def)
  qed
qed

lemma mem_api_returns:
  assumes "placed hi" and "frame_ok env alive limit f" and "fresh_driver alive drv" and "pitch_bounded limit drv" and "known_size call"
  shows "call_returns env alive limit call f (mem_api (pod_ops env) (lift_driver drv) call hi f)"
proof (cases "tracking call (out_pitch f)")
  case (Books size)
  then obtain n where n: "tracking call (out_pitch f) = Books (Some n)"
    using assms(5) tracking_pitch(4) [of call "out_pitch f" 0] by (cases size) (auto simp: known_size_def)
  show ?thesis
  proof (cases "n > limit - gpu_mem_used (frame_lib f) ! 0")
    case True
    then show ?thesis using books_blocked [OF assms(1,2) n True, of drv] by (auto simp: call_returns_def ledger_step_failed [OF n])
  next
    case False
    obtain r p' q' d where "drv call (out_ptr f) (out_pitch f) (gw_drv (frame_world f)) = (r, p', q', d)"
      by (cases "drv call (out_ptr f) (out_pitch f) (gw_drv (frame_world f))")
    then show ?thesis using books_passed [OF assms(1-4) n] False unfolding call_returns_def not_less by blast
  qed
next
  case (Releases x)
  then show ?thesis using releases_returns [OF assms(1-3)] tracking_pitch(2) by blast
next
  case Untracked
  then show ?thesis using untracked_returns [OF assms(1-3)] tracking_pitch(3) by blast
qed

section \<open>A process\<close>

text \<open>The calls of an application one after the other, each with the values its output variables hold
  before, and for each the result and what the output variables hold after it; and the ledger of these.\<close>

primrec mem_calls ::
  "('w, 'o) hook_ops_scheme \<Rightarrow> 'w driver \<Rightarrow> (mem_call \<times> size_t \<times> size_t) list \<Rightarrow> hookInfo \<Rightarrow> (hook_lib, 'w) call_frame
    \<Rightarrow> hook_error + (CUresult \<times> size_t \<times> size_t) list \<times> hookInfo \<times> (hook_lib, 'w) call_frame" where
  "mem_calls ops drv [] hi f = Inr ([], hi, f)"
| "mem_calls ops drv (c # cs) hi f =
     (case mem_api ops drv (fst c) hi (f\<lparr>out_ptr := fst (snd c), out_pitch := snd (snd c)\<rparr>) of
        Inl e \<Rightarrow> Inl e
      | Inr (r, hi, f) \<Rightarrow>
          (case mem_calls ops drv cs hi f of
             Inl e \<Rightarrow> Inl e
           | Inr (rs, hi, f') \<Rightarrow> Inr ((r, out_ptr f, out_pitch f) # rs, hi, f')))"

fun outstanding :: "(mem_call \<times> size_t \<times> size_t) list \<Rightarrow> (CUresult \<times> size_t \<times> size_t) list \<Rightarrow> app_ledger \<Rightarrow> app_ledger" where
  "outstanding (c # cs) ((r, p, q) # rs) m = outstanding cs rs (ledger_step (fst c) r p q m)"
| "outstanding _ _ m = m"

definition start_frame :: "16 word \<Rightarrow> pod_state \<Rightarrow> int \<Rightarrow> 'd \<Rightarrow> (hook_lib, 'd gpu_world) call_frame" where
  "start_frame port p k d = \<lparr>out_ptr = 0, out_pitch = 0,
     frame_lib = new_hook_lib\<lparr>pod_manager_port_list := [port], current_gpu_num := 1\<rparr>,
     frame_world = \<lparr>gw_pod = p, gw_next = k, gw_drv = d\<rparr>\<rparr>"

lemma start_frame_ok:
  assumes "pod_init p" and "c_safe (resolve_name env comm_init)" and "length (resolve_name env comm_init) \<le> 51" and "0 \<le> k"
  shows "frame_ok env alive (pod_mem_limit (pod_account p)) (start_frame port p k d)"
  using assms
  by (auto simp: frame_ok_def isolated_def start_frame_def world_ok_def new_hook_lib_def device_ok_def lib_wf_def pod_totals_def
      pod_init_def fresh_account_def max_gpu_num_def map_nat_total_def)

lemma mem_calls_return:
  assumes "placed hi" and "frame_ok env alive limit f" and "fresh_driver alive drv" and "pitch_bounded limit drv"
    and "\<forall>c\<in>set cs. known_size (fst c)"
  shows "\<exists>rs hi' f'. mem_calls (pod_ops env) (lift_driver drv) cs hi f = Inr (rs, hi', f') \<and> placed hi' \<and> frame_ok env alive limit f'
    \<and> length rs = length cs \<and> allocation_maps (frame_lib f') ! 0 = outstanding cs rs (allocation_maps (frame_lib f) ! 0)
    \<and> pod_step\<^sup>*\<^sup>* (gw_pod (frame_world f)) (gw_pod (frame_world f'))"
  using assms(1,2,5)
proof (induction cs arbitrary: hi f)
  case Nil
  then show ?case by auto
next
  case (Cons c cs)
  let ?f = "f\<lparr>out_ptr := fst (snd c), out_pitch := snd (snd c)\<rparr>"
  have "frame_ok env alive limit ?f" "known_size (fst c)" using Cons.prems by (simp_all add: frame_ok_def)
  then obtain r hi1 f1 where c: "mem_api (pod_ops env) (lift_driver drv) (fst c) hi ?f = Inr (r, hi1, f1)" "placed hi1"
      "frame_ok env alive limit f1" "allocation_maps (frame_lib f1) ! 0 = ledger_step (fst c) r (out_ptr f1) (out_pitch f1) (allocation_maps (frame_lib f) ! 0)"
      "pod_step\<^sup>*\<^sup>* (gw_pod (frame_world f)) (gw_pod (frame_world f1))"
    using mem_api_returns [OF Cons.prems(1) _ assms(3,4)] by (force simp: call_returns_def)
  obtain rs hi2 f2 where "mem_calls (pod_ops env) (lift_driver drv) cs hi1 f1 = Inr (rs, hi2, f2)" "placed hi2"
      "frame_ok env alive limit f2" "length rs = length cs" "allocation_maps (frame_lib f2) ! 0 = outstanding cs rs (allocation_maps (frame_lib f1) ! 0)"
      "pod_step\<^sup>*\<^sup>* (gw_pod (frame_world f1)) (gw_pod (frame_world f2))"
    using Cons.IH [OF c(2,3)] Cons.prems(3) by auto
  then show ?case using c by (auto intro: rtranclp_trans)
qed

text \<open>A driver that numbers its allocations and knows no pitched ones.\<close>

definition counting_driver :: "nat driver" where
  "counting_driver call p q d = (case tracking call q of
     Books _ \<Rightarrow> if (case call of MemAllocPitch wd ht es \<Rightarrow> True | _ \<Rightarrow> False) \<or> 2 ^ 64 \<le> d then (CUDA_ERROR_OTHER 801, p, q, d)
                else (CUDA_SUCCESS, word_of_nat d, q, d + 1)
   | _ \<Rightarrow> (CUDA_SUCCESS, p, q, d))"

definition numbered :: "nat \<Rightarrow> size_t set" where
  "numbered d = word_of_nat ` {..<d}"

lemma counting_driver_fresh: "fresh_driver numbered counting_driver"
proof -
  have new: "(word_of_nat d :: size_t) \<notin> numbered d" if "d < 2 ^ 64" for d
  proof
    assume "(word_of_nat d :: size_t) \<in> numbered d"
    then obtain i where i: "i < d" "(word_of_nat i :: size_t) = word_of_nat d" by (auto simp: numbered_def)
    have "unat (word_of_nat j :: size_t) = j" if "j < 2 ^ 64" for j using that by (simp add: unat_of_nat)
    then show False using i \<open>d < 2 ^ 64\<close> by (metis less_irrefl order.strict_trans)
  qed
  have ins: "numbered (Suc d) = insert (word_of_nat d) (numbered d)" for d by (auto simp: numbered_def lessThan_Suc)
  show ?thesis unfolding fresh_driver_def
    by (auto simp: counting_driver_def new ins split: track_kind.splits if_splits)
qed

lemma counting_driver_pitch: "pitch_bounded limit counting_driver"
  by (auto simp: pitch_bounded_def counting_driver_def)

definition pod1_env :: comm_env where
  "pod1_env = \<lparr>env_pod_name = Some ''pod1'', env_hostname = ''node''\<rparr>"

lemma pod1_env_ok: "c_safe (resolve_name pod1_env comm_init)" "length (resolve_name pod1_env comm_init) \<le> 51"
  by (simp_all add: pod1_env_def resolve_name_def comm_init_def c_safe_def)

section \<open>Properties\<close>

text \<open>C1. Memory isolation, end to end: an application with one GPU whose calls go through the generated
  functions, the hooks and the wire to its pod manager. For every sequence of calls, every call returns;
  afterwards the memory the pod manager and the hook library agree is in use is the exact sum of the
  sizes in the application's ledger: the allocations whose calls have returned success and that it has
  not asked to release since, each with the size the library computes for it (for an array the product
  of its dimensions modulo \<open>2^64\<close>). This sum does not exceed the limit, and the pod manager has only made
  steps of its own. Managed memory (\<^verbatim>\<open>cuMemAllocManaged\<close>) and mipmapped arrays may be among the calls but
  are not in the ledger: their hooks are empty (a TODO in the sources), so they are limited by nothing.
  An allocation the driver made and the posthook then refused is not in it either, since the call
  returns an error. The name of the pod is a C string of at most 51 characters. The driver may do
  anything except hand out a pointer that is in use or a pitch that overflows 64 bits; array formats
  have to be known.\<close>

theorem memory_isolation:
  assumes "pod_init p" and "c_safe (resolve_name env comm_init)" and "length (resolve_name env comm_init) \<le> 51" and "0 \<le> k"
    and "fresh_driver alive drv" and "pitch_bounded (pod_mem_limit (pod_account p)) drv" and "\<forall>c\<in>set calls. known_size (fst c)"
  shows "\<exists>rs hi f. mem_calls (pod_ops env) (lift_driver drv) calls (place_hooks (new_hookInfo dbg)) (start_frame port p k d) = Inr (rs, hi, f)
    \<and> length rs = length calls
    \<and> unat (pod_mem_used (pod_account (gw_pod (frame_world f)))) = map_nat_total (outstanding calls rs Map.empty)
    \<and> gpu_mem_used (frame_lib f) ! 0 = pod_mem_used (pod_account (gw_pod (frame_world f)))
    \<and> allocation_maps (frame_lib f) ! 0 = outstanding calls rs Map.empty
    \<and> pod_mem_used (pod_account (gw_pod (frame_world f))) \<le> pod_mem_limit (pod_account p)
    \<and> pod_step\<^sup>*\<^sup>* p (gw_pod (frame_world f))"
proof -
  have "allocation_maps (frame_lib (start_frame port p k d :: (hook_lib, _ gpu_world) call_frame)) ! 0 = Map.empty"
    by (simp add: start_frame_def new_hook_lib_def max_gpu_num_def)
  then show ?thesis
    using mem_calls_return [OF placed_place_hooks start_frame_ok [OF assms(1-4)] assms(5-7), of dbg port d]
    by (fastforce simp: frame_ok_def isolated_def pod_totals_def start_frame_def)
qed

theorem memory_isolation_witness:
  "\<exists>rs hi f. mem_calls (pod_ops pod1_env) (lift_driver counting_driver) [(MemAlloc 3000, 0, 0), (MemAlloc 2000, 0, 0), (MemFree 0, 0, 0)]
       (place_hooks (new_hookInfo None)) (start_frame 50052 pod_boot 5 0) = Inr (rs, hi, f)
     \<and> gpu_mem_used (frame_lib f) ! 0 \<le> 4096"
proof -
  have "pod_mem_limit (pod_account pod_boot) = 4096" by (simp add: pod_boot_def fresh_account_def)
  moreover have "\<forall>c\<in>set [(MemAlloc 3000, 0, 0), (MemAlloc 2000, 0, 0), (MemFree 0, 0, 0)]. known_size (fst c)"
    by (simp add: known_size_def)
  ultimately show ?thesis
    using memory_isolation [OF pod_boot_init pod1_env_ok, of 5 numbered counting_driver "[(MemAlloc 3000, 0, 0), (MemAlloc 2000, 0, 0), (MemFree 0, 0, 0)]"
        None 50052 0] counting_driver_fresh counting_driver_pitch by fastforce
qed

text \<open>C15. An allocation that does not fit never reaches the driver: after any sequence of calls,
  \<^verbatim>\<open>cuMemAlloc\<close> of more than the remaining memory returns \<^verbatim>\<open>CUDA_ERROR_OUT_OF_MEMORY\<close> and leaves the
  driver and the table of allocations as they were; any other request gets the driver's answer, and if
  the driver succeeds the pointer is recorded with its size.\<close>

theorem allocation_gate:
  assumes "pod_init p" and "c_safe (resolve_name env comm_init)" and "length (resolve_name env comm_init) \<le> 51" and "0 \<le> k"
    and "fresh_driver alive drv" and "pitch_bounded (pod_mem_limit (pod_account p)) drv" and "\<forall>c\<in>set calls. known_size (fst c)"
    and "mem_calls (pod_ops env) (lift_driver drv) calls (place_hooks (new_hookInfo dbg)) (start_frame port p k d) = Inr (rs, hi, f)"
    and "drv (MemAlloc n) (out_ptr f) (out_pitch f) (gw_drv (frame_world f)) = (r, ptr, q, d')"
  shows "\<exists>r' hi' f'. mem_api (pod_ops env) (lift_driver drv) (MemAlloc n) hi f = Inr (r', hi', f')
    \<and> (if n > pod_mem_limit (pod_account p) - gpu_mem_used (frame_lib f) ! 0
       then r' = CUDA_ERROR_OUT_OF_MEMORY \<and> gw_drv (frame_world f') = gw_drv (frame_world f)
         \<and> allocation_maps (frame_lib f') ! 0 = allocation_maps (frame_lib f) ! 0
       else r' = r \<and> gw_drv (frame_world f') = d' \<and> out_ptr f' = ptr
         \<and> allocation_maps (frame_lib f') ! 0 =
             (if r = CUDA_SUCCESS then (allocation_maps (frame_lib f) ! 0)(ptr \<mapsto> n) else allocation_maps (frame_lib f) ! 0))"
proof -
  let ?l = "pod_mem_limit (pod_account p)"
  have ok: "placed hi" "frame_ok env alive ?l f"
    using mem_calls_return [OF placed_place_hooks start_frame_ok [OF assms(1-4)] assms(5-7), of dbg port d] assms(8) by auto
  have tr: "tracking (MemAlloc n) (out_pitch f) = Books (Some n)" by simp
  show ?thesis
  proof (cases "n > ?l - gpu_mem_used (frame_lib f) ! 0")
    case True
    then show ?thesis using books_blocked [OF ok tr True, of drv] by auto
  next
    case False
    then show ?thesis using books_passed [OF ok assms(5,6) tr _ assms(9)] by fastforce
  qed
qed

theorem allocation_gate_witness:
  "\<exists>hi' f'. mem_api (pod_ops pod1_env) (lift_driver counting_driver) (MemAlloc 5000) (place_hooks (new_hookInfo None))
      (start_frame 50052 pod_boot 5 0) = Inr (CUDA_ERROR_OUT_OF_MEMORY, hi', f') \<and> gw_drv (frame_world f') = 0"
proof -
  have lim: "pod_mem_limit (pod_account pod_boot) = 4096" by (simp add: pod_boot_def fresh_account_def)
  have st: "gpu_mem_used (frame_lib (start_frame 50052 pod_boot 5 (0 :: nat))) ! 0 = 0" "gw_drv (frame_world (start_frame 50052 pod_boot 5 (0 :: nat))) = 0"
    by (simp_all add: start_frame_def new_hook_lib_def max_gpu_num_def)
  obtain r ptr q d' where "counting_driver (MemAlloc 5000) (out_ptr (start_frame 50052 pod_boot 5 0 :: (hook_lib, nat gpu_world) call_frame))
      (out_pitch (start_frame 50052 pod_boot 5 0 :: (hook_lib, nat gpu_world) call_frame)) (gw_drv (frame_world (start_frame 50052 pod_boot 5 0)))
      = (r, ptr, q, d')" using prod_cases4 by blast
  then show ?thesis
    using allocation_gate [OF pod_boot_init pod1_env_ok _ counting_driver_fresh counting_driver_pitch, of 5 "[]" None 50052 0 _ _ _ 5000 r ptr q d']
    by (simp add: lim st) blast
qed

end
