(* ===== verification/Gem_Launch.thy ===== *)
theory Gem_Launch
  imports Gem_HookMem Gem_Predictor Gem_Sched
begin

text \<open>
  Kernel launches in the hook library, \<^verbatim>\<open>src/src/hook.cpp\<close>: the gate in front of \<^verbatim>\<open>cuLaunchKernel\<close>,
  the token request, the synchronous calls that end a burst, \<^verbatim>\<open>initialize\<close>, and the thread that tracks
  overuse, as a step relation of the launching and the tracking thread.

  \<^item> The library's globals are those of \<open>hook_lib\<close> and the arrays of quotas, overuse and predictors; the
    predictors are two, the other arrays have \<open>max_gpu_num\<close> places.
  \<^item> \<open>op_clock\<close> is the monotonic clock. \<open>va_read\<close> is what \<^verbatim>\<open>va_arg\<close> finds for an argument list that was
    passed with other types than it is read with: undefined in C++, and on the System V ABI the contents
    of the floating-point registers.
  \<^item> CUDA events are not part of the state; the time \<^verbatim>\<open>cudaEventElapsedTime\<close> reports is an argument.
\<close>

section \<open>The state\<close>

record launch_lib = hook_lib +
  quota_time :: "double list"
  overuse :: "double list"
  burst_predictor :: "Predictor list"
  window_predictor :: "Predictor list"
  request_start :: timespec
  overuse_trk_cmpl :: bool

definition SCHD_OVERHEAD :: double where "SCHD_OVERHEAD = 2"

definition new_launch_lib :: launch_lib where
  "new_launch_lib = hook_lib.extend new_hook_lib
     \<lparr>quota_time = replicate (nat max_gpu_num) 0, overuse = replicate (nat max_gpu_num) 0,
      burst_predictor = replicate 2 (new_Predictor ''burst'' SCHD_OVERHEAD),
      window_predictor = replicate 2 (new_Predictor ''window'' 0),
      request_start = \<lparr>tv_sec = 0, tv_nsec = 0\<rparr>, overuse_trk_cmpl = False\<rparr>"

record 'w launch_ops = "'w hook_ops" +
  op_clock :: "'w \<Rightarrow> timepoint"
  va_read :: "vararg list \<Rightarrow> vararg list"
  overuse_address :: "64 word"

section \<open>Functions of the launch path\<close>

definition us_since :: "timespec \<Rightarrow> timepoint \<Rightarrow> int" where
  "us_since begin_ts now = (let n = clock_gettime now
     in (tv_sec n - tv_sec begin_ts) * 1000000 + (tv_nsec n - tv_nsec begin_ts) sdiv 1000)"

definition estimate_full_burst :: "double \<Rightarrow> double \<Rightarrow> double" where
  "estimate_full_burst measured_burst measured_window =
     (if measured_burst < 1 / 10 ^ 9 then 0
      else if measured_window < SCHD_OVERHEAD then measured_burst * 2 else measured_burst)"

text \<open>The token request. The first variable argument is the array \<^verbatim>\<open>overuse\<close>, a pointer, where a double
  is read; the quota in the response is not read.\<close>

definition get_token_from_scheduler ::
  "('w, 'o) launch_ops_scheme \<Rightarrow> double \<Rightarrow> int \<Rightarrow> launch_lib \<Rightarrow> 'w \<Rightarrow> hook_error + double \<times> launch_lib \<times> 'w" where
  "get_token_from_scheduler ops next_burst device h w =
     (case prepare_request (op_env ops) (hook_comm h) (replicate REQ_MSG_LEN 0) REQ_QUOTA
         (va_read ops [APointer (overuse_address ops), ADouble (bits_of_double next_burst)]) of
        None \<Rightarrow> Inl Undefined
      | Some (rid, st, sbuf) \<Rightarrow>
          (case communicate ops sbuf (stack_bytes ops) 0 device (h\<lparr>hook_comm := st\<rparr>) w of
             Inl e \<Rightarrow> Inl e
           | Inr (rc, rbuf, h, w) \<Rightarrow>
               if rc \<noteq> 0 then Inl (Exit rc)
               else case parse_response rbuf of None \<Rightarrow> Inl Undefined | Some (rid, off) \<Rightarrow> Inr (6000, h, w)))"

definition predictor_ok :: "launch_lib \<Rightarrow> int \<Rightarrow> bool" where
  "predictor_ok h device \<longleftrightarrow> 0 \<le> device \<and> device < int (length (burst_predictor h)) \<and> device < int (length (window_predictor h))"

definition set_burst_predictor :: "int \<Rightarrow> Predictor \<Rightarrow> launch_lib \<Rightarrow> launch_lib" where
  "set_burst_predictor device p h = h\<lparr>burst_predictor := (burst_predictor h)[nat device := p]\<rparr>"

definition set_window_predictor :: "int \<Rightarrow> Predictor \<Rightarrow> launch_lib \<Rightarrow> launch_lib" where
  "set_window_predictor device p h = h\<lparr>window_predictor := (window_predictor h)[nat device := p]\<rparr>"

definition host_sync_call ::
  "('w, 'o) launch_ops_scheme \<Rightarrow> launch_lib \<Rightarrow> 'w \<Rightarrow> hook_error + launch_lib" where
  "host_sync_call ops h w =
     (case get_current_device_id ops w of
        Inl e \<Rightarrow> Inl e
      | Inr device \<Rightarrow>
          if \<not> predictor_ok h device then Inl Undefined
          else let h = set_burst_predictor device (record_stop (op_clock ops w) (burst_predictor h ! nat device)) h
               in Inr (set_window_predictor device (record_start (op_clock ops w) (window_predictor h ! nat device)) h))"

text \<open>The posthooks of the synchronous calls differ in the name they log only.\<close>

definition cuCtxSynchronize_posthook ::
  "('w, 'o) launch_ops_scheme \<Rightarrow> launch_lib \<Rightarrow> 'w \<Rightarrow> hook_error + CUresult \<times> launch_lib \<times> 'w" where
  "cuCtxSynchronize_posthook ops h w = (case host_sync_call ops h w of Inl e \<Rightarrow> Inl e | Inr h \<Rightarrow> Inr (CUDA_SUCCESS, h, w))"

definition cuMemcpyAtoH_posthook where "cuMemcpyAtoH_posthook ops h w = cuCtxSynchronize_posthook ops h w"
definition cuMemcpyDtoH_posthook where "cuMemcpyDtoH_posthook ops h w = cuCtxSynchronize_posthook ops h w"
definition cuMemcpyHtoA_posthook where "cuMemcpyHtoA_posthook ops h w = cuCtxSynchronize_posthook ops h w"
definition cuMemcpyHtoD_posthook where "cuMemcpyHtoD_posthook ops h w = cuCtxSynchronize_posthook ops h w"

section \<open>cuLaunchKernel_prehook\<close>

text \<open>Up to the decision: \<open>Some\<close> of the estimated burst when a new token is needed.\<close>

definition launch_gate :: "int \<Rightarrow> timepoint \<Rightarrow> launch_lib \<Rightarrow> hook_error + double option \<times> launch_lib" where
  "launch_gate device now h =
     (if \<not> predictor_ok h device then Inl Undefined
      else let h = set_window_predictor device (record_stop now (window_predictor h ! nat device)) h;
               b = burst_predictor h ! nat device
           in if ongoing_unmerged b then Inr (None, h)
              else let (predicted, b) = predict_unmerged now b;
                       h = set_burst_predictor device b h
                   in if real_of_int (us_since (request_start h) now) / 1000 + predicted \<ge> quota_time h ! nat device
                      then let (mb, b) = predict_merged now b;
                               h = set_burst_predictor device b h;
                               (mw, wp) = predict_merged now (window_predictor h ! nat device);
                               h = set_window_predictor device wp h
                           in Inr (Some (estimate_full_burst mb mw), h)
                      else Inr (None, h))"

text \<open>From the end of the wait to the new quota.\<close>

definition launch_token ::
  "('w, 'o) launch_ops_scheme \<Rightarrow> int \<Rightarrow> double \<Rightarrow> launch_lib \<Rightarrow> 'w \<Rightarrow> hook_error + launch_lib \<times> 'w" where
  "launch_token ops device next_burst h w =
     (let h = set_window_predictor device (interrupt (window_predictor h ! nat device)) h in
      case get_token_from_scheduler ops next_burst device h w of
        Inl e \<Rightarrow> Inl e
      | Inr (new_quota, h, w) \<Rightarrow>
          let h = set_burst_predictor device (set_upperbound (new_quota - 1) (burst_predictor h ! nat device)) h
          in Inr (h\<lparr>request_start := clock_gettime (op_clock ops w), quota_time := (quota_time h)[nat device := new_quota]\<rparr>, w))"

definition launch_begin :: "int \<Rightarrow> timepoint \<Rightarrow> launch_lib \<Rightarrow> launch_lib" where
  "launch_begin device now h = set_burst_predictor device (record_start now (burst_predictor h ! nat device)) h"

text \<open>The whole prehook; \<open>wait\<close> is what the other threads do while it waits for the tracking thread.\<close>

definition cuLaunchKernel_prehook ::
  "('w, 'o) launch_ops_scheme \<Rightarrow> (launch_lib \<times> 'w \<Rightarrow> launch_lib \<times> 'w) \<Rightarrow> launch_lib \<Rightarrow> 'w
    \<Rightarrow> hook_error + CUresult \<times> launch_lib \<times> 'w" where
  "cuLaunchKernel_prehook ops wait h w =
     (case get_current_device_id ops w of
        Inl e \<Rightarrow> Inl e
      | Inr device \<Rightarrow>
          (case launch_gate device (op_clock ops w) h of
             Inl e \<Rightarrow> Inl e
           | Inr (None, h) \<Rightarrow> Inr (CUDA_SUCCESS, launch_begin device (op_clock ops w) h, w)
           | Inr (Some next_burst, h) \<Rightarrow>
               let (h, w) = (if overuse_trk_cmpl h then (h, w) else wait (h, w)) in
               (case launch_token ops device next_burst h w of
                  Inl e \<Rightarrow> Inl e
                | Inr (h, w) \<Rightarrow>
                    Inr (CUDA_SUCCESS, launch_begin device (op_clock ops w) (h\<lparr>overuse_trk_cmpl := False\<rparr>), w))))"

definition cuLaunchCooperativeKernel_prehook where
  "cuLaunchCooperativeKernel_prehook ops wait h w = cuLaunchKernel_prehook ops wait h w"

section \<open>initialize\<close>

fun request_tokens ::
  "('w, 'o) launch_ops_scheme \<Rightarrow> int list \<Rightarrow> launch_lib \<Rightarrow> 'w \<Rightarrow> hook_error + launch_lib \<times> 'w" where
  "request_tokens ops [] h w = Inr (h, w)"
| "request_tokens ops (i # is) h w =
     (case get_token_from_scheduler ops 0 i h w of Inl e \<Rightarrow> Inl e | Inr (q, h, w) \<Rightarrow> request_tokens ops is h w)"

text \<open>\<open>None\<close>: the loop over the ports does not end. An event is created for every port, in an array of
  \<open>max_gpu_num\<close> places.\<close>

definition initialize ::
  "('w, 'o) launch_ops_scheme \<Rightarrow> string option \<Rightarrow> string option \<Rightarrow> hookInfo \<Rightarrow> launch_lib \<Rightarrow> 'w
    \<Rightarrow> (hook_error + hookInfo \<times> launch_lib \<times> 'w) option" where
  "initialize ops ip port hook_inf h w =
     (let h = h\<lparr>quota_time := replicate (nat max_gpu_num) 0\<rparr>; hook_inf = place_hooks hook_inf in
      case configure_connection ip port h of
        None \<Rightarrow> None
      | Some (Inl e) \<Rightarrow> Some (Inl e)
      | Some (Inr h) \<Rightarrow>
          if current_gpu_num h > max_gpu_num then Some (Inl Undefined)
          else Some (case request_tokens ops [0..current_gpu_num h - 1] (h\<lparr>overuse_trk_cmpl := True\<rparr>) w of
             Inl e \<Rightarrow> Inl e
           | Inr (h, w) \<Rightarrow> Inr (hook_inf, h, w)))"

section \<open>wait_cuda_kernels\<close>

definition token_expiration :: "double \<Rightarrow> timepoint \<Rightarrow> timespec" where
  "token_expiration q now =
     (let nsec = max q 0 * 1000000;
          ts = clock_gettime now;
          ts = ts\<lparr>tv_sec := c_long (real_of_int (tv_sec ts) + real_of_int \<lfloor>nsec / 1000000000\<rfloor>)\<rparr>;
          ts = ts\<lparr>tv_nsec := c_long (real_of_int (tv_nsec ts) + (nsec - real_of_int \<lfloor>nsec / 1000000000\<rfloor> * 1000000000))\<rparr>;
          ts = ts\<lparr>tv_sec := tv_sec ts + tv_nsec ts sdiv 1000000000\<rparr>
      in ts\<lparr>tv_nsec := tv_nsec ts smod 1000000000\<rparr>)"

definition measure_overuse :: "int \<Rightarrow> double \<Rightarrow> launch_lib \<Rightarrow> launch_lib" where
  "measure_overuse device elapsed_ms h = h\<lparr>overuse := (overuse h)[nat device := max 0 (elapsed_ms - quota_time h ! nat device)]\<rparr>"

text \<open>
  The control points of a launching thread, which holds \<^verbatim>\<open>expiration_status_mutex\<close> from the gate to the
  end, and of the tracking thread. The condition variables are flags that say whether the thread that
  waits has been signalled; a signal without a waiting thread has no effect.
\<close>

datatype launcher_pc = LIdle | LLock double | LWaitCmpl double | LToken double | LSignal | LStart

datatype tracker_pc = TTop | TWaitStart | TArm | TLock timespec | TWaitIntr timespec | TSync | TReport

record 'w track_state =
  ls_lib :: launch_lib
  ls_world :: 'w
  launcher :: launcher_pc
  tracker :: tracker_pc
  start_sig :: bool
  intr_sig :: bool
  cmpl_sig :: bool

datatype track_move = MRun | MSignal | MTimeout | MSpurious

definition waiting_launcher :: "launcher_pc \<Rightarrow> bool" where
  "waiting_launcher pc \<longleftrightarrow> (case pc of LWaitCmpl nb \<Rightarrow> True | _ \<Rightarrow> False)"

definition waiting_tracker :: "tracker_pc \<Rightarrow> bool" where
  "waiting_tracker pc \<longleftrightarrow> (case pc of TWaitIntr ts \<Rightarrow> True | _ \<Rightarrow> False)"

definition launcher_step ::
  "('w, 'o) launch_ops_scheme \<Rightarrow> int \<Rightarrow> track_move \<Rightarrow> 'w track_state \<Rightarrow> 'w track_state option" where
  "launcher_step ops device mv s = (case launcher s of
     LIdle \<Rightarrow> if mv = MRun then (case launch_gate device (op_clock ops (ls_world s)) (ls_lib s) of
          Inl e \<Rightarrow> None
        | Inr (None, h) \<Rightarrow> Some (s\<lparr>ls_lib := h, launcher := LStart\<rparr>)
        | Inr (Some nb, h) \<Rightarrow> Some (s\<lparr>ls_lib := h, launcher := LLock nb\<rparr>)) else None
   | LLock nb \<Rightarrow> if mv = MRun
       then Some (if overuse_trk_cmpl (ls_lib s) then s\<lparr>launcher := LToken nb\<rparr>
                  else s\<lparr>launcher := LWaitCmpl nb, cmpl_sig := False, intr_sig := (waiting_tracker (tracker s) \<or> intr_sig s)\<rparr>)
       else None
   | LWaitCmpl nb \<Rightarrow> if mv = MSignal \<and> cmpl_sig s \<or> mv = MSpurious
       then Some (s\<lparr>launcher := LToken nb, cmpl_sig := False\<rparr>) else None
   | LToken nb \<Rightarrow> if mv = MRun then (case launch_token ops device nb (ls_lib s) (ls_world s) of
          Inl e \<Rightarrow> None
        | Inr (h, w) \<Rightarrow> Some (s\<lparr>ls_lib := h, ls_world := w, launcher := LSignal\<rparr>)) else None
   | LSignal \<Rightarrow> if mv = MRun
       then Some (s\<lparr>ls_lib := (ls_lib s)\<lparr>overuse_trk_cmpl := False\<rparr>, launcher := LStart,
                    start_sig := (tracker s = TWaitStart \<or> start_sig s)\<rparr>) else None
   | LStart \<Rightarrow> if mv = MRun
       then Some (s\<lparr>ls_lib := launch_begin device (op_clock ops (ls_world s)) (ls_lib s), launcher := LIdle\<rparr>) else None)"

definition tracker_step ::
  "('w, 'o) launch_ops_scheme \<Rightarrow> int \<Rightarrow> double \<Rightarrow> track_move \<Rightarrow> 'w track_state \<Rightarrow> 'w track_state option" where
  "tracker_step ops device elapsed_ms mv s = (case tracker s of
     TTop \<Rightarrow> if mv = MRun then Some (s\<lparr>tracker := TWaitStart, start_sig := False\<rparr>) else None
   | TWaitStart \<Rightarrow> if mv = MSignal \<and> start_sig s \<or> mv = MSpurious then Some (s\<lparr>tracker := TArm, start_sig := False\<rparr>) else None
   | TArm \<Rightarrow> if mv = MRun
       then Some (s\<lparr>tracker := TLock (token_expiration (quota_time (ls_lib s) ! nat device) (op_clock ops (ls_world s)))\<rparr>) else None
   | TLock ts \<Rightarrow> if mv = MRun then Some (s\<lparr>tracker := TWaitIntr ts, intr_sig := False\<rparr>) else None
   | TWaitIntr ts \<Rightarrow>
       if mv = MSignal \<and> intr_sig s \<or> mv = MSpurious \<or> mv = MTimeout \<and> ts_ns ts \<le> op_clock ops (ls_world s)
       then Some (s\<lparr>tracker := TSync, intr_sig := False\<rparr>) else None
   | TSync \<Rightarrow> if mv = MRun then (case host_sync_call ops (ls_lib s) (ls_world s) of
          Inl e \<Rightarrow> None
        | Inr h \<Rightarrow> Some (s\<lparr>ls_lib := measure_overuse device elapsed_ms h, tracker := TReport\<rparr>)) else None
   | TReport \<Rightarrow> if mv = MRun
       then Some (s\<lparr>ls_lib := (ls_lib s)\<lparr>overuse_trk_cmpl := True\<rparr>, tracker := TTop,
                    cmpl_sig := (waiting_launcher (launcher s) \<or> cmpl_sig s)\<rparr>) else None)"

text \<open>The two threads, calls of the application that synchronise, and the passing of time.\<close>

inductive track_step :: "('w, 'o) launch_ops_scheme \<Rightarrow> int \<Rightarrow> track_move \<Rightarrow> 'w track_state \<Rightarrow> 'w track_state \<Rightarrow> bool"
  for ops device where
  track_launch: "launcher_step ops device mv s = Some t \<Longrightarrow> track_step ops device mv s t"
| track_thread: "tracker_step ops device elapsed_ms mv s = Some t \<Longrightarrow> track_step ops device mv s t"
| track_sync: "host_sync_call ops (ls_lib s) (ls_world s) = Inr h \<Longrightarrow> track_step ops device MRun s (s\<lparr>ls_lib := h\<rparr>)"
| track_time: "op_clock ops (ls_world s) \<le> op_clock ops w \<Longrightarrow> track_step ops device MRun s (s\<lparr>ls_world := w\<rparr>)"

text \<open>The state \<^verbatim>\<open>initialize\<close> leaves, with the tracking thread just started.\<close>

definition track_init :: "'w track_state \<Rightarrow> bool" where
  "track_init s \<longleftrightarrow> length (quota_time (ls_lib s)) = nat max_gpu_num \<and> length (overuse (ls_lib s)) = nat max_gpu_num
     \<and> (\<forall>x\<in>set (overuse (ls_lib s)). 0 \<le> x) \<and> overuse_trk_cmpl (ls_lib s) \<and> launcher s = LIdle \<and> tracker s = TTop
     \<and> \<not> start_sig s \<and> \<not> intr_sig s \<and> \<not> cmpl_sig s"

section \<open>Time\<close>

lemma sdiv_near: "0 < (b :: int) \<Longrightarrow> \<bar>(a sdiv b) * b - a\<bar> < b"
proof (cases "0 \<le> a")
  case True
  assume b: "0 < b"
  then have "a sdiv b * b - a = - (a mod b)" using True by (simp add: sdiv_nonneg minus_mult_div_eq_mod [symmetric] algebra_simps)
  then show ?thesis using b pos_mod_bound [of b a] pos_mod_sign [of b a] by simp
next
  case False
  assume b: "0 < b"
  then have "a sdiv b = - ((- a) div b)" using False by (simp add: signed_divide_int_def)
  then have "a sdiv b * b - a = (- a) mod b" by (simp add: minus_mult_div_eq_mod [symmetric] algebra_simps)
  then show ?thesis using b pos_mod_bound [of b "- a"] pos_mod_sign [of b "- a"] by simp
qed

lemma ts_ns_clock [simp]: "ts_ns (clock_gettime t) = t"
  by (simp add: ts_ns_def clock_gettime_def)

lemma token_expiration_after: "token_expiration q now = get_timespec_after (max q 0) now"
proof -
  define x where "x = max q 0 / 1000"
  have "max q 0 * 1000000 / 1000000000 = x" "max q 0 * 1000000 = x * 1000000000" by (simp_all add: x_def)
  then show ?thesis
    by (simp add: token_expiration_def get_timespec_after_def Let_def x_def [symmetric] left_diff_distrib mult.commute)
qed

section \<open>The gate\<close>

lemma set_predictor_sel [simp]:
  "burst_predictor (set_burst_predictor d p h) = (burst_predictor h)[nat d := p]"
  "window_predictor (set_burst_predictor d p h) = window_predictor h"
  "burst_predictor (set_window_predictor d p h) = burst_predictor h"
  "window_predictor (set_window_predictor d p h) = (window_predictor h)[nat d := p]"
  "quota_time (set_burst_predictor d p h) = quota_time h" "quota_time (set_window_predictor d p h) = quota_time h"
  "overuse (set_burst_predictor d p h) = overuse h" "overuse (set_window_predictor d p h) = overuse h"
  "request_start (set_burst_predictor d p h) = request_start h" "request_start (set_window_predictor d p h) = request_start h"
  "overuse_trk_cmpl (set_burst_predictor d p h) = overuse_trk_cmpl h" "overuse_trk_cmpl (set_window_predictor d p h) = overuse_trk_cmpl h"
  by (simp_all add: set_burst_predictor_def set_window_predictor_def)

text \<open>What the calls of the launch path leave alone.\<close>

definition same_quota :: "launch_lib \<Rightarrow> launch_lib \<Rightarrow> bool" where
  "same_quota h h' \<longleftrightarrow> quota_time h' = quota_time h \<and> overuse h' = overuse h \<and> request_start h' = request_start h
     \<and> overuse_trk_cmpl h' = overuse_trk_cmpl h \<and> length (burst_predictor h') = length (burst_predictor h)
     \<and> length (window_predictor h') = length (window_predictor h)"

lemma launch_gate_result:
  assumes "predictor_ok h device"
  shows "\<exists>res h'. launch_gate device now h = Inr (res, h') \<and> same_quota h h'
    \<and> (res = None \<longleftrightarrow> ongoing_unmerged (burst_predictor h ! nat device)
        \<or> real_of_int (us_since (request_start h) now) / 1000 + fst (predict_unmerged now (burst_predictor h ! nat device)) < quota_time h ! nat device)
    \<and> (\<forall>nb. res = Some nb \<longrightarrow> nb = estimate_full_burst (fst (predict_merged now (burst_predictor h ! nat device)))
        (fst (predict_merged now (record_stop now (window_predictor h ! nat device)))))
    \<and> (ongoing_unmerged (burst_predictor h ! nat device) \<longleftrightarrow> ongoing_unmerged (burst_predictor h' ! nat device))"
proof -
  have d: "nat device < length (burst_predictor h)" "nat device < length (window_predictor h)"
    using assms by (auto simp: predictor_ok_def)
  have m: "fst (predict_merged now (snd (predict_unmerged now p))) = fst (predict_merged now p)" for p
    by (simp add: predict_merged_def predict_unmerged_def Let_def)
  have o: "ongoing_unmerged (snd (predict_unmerged now p)) = ongoing_unmerged p" "ongoing_unmerged (snd (predict_merged now p)) = ongoing_unmerged p" for p
    by (simp_all add: predict_merged_def predict_unmerged_def Let_def ongoing_unmerged_def)
  show ?thesis
    using assms d by (auto simp: launch_gate_def Let_def case_prod_unfold m o same_quota_def not_less not_le)
qed

lemma communicate_lib:
  fixes h :: launch_lib
  assumes "communicate ops sbuf rbuf timeout device h w = Inr (rc, rbuf', h', w')"
  shows "same_quota h h' \<and> burst_predictor h' = burst_predictor h \<and> window_predictor h' = window_predictor h"
  using communicate_frame [OF assms] by (auto simp: same_quota_def)

lemma get_token_result:
  assumes "get_token_from_scheduler ops nb device h w = Inr (q, h', w')"
  shows "q = 6000 \<and> same_quota h h' \<and> burst_predictor h' = burst_predictor h \<and> window_predictor h' = window_predictor h"
proof -
  obtain st sbuf rc rbuf' where "communicate ops sbuf (stack_bytes ops) 0 device (h\<lparr>hook_comm := st\<rparr>) w = Inr (rc, rbuf', h', w')" "q = 6000"
    using assms by (auto simp: get_token_from_scheduler_def split: option.splits sum.splits if_splits)
  then show ?thesis using communicate_lib by (fastforce simp: same_quota_def)
qed

lemma launch_token_result:
  assumes "launch_token ops device nb h w = Inr (h', w')"
  shows "quota_time h' = (quota_time h)[nat device := 6000] \<and> overuse h' = overuse h
    \<and> request_start h' = clock_gettime (op_clock ops w') \<and> overuse_trk_cmpl h' = overuse_trk_cmpl h
    \<and> length (burst_predictor h') = length (burst_predictor h) \<and> length (window_predictor h') = length (window_predictor h)"
  using assms get_token_result [of ops nb device _ w]
  by (auto simp: launch_token_def Let_def same_quota_def split: sum.splits dest!: get_token_result)

lemma host_sync_result:
  "host_sync_call ops h w = Inr h' \<Longrightarrow> same_quota h h'"
  by (auto simp: host_sync_call_def Let_def same_quota_def split: sum.splits if_splits)

lemma launch_begin_sel:
  "same_quota h (launch_begin device now h)"
  by (simp add: launch_begin_def same_quota_def)

lemma launch_begin_ongoing:
  "nat device < length (burst_predictor h) \<Longrightarrow> now \<noteq> TP_MAX \<Longrightarrow>
   ongoing_unmerged (burst_predictor (launch_begin device now h) ! nat device)"
  by (auto simp: launch_begin_def record_start_def ongoing_unmerged_def Let_def)

section \<open>The invariant of the two threads\<close>

definition track_inv :: "'w track_state \<Rightarrow> bool" where
  "track_inv s \<longleftrightarrow> length (quota_time (ls_lib s)) = nat max_gpu_num \<and> length (overuse (ls_lib s)) = nat max_gpu_num
     \<and> (\<forall>x\<in>set (overuse (ls_lib s)). 0 \<le> x)
     \<and> (start_sig s \<longrightarrow> tracker s = TWaitStart) \<and> (intr_sig s \<longrightarrow> waiting_tracker (tracker s))
     \<and> (cmpl_sig s \<longrightarrow> waiting_launcher (launcher s))
     \<and> (waiting_launcher (launcher s) \<and> \<not> cmpl_sig s \<longrightarrow> \<not> overuse_trk_cmpl (ls_lib s))"

lemma track_inv_init: "track_init s \<Longrightarrow> track_inv s"
  by (simp add: track_inv_def track_init_def waiting_launcher_def)

lemma launcher_step_inv:
  assumes "launcher_step ops device mv s = Some t" and "track_inv s"
  shows "track_inv t"
proof (cases "launcher s")
  case LIdle
  obtain res h where g: "launch_gate device (op_clock ops (ls_world s)) (ls_lib s) = Inr (res, h)"
    using assms(1) LIdle by (auto simp: launcher_step_def split: if_splits sum.splits)
  then have ok: "predictor_ok (ls_lib s) device" by (auto simp: launch_gate_def split: if_splits)
  have "same_quota (ls_lib s) h" using launch_gate_result [OF ok, of "op_clock ops (ls_world s)"] g by auto
  then show ?thesis
    using assms g LIdle
    by (cases res) (auto simp: launcher_step_def track_inv_def same_quota_def waiting_launcher_def split: if_splits)
next
  case (LLock nb)
  then show ?thesis
    using assms by (auto simp: launcher_step_def track_inv_def waiting_launcher_def split: if_splits)
next
  case (LWaitCmpl nb)
  then show ?thesis using assms by (auto simp: launcher_step_def track_inv_def waiting_launcher_def split: if_splits)
next
  case (LToken nb)
  then obtain h w where "launch_token ops device nb (ls_lib s) (ls_world s) = Inr (h, w)" "t = s\<lparr>ls_lib := h, ls_world := w, launcher := LSignal\<rparr>"
    using assms(1) by (auto simp: launcher_step_def split: if_splits sum.splits)
  then show ?thesis using launch_token_result assms(2) LToken by (fastforce simp: track_inv_def waiting_launcher_def)
next
  case LSignal
  then show ?thesis using assms by (auto simp: launcher_step_def track_inv_def waiting_launcher_def split: if_splits)
next
  case LStart
  then show ?thesis
    using assms launch_begin_sel [of "ls_lib s" device "op_clock ops (ls_world s)"]
    by (auto simp: launcher_step_def track_inv_def waiting_launcher_def same_quota_def split: if_splits)
qed

lemma measure_overuse_inv:
  "\<forall>x\<in>set (overuse h). 0 \<le> x \<Longrightarrow> \<forall>x\<in>set (overuse (measure_overuse device e h)). 0 \<le> x"
  using set_update_subset_insert by (fastforce simp: measure_overuse_def)

lemma tracker_step_inv:
  assumes "tracker_step ops device e mv s = Some t" and "track_inv s"
  shows "track_inv t"
proof (cases "tracker s")
  case TSync
  then obtain h where h: "host_sync_call ops (ls_lib s) (ls_world s) = Inr h" "t = s\<lparr>ls_lib := measure_overuse device e h, tracker := TReport\<rparr>"
    using assms(1) by (auto simp: tracker_step_def split: if_splits sum.splits)
  then show ?thesis
    using host_sync_result [OF h(1)] assms(2) TSync measure_overuse_inv [of h device e]
    by (auto simp: track_inv_def same_quota_def measure_overuse_def waiting_tracker_def)
qed (use assms in \<open>auto simp: tracker_step_def track_inv_def waiting_tracker_def split: if_splits\<close>)

lemma track_step_inv: "track_step ops device mv s t \<Longrightarrow> track_inv s \<Longrightarrow> track_inv t"
proof (induction rule: track_step.induct)
  case (track_sync s h)
  then show ?case using host_sync_result [OF track_sync(1)] by (auto simp: track_inv_def same_quota_def)
next
  case (track_time s w)
  then show ?case by (simp add: track_inv_def)
qed (auto intro: launcher_step_inv tracker_step_inv)

interpretation track: inductive_invariant track_init "\<lambda>s t. \<exists>mv. track_step ops device mv s t" track_inv for ops device
  by unfold_locales (auto intro: track_inv_init track_step_inv)

section \<open>After initialize\<close>

lemma configure_connection_result:
  fixes h :: launch_lib
  shows "configure_connection ip port h \<noteq> None"
    and "configure_connection ip port h = Some (Inr h') \<Longrightarrow> same_quota h h' \<and> allocation_maps h' = allocation_maps h \<and> gpu_mem_used h' = gpu_mem_used h"
  by (auto simp: configure_connection_def port_loop_tokens Let_def same_quota_def split: option.splits sum.splits if_splits)

lemma request_tokens_result: "request_tokens ops is h w = Inr (h', w') \<Longrightarrow> same_quota h h'"
proof (induction "is" arbitrary: h w)
  case (Cons i "is")
  obtain q h1 w1 where t: "get_token_from_scheduler ops 0 i h w = Inr (q, h1, w1)" "request_tokens ops is h1 w1 = Inr (h', w')"
    using Cons.prems by (auto split: sum.splits)
  then show ?case using get_token_result [OF t(1)] Cons.IH [OF t(2)] by (simp add: same_quota_def)
qed (simp add: same_quota_def)

section \<open>Stuck threads\<close>

text \<open>A state that no signal and no timeout can change: the launching thread waits for a completion, the
  tracking thread for a start, and neither has been signalled.\<close>

definition stuck :: "'w track_state \<Rightarrow> bool" where
  "stuck s \<longleftrightarrow> waiting_launcher (launcher s) \<and> tracker s = TWaitStart \<and> \<not> start_sig s \<and> \<not> cmpl_sig s"

definition regular_step :: "('w, 'o) launch_ops_scheme \<Rightarrow> int \<Rightarrow> 'w track_state \<Rightarrow> 'w track_state \<Rightarrow> bool" where
  "regular_step ops device s t \<longleftrightarrow> (\<exists>mv. mv \<noteq> MSpurious \<and> track_step ops device mv s t)"

lemma regular_launch: "launcher_step ops device MRun s = Some t \<Longrightarrow> regular_step ops device s t"
  unfolding regular_step_def using track_launch by (metis track_move.distinct(5))

lemma regular_thread: "tracker_step ops device e MRun s = Some t \<Longrightarrow> regular_step ops device s t"
  unfolding regular_step_def using track_thread by (metis track_move.distinct(5))

lemma regular_sync: "host_sync_call ops (ls_lib s) (ls_world s) = Inr h \<Longrightarrow> regular_step ops device s (s\<lparr>ls_lib := h\<rparr>)"
  unfolding regular_step_def using track_sync by (metis track_move.distinct(5))

lemma regular_time: "op_clock ops (ls_world s) \<le> op_clock ops w \<Longrightarrow> regular_step ops device s (s\<lparr>ls_world := w\<rparr>)"
  unfolding regular_step_def using track_time by (metis track_move.distinct(5))

lemma stuck_step: "track_step ops device mv s t \<Longrightarrow> mv \<noteq> MSpurious \<Longrightarrow> stuck s \<Longrightarrow> stuck t \<and> launcher t = launcher s"
  by (induction rule: track_step.induct)
     (auto simp: stuck_def waiting_launcher_def launcher_step_def tracker_step_def split: launcher_pc.splits if_splits)

lemma stuck_forever:
  "(regular_step ops device)\<^sup>*\<^sup>* s t \<Longrightarrow> stuck s \<Longrightarrow> stuck t \<and> launcher t = launcher s"
  by (induction rule: rtranclp_induct) (use stuck_step in \<open>fastforce simp: regular_step_def\<close>)+

section \<open>A lost start signal\<close>

text \<open>\<^verbatim>\<open>va_arg\<close> on the System V ABI: doubles are found in the floating-point registers, in the order of the
  doubles that were passed; after them come registers with other contents.\<close>

definition sysv_read :: "double_bits \<Rightarrow> vararg list \<Rightarrow> vararg list" where
  "sysv_read x args = filter (\<lambda>a. case a of ADouble d \<Rightarrow> True | _ \<Rightarrow> False) args @ [ADouble x, ADouble x]"

definition answering_ops :: "timepoint launch_ops" where
  "answering_ops = \<lparr>op_env = \<lparr>env_pod_name = Some ''pod1'', env_hostname = ''node''\<rparr>, op_device = (\<lambda>w. (CUDA_SUCCESS, 0)),
     op_socket = (\<lambda>w. (3, w)), op_connect = (\<lambda>_ _ _ w. (0, 0, w)), op_timeout = (\<lambda>_ _ w. w),
     op_send = (\<lambda>_ _ w. (80, 0, w)), op_recv = (\<lambda>_ buf w. (40, 0, replicate RSP_MSG_LEN 0, w)), op_sleep = (\<lambda>_ w. w),
     stack_bytes = replicate RSP_MSG_LEN 0, op_clock = (\<lambda>w. w), va_read = sysv_read 0, overuse_address = 0\<rparr>"

definition booted_lib :: launch_lib where
  "booted_lib = new_launch_lib\<lparr>pod_manager_port_list := [50052], current_gpu_num := 1, overuse_trk_cmpl := True\<rparr>"

lemma sysv_request:
  assumes "length (resolve_name env st) \<le> 47"
  shows "\<exists>rid st' sbuf. prepare_request env st (replicate REQ_MSG_LEN 0) REQ_QUOTA
    (sysv_read x [APointer a, ADouble b]) = Some (rid, st', sbuf)"
  using prepare_request_layout [of "replicate REQ_MSG_LEN 0" REQ_QUOTA "sysv_read x [APointer a, ADouble b]" "bytes64 b @ bytes64 x" env st] assms
  by (simp add: Let_def REQ_MSG_LEN_def sysv_read_def)

lemma answering_token:
  assumes "device_ok h 0" and "length (resolve_name (op_env answering_ops) (hook_comm h)) \<le> 47"
  shows "\<exists>h'. get_token_from_scheduler answering_ops nb 0 h w = Inr (6000, h', w)"
proof -
  obtain rid st sbuf where p: "prepare_request (op_env answering_ops) (hook_comm h) (replicate REQ_MSG_LEN 0) REQ_QUOTA
      (va_read answering_ops [APointer (overuse_address answering_ops), ADouble (bits_of_double nb)]) = Some (rid, st, sbuf)"
    using sysv_request [OF assms(2)] by (fastforce simp: answering_ops_def)
  have ok: "device_ok (h\<lparr>hook_comm := st\<rparr>) 0" using assms(1) by (simp add: device_ok_def)
  obtain h' where c: "communicate answering_ops sbuf (stack_bytes answering_ops) 0 0 (h\<lparr>hook_comm := st\<rparr>) w = Inr (0, replicate RSP_MSG_LEN 0, h', w)"
    using communicate_first_try [OF ok, of answering_ops w 3 w 0 w sbuf 0 80 0 w "replicate RSP_MSG_LEN 0" 40 0 "replicate RSP_MSG_LEN 0" w]
    by (auto simp: answering_ops_def)
  have "\<exists>r off. parse_response (replicate RSP_MSG_LEN 0) = Some (r, off)"
    by (simp add: parse_response_def get_msg_data_def RSP_MSG_LEN_def)
  then show ?thesis using p c by (auto simp: get_token_from_scheduler_def)
qed

lemma booted_sel:
  "burst_predictor booted_lib = [new_Predictor ''burst'' 2, new_Predictor ''burst'' 2]"
  "window_predictor booted_lib = [new_Predictor ''window'' 0, new_Predictor ''window'' 0]"
  "request_start booted_lib = \<lparr>tv_sec = 0, tv_nsec = 0\<rparr>" "quota_time booted_lib = replicate 8 0" "overuse_trk_cmpl booted_lib"
  "overuse booted_lib = replicate 8 0" "hook_comm booted_lib = comm_init" "device_ok booted_lib 0"
  by (simp_all add: booted_lib_def new_launch_lib_def hook_lib.defs new_hook_lib_def max_gpu_num_def SCHD_OVERHEAD_def numeral_2_eq_2 device_ok_def)

lemma predict_new: "predict_unmerged t (new_Predictor nm x) = (0, new_Predictor nm x)" "predict_merged t (new_Predictor nm x) = (0, new_Predictor nm x)"
    "record_stop t (new_Predictor nm x) = new_Predictor nm x" "interrupt (new_Predictor nm x) = new_Predictor nm x"
  by (simp_all add: predict_unmerged_def predict_merged_def record_stop_def interrupt_def new_Predictor_def new_RecordKeeper_def
      rk_drop_outdated_def rk_get_max_def ongoing_unmerged_def)

lemma first_gate: "launch_gate 0 0 booted_lib = Inr (Some 0, booted_lib)"
proof -
  have u: "us_since \<lparr>tv_sec = 0, tv_nsec = 0\<rparr> 0 = 0" by (simp add: us_since_def clock_gettime_def)
  have o: "\<not> ongoing_unmerged (new_Predictor ''burst'' 2)" by (simp add: ongoing_unmerged_def new_Predictor_def)
  have s: "set_burst_predictor 0 (new_Predictor ''burst'' 2) booted_lib = booted_lib" "set_window_predictor 0 (new_Predictor ''window'' 0) booted_lib = booted_lib"
    by (simp_all add: set_burst_predictor_def set_window_predictor_def booted_sel)
  show ?thesis
    by (simp add: launch_gate_def predictor_ok_def booted_sel predict_new s o u estimate_full_burst_def)
qed

lemma first_token:
  "\<exists>h. launch_token answering_ops 0 0 booted_lib 0 = Inr (h, 0)
    \<and> burst_predictor h = [set_upperbound 5999 (new_Predictor ''burst'' 2), new_Predictor ''burst'' 2] \<and> predictor_ok h 0
    \<and> quota_time h = 6000 # replicate 7 0 \<and> request_start h = \<lparr>tv_sec = 0, tv_nsec = 0\<rparr>"
proof -
  have s: "set_window_predictor 0 (new_Predictor ''window'' 0) booted_lib = booted_lib"
    by (simp add: set_window_predictor_def booted_sel)
  have "length (resolve_name (op_env answering_ops) (hook_comm booted_lib)) \<le> 47"
    by (simp add: booted_sel answering_ops_def resolve_name_def comm_init_def)
  then obtain h where g: "get_token_from_scheduler answering_ops 0 0 booted_lib 0 = Inr (6000, h, 0)"
    using answering_token [OF booted_sel(8)] by blast
  note r = get_token_result [OF g]
  have "op_clock answering_ops 0 = 0" by (simp add: answering_ops_def)
  then show ?thesis
    using r g by (simp add: launch_token_def booted_sel predict_new s same_quota_def predictor_ok_def clock_gettime_def numeral_eq_Suc)
qed

text \<open>The burst of the first launch, ended at once and looked at seven seconds later.\<close>

definition old_burst :: Predictor where
  "old_burst = record_stop 0 (record_start 0 (set_upperbound 5999 (new_Predictor ''burst'' 2)))"

lemma old_burst_forgotten: "\<not> ongoing_unmerged old_burst" "fst (predict_unmerged 7000000000 old_burst) = 0"
  by (simp_all add: old_burst_def record_stop_def record_start_def new_Predictor_def set_upperbound_def ongoing_unmerged_def ongoing_merged_def
      Let_def TP_MAX_def TP_MIN_def predict_unmerged_def rk_add_def new_RecordKeeper_def rk_drop_outdated_def rk_get_max_def pop_back_less.simps
      to_milliseconds_def tp_diff_def wrap64_def sdiv_nonneg PREDICT_MAX_KEEP_def ms_of_def to_microseconds_def)

lemma second_gate:
  assumes "predictor_ok h 0" and "burst_predictor h ! 0 = old_burst" and "quota_time h ! 0 = 6000"
    and "request_start h = \<lparr>tv_sec = 0, tv_nsec = 0\<rparr>"
  shows "\<exists>nb h'. launch_gate 0 7000000000 h = Inr (Some nb, h') \<and> overuse_trk_cmpl h' = overuse_trk_cmpl h"
proof -
  obtain res h' where g: "launch_gate 0 7000000000 h = Inr (res, h')" "same_quota h h'"
    and r: "res = None \<longleftrightarrow> ongoing_unmerged old_burst
      \<or> real_of_int (us_since (request_start h) 7000000000) / 1000 + fst (predict_unmerged 7000000000 old_burst) < 6000"
    using launch_gate_result [OF assms(1), of 7000000000] assms(2,3) by auto
  have "us_since (request_start h) 7000000000 = 7000000" by (simp add: assms(4) us_since_def clock_gettime_def)
  then have "res \<noteq> None" using r old_burst_forgotten by simp
  then show ?thesis using g by (auto simp: same_quota_def)
qed

definition booted :: "timepoint track_state" where
  "booted = \<lparr>ls_lib = booted_lib, ls_world = 0, launcher = LIdle, tracker = TTop, start_sig = False, intr_sig = False, cmpl_sig = False\<rparr>"

lemma booted_init: "track_init booted"
  by (simp add: track_init_def booted_def booted_sel max_gpu_num_def)

text \<open>The first launch, during which the tracking thread has not reached its wait.\<close>

lemma first_launch_steps:
  assumes "launch_token answering_ops 0 0 booted_lib 0 = Inr (h, 0)"
  shows "(regular_step answering_ops 0)\<^sup>*\<^sup>* booted (booted\<lparr>ls_lib := launch_begin 0 0 (h\<lparr>overuse_trk_cmpl := False\<rparr>)\<rparr>)"
proof -
  let ?R = "regular_step answering_ops 0" and ?h = "h\<lparr>overuse_trk_cmpl := False\<rparr>"
  note simps = launcher_step_def booted_def answering_ops_def [THEN arg_cong, of op_clock]
  have "?R booted (booted\<lparr>launcher := LLock 0\<rparr>)"
    by (rule regular_launch) (simp add: simps first_gate)
  moreover have "?R (booted\<lparr>launcher := LLock 0\<rparr>) (booted\<lparr>launcher := LToken 0\<rparr>)"
    by (rule regular_launch) (simp add: simps booted_sel)
  moreover have "?R (booted\<lparr>launcher := LToken 0\<rparr>) (booted\<lparr>ls_lib := h, launcher := LSignal\<rparr>)"
    by (rule regular_launch) (simp add: simps assms)
  moreover have "?R (booted\<lparr>ls_lib := h, launcher := LSignal\<rparr>) (booted\<lparr>ls_lib := ?h, launcher := LStart\<rparr>)"
    by (rule regular_launch) (simp add: simps)
  moreover have "?R (booted\<lparr>ls_lib := ?h, launcher := LStart\<rparr>) (booted\<lparr>ls_lib := launch_begin 0 0 ?h\<rparr>)"
    by (rule regular_launch) (simp add: simps)
  ultimately show ?thesis by (meson converse_rtranclp_into_rtranclp rtranclp.rtrancl_refl)
qed

text \<open>Then the application synchronises, the tracking thread starts to wait, and seven seconds pass.\<close>

lemma first_launch:
  "\<exists>h. (regular_step answering_ops 0)\<^sup>*\<^sup>* booted (booted\<lparr>ls_lib := h, tracker := TWaitStart, ls_world := 7000000000\<rparr>)
    \<and> predictor_ok h 0 \<and> burst_predictor h ! 0 = old_burst \<and> quota_time h ! 0 = 6000 \<and> \<not> overuse_trk_cmpl h
    \<and> request_start h = \<lparr>tv_sec = 0, tv_nsec = 0\<rparr>"
proof -
  let ?R = "regular_step answering_ops 0"
  have clk: "op_clock answering_ops x = x" "get_current_device_id answering_ops x = Inr 0" for x
    by (simp_all add: answering_ops_def get_current_device_id_def)
  obtain h1 where h1: "launch_token answering_ops 0 0 booted_lib 0 = Inr (h1, 0)"
      "burst_predictor h1 = [set_upperbound 5999 (new_Predictor ''burst'' 2), new_Predictor ''burst'' 2]" "predictor_ok h1 0"
      "quota_time h1 = 6000 # replicate 7 0" "request_start h1 = \<lparr>tv_sec = 0, tv_nsec = 0\<rparr>"
    using first_token by blast
  define h2 where "h2 = launch_begin 0 0 (h1\<lparr>overuse_trk_cmpl := False\<rparr>)"
  have h2: "predictor_ok h2 0" "burst_predictor h2 ! 0 = record_start 0 (set_upperbound 5999 (new_Predictor ''burst'' 2))"
      "quota_time h2 = quota_time h1" "\<not> overuse_trk_cmpl h2" "request_start h2 = request_start h1"
    using h1 by (simp_all add: h2_def launch_begin_def predictor_ok_def)
  obtain h3 where h3: "host_sync_call answering_ops h2 0 = Inr h3" "burst_predictor h3 ! 0 = old_burst"
    using h2(1,2) by (simp add: host_sync_call_def clk Let_def predictor_ok_def old_burst_def)
  have "?R\<^sup>*\<^sup>* booted (booted\<lparr>ls_lib := h2\<rparr>)" unfolding h2_def by (rule first_launch_steps [OF h1(1)])
  moreover have "?R (booted\<lparr>ls_lib := h2\<rparr>) (booted\<lparr>ls_lib := h3\<rparr>)"
    using regular_sync [of answering_ops "booted\<lparr>ls_lib := h2\<rparr>" h3 0] h3(1) by (simp add: booted_def)
  moreover have "?R (booted\<lparr>ls_lib := h3\<rparr>) (booted\<lparr>ls_lib := h3, tracker := TWaitStart\<rparr>)"
    by (rule regular_thread [where e = 0]) (simp add: tracker_step_def booted_def)
  moreover have "?R (booted\<lparr>ls_lib := h3, tracker := TWaitStart\<rparr>) (booted\<lparr>ls_lib := h3, tracker := TWaitStart, ls_world := 7000000000\<rparr>)"
    using regular_time [of answering_ops "booted\<lparr>ls_lib := h3, tracker := TWaitStart\<rparr>" 7000000000 0] by (simp add: clk booted_def)
  ultimately have "?R\<^sup>*\<^sup>* booted (booted\<lparr>ls_lib := h3, tracker := TWaitStart, ls_world := 7000000000\<rparr>)"
    by (meson rtranclp.rtrancl_into_rtrancl)
  then show ?thesis using h1(4,5) h2 h3(2) host_sync_result [OF h3(1)] by (auto simp: same_quota_def predictor_ok_def)
qed

lemma second_launch_stuck: "\<exists>s. (regular_step answering_ops 0)\<^sup>*\<^sup>* booted s \<and> stuck s"
proof -
  let ?R = "regular_step answering_ops 0"
  obtain h where h: "?R\<^sup>*\<^sup>* booted (booted\<lparr>ls_lib := h, tracker := TWaitStart, ls_world := 7000000000\<rparr>)"
      "predictor_ok h 0" "burst_predictor h ! 0 = old_burst" "quota_time h ! 0 = 6000" "\<not> overuse_trk_cmpl h"
      "request_start h = \<lparr>tv_sec = 0, tv_nsec = 0\<rparr>"
    using first_launch by blast
  let ?s = "booted\<lparr>ls_lib := h, tracker := TWaitStart, ls_world := 7000000000\<rparr>"
  obtain nb h' where g: "launch_gate 0 7000000000 h = Inr (Some nb, h')" "\<not> overuse_trk_cmpl h'"
    using second_gate [OF h(2-4,6)] h(5) by auto
  have "?R ?s (?s\<lparr>ls_lib := h', launcher := LLock nb\<rparr>)"
    by (rule regular_launch) (simp add: launcher_step_def booted_def g, simp add: answering_ops_def g)
  moreover have "?R (?s\<lparr>ls_lib := h', launcher := LLock nb\<rparr>) (?s\<lparr>ls_lib := h', launcher := LWaitCmpl nb\<rparr>)"
    by (rule regular_launch) (simp add: launcher_step_def booted_def g waiting_tracker_def)
  ultimately have "?R\<^sup>*\<^sup>* booted (?s\<lparr>ls_lib := h', launcher := LWaitCmpl nb\<rparr>)"
    using h(1) by (meson rtranclp.rtrancl_into_rtrancl)
  then show ?thesis by (intro exI conjI) (auto simp: stuck_def waiting_launcher_def booted_def)
qed

lemma regular_reach: "(regular_step ops device)\<^sup>*\<^sup>* s t \<Longrightarrow> reach init (regular_step ops device) s \<Longrightarrow> reach init (regular_step ops device) t"
  by (induction rule: rtranclp_induct) (auto intro: reach_step)

section \<open>Properties\<close>

text \<open>C9. Admission of a kernel launch: when the prehook of \<^verbatim>\<open>cuLaunchKernel\<close> returns, a burst is ongoing.
  The launch was admitted without a token exactly when a burst was already ongoing or the time since the
  last token plus the predicted burst stays below the quota, and then quota and token time are as
  before; otherwise a new token with its time stamp is in place and overuse tracking has been armed.\<close>

theorem launch_admission:
  assumes "cuLaunchKernel_prehook ops wait h w = Inr (r, h', w')" and "op_device ops w = (CUDA_SUCCESS, device)"
    and "\<And>s. quota_time (fst (wait s)) = quota_time (fst s) \<and> length (burst_predictor (fst (wait s))) = length (burst_predictor (fst s))"
    and "op_clock ops w \<noteq> TP_MAX" and "op_clock ops w' \<noteq> TP_MAX"
  shows "r = CUDA_SUCCESS \<and> ongoing_unmerged (burst_predictor h' ! nat device)
    \<and> (if ongoing_unmerged (burst_predictor h ! nat device)
          \<or> real_of_int (us_since (request_start h) (op_clock ops w)) / 1000
              + fst (predict_unmerged (op_clock ops w) (burst_predictor h ! nat device)) < quota_time h ! nat device
       then same_quota h h' \<and> w' = w
       else quota_time h' = (quota_time h)[nat device := 6000] \<and> request_start h' = clock_gettime (op_clock ops w')
         \<and> \<not> overuse_trk_cmpl h')"
proof -
  have dev: "get_current_device_id ops w = Inr device" using assms(2) by (simp add: get_current_device_id_def)
  have ok: "predictor_ok h device" using assms(1) dev by (auto simp: cuLaunchKernel_prehook_def launch_gate_def split: if_splits)
  obtain res h1 where g: "launch_gate device (op_clock ops w) h = Inr (res, h1)" "same_quota h h1"
    and res: "res = None \<longleftrightarrow> ongoing_unmerged (burst_predictor h ! nat device)
      \<or> real_of_int (us_since (request_start h) (op_clock ops w)) / 1000
          + fst (predict_unmerged (op_clock ops w) (burst_predictor h ! nat device)) < quota_time h ! nat device"
    using launch_gate_result [OF ok, of "op_clock ops w"] by blast
  have len: "nat device < length (burst_predictor h)" using ok by (auto simp: predictor_ok_def)
  show ?thesis
  proof (cases res)
    case None
    then have "h' = launch_begin device (op_clock ops w) h1" "w' = w" "r = CUDA_SUCCESS"
      using assms(1) dev g(1) by (auto simp: cuLaunchKernel_prehook_def)
    then show ?thesis
      using None res g(2) len assms(4) launch_begin_ongoing [of device h1] launch_begin_sel [of h1 device "op_clock ops w"]
      by (auto simp: same_quota_def)
  next
    case (Some nb)
    define s where "s = (if overuse_trk_cmpl h1 then (h1, w) else wait (h1, w))"
    have s: "quota_time (fst s) = quota_time h1" "length (burst_predictor (fst s)) = length (burst_predictor h1)"
      using assms(3) [of "(h1, w)"] by (simp_all add: s_def)
    obtain h2 where t: "launch_token ops device nb (fst s) (snd s) = Inr (h2, w')"
      and h': "h' = launch_begin device (op_clock ops w') (h2\<lparr>overuse_trk_cmpl := False\<rparr>)" "r = CUDA_SUCCESS"
      using assms(1) dev g(1) Some
      by (cases "overuse_trk_cmpl h1") (auto simp: cuLaunchKernel_prehook_def s_def case_prod_unfold Let_def split: sum.splits)
    show ?thesis
      using Some res h' launch_token_result [OF t] g(2) s len assms(5)
        launch_begin_ongoing [of device "h2\<lparr>overuse_trk_cmpl := False\<rparr>" "op_clock ops w'"]
        launch_begin_sel [of "h2\<lparr>overuse_trk_cmpl := False\<rparr>" device "op_clock ops w'"]
      by (auto simp: same_quota_def)
  qed
qed

theorem launch_admission_witness:
  "\<exists>h'. cuLaunchKernel_prehook answering_ops (\<lambda>s. s) booted_lib 0 = Inr (CUDA_SUCCESS, h', 0)
     \<and> ongoing_unmerged (burst_predictor h' ! 0) \<and> quota_time h' ! 0 = 6000"
proof -
  obtain h where h: "launch_token answering_ops 0 0 booted_lib 0 = Inr (h, 0)" using first_token by blast
  have clk: "op_clock answering_ops 0 = 0" "op_device answering_ops 0 = (CUDA_SUCCESS, 0)" by (simp_all add: answering_ops_def)
  then have "cuLaunchKernel_prehook answering_ops (\<lambda>s. s) booted_lib 0 =
      Inr (CUDA_SUCCESS, launch_begin 0 0 (h\<lparr>overuse_trk_cmpl := False\<rparr>), 0)"
    by (simp add: cuLaunchKernel_prehook_def get_current_device_id_def first_gate booted_sel h)
  from launch_admission [OF this clk(2)] this show ?thesis
    by (simp add: clk same_quota_def TP_MAX_def booted_sel us_since_def clock_gettime_def predict_new)
       (simp add: ongoing_unmerged_def new_Predictor_def booted_sel)
qed

text \<open>On a fresh library \<^verbatim>\<open>initialize\<close> exits, faults or leaves a state in which every hook is in its place, every quota is zero and
  tracking counts as complete, and which is an initial state of the two threads. Its loop over the ports ends. The token requests
  are made without a time limit (\<^verbatim>\<open>src/src/hook.cpp:306\<close>), so the process can wait for ever in \<^verbatim>\<open>recv\<close>;
  the model's \<open>op_recv\<close> always returns, and nothing is said here about that wait.\<close>

lemma initialize_establishes:
  "initialize ops ip port (new_hookInfo dbg) new_launch_lib w \<noteq> None
   \<and> (\<forall>hi h w'. initialize ops ip port (new_hookInfo dbg) new_launch_lib w = Some (Inr (hi, h, w')) \<longrightarrow>
        placed hi \<and> quota_time h = replicate 8 0
        \<and> track_init \<lparr>ls_lib = h, ls_world = w', launcher = LIdle, tracker = TTop, start_sig = False, intr_sig = False, cmpl_sig = False\<rparr>)"
proof (intro conjI allI impI)
  let ?h = "new_launch_lib\<lparr>quota_time := replicate (nat max_gpu_num) 0\<rparr>"
  note conf = configure_connection_result [of ip port ?h]
  show "initialize ops ip port (new_hookInfo dbg) new_launch_lib w \<noteq> None"
    using conf(1) by (auto simp: initialize_def Let_def split: option.splits sum.splits)
  fix hi h w'
  assume "initialize ops ip port (new_hookInfo dbg) new_launch_lib w = Some (Inr (hi, h, w'))"
  then obtain h1 where c: "configure_connection ip port ?h = Some (Inr h1)"
    and r: "request_tokens ops [0..current_gpu_num h1 - 1] (h1\<lparr>overuse_trk_cmpl := True\<rparr>) w = Inr (h, w')"
    and hi: "hi = place_hooks (new_hookInfo dbg)"
    by (auto simp: initialize_def Let_def split: option.splits sum.splits if_splits)
  have new: "overuse new_launch_lib = replicate (nat max_gpu_num) 0" by (simp add: new_launch_lib_def hook_lib.defs)
  have q: "quota_time h = replicate 8 0" "overuse h = replicate 8 0" "overuse_trk_cmpl h"
    using conf(2) [OF c] request_tokens_result [OF r] new by (auto simp: same_quota_def max_gpu_num_def)
  show "placed hi" by (simp add: hi placed_place_hooks)
  show "quota_time h = replicate 8 0" by (rule q(1))
  show "track_init \<lparr>ls_lib = h, ls_world = w', launcher = LIdle, tracker = TTop, start_sig = False, intr_sig = False, cmpl_sig = False\<rparr>"
    using q by (simp add: track_init_def max_gpu_num_def)
qed

text \<open>The tracking thread's deadline is that of the scheduler's \<^verbatim>\<open>get_timespec_after\<close> for the quota: the
  two computations, one in nanoseconds and one in seconds, give the same normalised time, exactly the
  quota (a negative one counts as zero) after the current time, rounded down to nanoseconds.\<close>

lemma tracker_deadline_equiv:
  "token_expiration q now = get_timespec_after (max q 0) now
   \<and> ts_ns (token_expiration q now) = now + \<lfloor>max q 0 * 1000000\<rfloor>
   \<and> 0 \<le> tv_nsec (token_expiration q now) \<and> tv_nsec (token_expiration q now) < 1000000000"
  using get_timespec_after_ns [of "max q 0" now] by (simp add: token_expiration_after)

text \<open>\<^verbatim>\<open>us_since\<close> is accurate to less than one microsecond, also when the nanosecond part of the starting
  time is larger than that of the current time and the division truncates towards zero.\<close>

lemma us_since_accurate:
  "\<bar>us_since begin_ts now * 1000 - (now - ts_ns begin_ts)\<bar> < 1000"
proof -
  let ?n = "tv_nsec (clock_gettime now) - tv_nsec begin_ts"
  have "now = tv_sec (clock_gettime now) * 1000000000 + tv_nsec (clock_gettime now)" using ts_ns_clock [of now] by (simp add: ts_ns_def)
  then have "us_since begin_ts now * 1000 - (now - ts_ns begin_ts) = (?n sdiv 1000) * 1000 - ?n"
    by (simp add: us_since_def Let_def ts_ns_def algebra_simps)
  then show ?thesis using sdiv_near [of 1000 ?n] by simp
qed

text \<open>C36. The token request does not say what it means: read as C++ defines it, it is undefined for every
  burst, because a pointer is passed where a double is read; on the System V ABI the burst is sent in the
  place of the overuse and an unrelated register in the place of the burst. A quota that is returned is
  6000 whatever the scheduler answered, and the measured overuse never enters.\<close>

theorem token_request_ill_typed:
  "(va_read ops = (\<lambda>args. args) \<longrightarrow> get_token_from_scheduler ops next_burst device h w = Inl Undefined)
   \<and> (va_read ops = sysv_read x \<longrightarrow> c_safe (resolve_name (op_env ops) (hook_comm h)) \<longrightarrow> length (resolve_name (op_env ops) (hook_comm h)) \<le> 47 \<longrightarrow>
       (\<exists>msg st att. prepare_request (op_env ops) (hook_comm h) (replicate REQ_MSG_LEN 0) REQ_QUOTA
            (va_read ops [APointer (overuse_address ops), ADouble (bits_of_double next_burst)]) = Some (next_id (hook_comm h), st, msg)
          \<and> carries msg (resolve_name (op_env ops) (hook_comm h)) (next_id (hook_comm h)) REQ_QUOTA att
          \<and> get_msg_data 8 word64 att 0 = Some (bits_of_double next_burst, 8) \<and> get_msg_data 8 word64 att 8 = Some (x, 16)))
   \<and> (\<forall>q h' w'. get_token_from_scheduler ops next_burst device h w = Inr (q, h', w') \<longrightarrow> q = 6000)"
proof (intro conjI impI allI)
  show "get_token_from_scheduler ops next_burst device h w = Inl Undefined" if "va_read ops = (\<lambda>args. args)"
  proof -
    have "prepare_request env st (replicate REQ_MSG_LEN 0) REQ_QUOTA (APointer a # vl) \<noteq> Some p" for env st a vl p
      by (auto simp: prepare_request_def append_request_extra_def Let_def bind_eq_Some_conv case_prod_unfold)
    then have "prepare_request env st (replicate REQ_MSG_LEN 0) REQ_QUOTA (APointer a # vl) = None" for env st a vl
      by (metis option.exhaust)
    then show ?thesis by (simp add: get_token_from_scheduler_def that)
  qed
  show "q = 6000" if "get_token_from_scheduler ops next_burst device h w = Inr (q, h', w')" for q h' w'
    using get_token_result [OF that] by simp
  assume v: "va_read ops = sysv_read x" and n: "c_safe (resolve_name (op_env ops) (hook_comm h))" "length (resolve_name (op_env ops) (hook_comm h)) \<le> 47"
  let ?n = "resolve_name (op_env ops) (hook_comm h)" and ?b = "bits_of_double next_burst"
  let ?r = "drop (17 + length ?n + 16) (replicate REQ_MSG_LEN (0 :: byte))"
  obtain msg st where "prepare_request (op_env ops) (hook_comm h) (replicate REQ_MSG_LEN 0) REQ_QUOTA
        (sysv_read x [APointer (overuse_address ops), ADouble ?b]) = Some (next_id (hook_comm h), st, msg)"
      "carries msg ?n (next_id (hook_comm h)) REQ_QUOTA (bytes64 ?b @ bytes64 x @ ?r)"
    using prepare_request_carries [of "replicate REQ_MSG_LEN 0" REQ_QUOTA "sysv_read x [APointer (overuse_address ops), ADouble ?b]"
        "bytes64 ?b @ bytes64 x" "op_env ops" "hook_comm h"] n by (auto simp: REQ_MSG_LEN_def sysv_read_def)
  then show "\<exists>msg st att. prepare_request (op_env ops) (hook_comm h) (replicate REQ_MSG_LEN 0) REQ_QUOTA
        (va_read ops [APointer (overuse_address ops), ADouble ?b]) = Some (next_id (hook_comm h), st, msg)
      \<and> carries msg ?n (next_id (hook_comm h)) REQ_QUOTA att
      \<and> get_msg_data 8 word64 att 0 = Some (?b, 8) \<and> get_msg_data 8 word64 att 8 = Some (x, 16)"
    using get_two_64 [of ?b x ?r] by (auto simp: v REQ_MSG_LEN_def)
qed

theorem token_request_ill_typed_witness:
  "\<exists>msg st att. prepare_request (op_env answering_ops) comm_init (replicate REQ_MSG_LEN 0) REQ_QUOTA
        (va_read answering_ops [APointer (overuse_address answering_ops), ADouble (bits_of_double 5)]) = Some (0, st, msg)
      \<and> carries msg ''pod1'' 0 REQ_QUOTA att
      \<and> get_msg_data 8 word64 att 0 = Some (bits_of_double 5, 8) \<and> get_msg_data 8 word64 att 8 = Some (0, 16)"
proof -
  have "va_read answering_ops = sysv_read 0" by (simp add: answering_ops_def)
  moreover have "resolve_name (op_env answering_ops) (hook_comm booted_lib) = ''pod1''" "next_id (hook_comm booted_lib) = 0"
    by (simp_all add: booted_sel answering_ops_def resolve_name_def comm_init_def)
  ultimately show ?thesis
    using token_request_ill_typed [of answering_ops 5 0 booted_lib 0 0] by (simp add: c_safe_def booted_sel)
qed

text \<open>C24. A completion is never lost: in every reachable state of the two threads, a launching thread that
  waits for the completion of overuse tracking without having been signalled finds tracking incomplete;
  signals are only pending for a thread that waits; and the measured overuse of every device is not
  negative.\<close>

theorem completion_not_lost:
  assumes "reach track_init (\<lambda>s t. \<exists>mv. track_step ops device mv s t) s"
  shows "(waiting_launcher (launcher s) \<and> \<not> cmpl_sig s \<longrightarrow> \<not> overuse_trk_cmpl (ls_lib s))
    \<and> (cmpl_sig s \<longrightarrow> waiting_launcher (launcher s)) \<and> (start_sig s \<longrightarrow> tracker s = TWaitStart)
    \<and> (\<forall>x\<in>set (overuse (ls_lib s)). 0 \<le> x)"
  using track.reach_inv [OF assms] by (simp add: track_inv_def)

theorem completion_not_lost_witness:
  "\<exists>s. reach track_init (\<lambda>s t. \<exists>mv. track_step answering_ops 0 mv s t) s \<and> waiting_launcher (launcher s) \<and> \<not> overuse_trk_cmpl (ls_lib s)"
proof -
  obtain s where s: "(regular_step answering_ops 0)\<^sup>*\<^sup>* booted s" "stuck s" using second_launch_stuck by blast
  from s(1) have "reach track_init (\<lambda>s t. \<exists>mv. track_step answering_ops 0 mv s t) s"
    by (induction rule: rtranclp_induct) (auto simp: regular_step_def booted_init intro: reach_init reach_step)
  then show ?thesis using completion_not_lost s(2) unfolding stuck_def by blast
qed

text \<open>C25. A start can be lost: a kernel launch that signals the tracking thread before that thread waits
  leaves a state from which, after the quota has run out, the next launch and the tracking thread wait for
  each other for ever: whatever happens, spurious wake-ups excepted, the launching thread stays where it
  is, holding the mutex every other launch needs.\<close>

theorem start_can_be_lost:
  "\<exists>s. reach track_init (regular_step answering_ops 0) s \<and> (\<exists>nb. launcher s = LWaitCmpl nb)
     \<and> (\<forall>t. (regular_step answering_ops 0)\<^sup>*\<^sup>* s t \<longrightarrow> launcher t = launcher s \<and> tracker t = TWaitStart)"
proof -
  obtain s where s: "(regular_step answering_ops 0)\<^sup>*\<^sup>* booted s" "stuck s" using second_launch_stuck by blast
  have "reach track_init (regular_step answering_ops 0) s"
    using s(1) booted_init by (blast intro: regular_reach reach_init)
  moreover have "\<exists>nb. launcher s = LWaitCmpl nb" using s(2) by (auto simp: stuck_def waiting_launcher_def split: launcher_pc.splits)
  ultimately show ?thesis using stuck_forever [OF _ s(2)] unfolding stuck_def by blast
qed

theorem start_can_be_lost_witness:
  "\<exists>s nb. reach track_init (regular_step answering_ops 0) s \<and> launcher s = LWaitCmpl nb \<and> tracker s = TWaitStart"
  using start_can_be_lost by blast

end
