(* ===== verification/Gem_Boot.thy ===== *)
theory Gem_Boot
  imports Gem_HookConn Gem_Sched Gem_Pod
begin

text \<open>
  How the two server processes start and how the scheduler follows its configuration file:
  the option switch and the start of \<^verbatim>\<open>main\<close> in \<^verbatim>\<open>src/src/scheduler.cpp\<close>, the event buffer of
  \<^verbatim>\<open>monitor_file\<close> there, and the start of \<^verbatim>\<open>main\<close> in \<^verbatim>\<open>src/src/pod-manager.cpp\<close>.

  \<open>Halt n\<close> is the end of the process with that exit code, \<open>Fault\<close> undefined behaviour. \<^verbatim>\<open>getopt_long\<close>
  is represented by the list of options it delivers, each a letter and its argument; \<^verbatim>\<open>atof\<close> reads
  decimal numbers only.
\<close>

datatype boot_error = Halt int | Fault | BadConfig config_error

section \<open>Scheduler: options\<close>

record sched_settings =
  schd_port :: "16 word"
  settings_cfg :: sched_config
  limit_file_name :: string
  limit_file_dir :: string
  verbosity :: int

definition default_settings :: sched_settings where
  "default_settings = \<lparr>schd_port = 50051, settings_cfg = default_config, limit_file_name = ''resource-config.txt'',
     limit_file_dir = ''.'', verbosity = 0\<rparr>"

definition strtoul :: "string \<Rightarrow> 64 word" where
  "strtoul s = (let (neg, ds, r) = scan_int (dropWhile is_space s); n = digits_value ds
     in if n \<ge> 2 ^ 64 then - 1 else if neg then - word_of_nat n else word_of_nat n)"

text \<open>The longest prefix that is a decimal number; an exponent letter without digits is not part of it.\<close>

definition atof :: "string \<Rightarrow> double" where
  "atof s =
     (let (neg, r) = read_sign (dropWhile is_space s);
          whole = takeWhile is_digit r; r = dropWhile is_digit r;
          (frac, r) = (case r of c # r' \<Rightarrow> if c = CHR ''.'' then (takeWhile is_digit r', dropWhile is_digit r') else ([], r)
                         | [] \<Rightarrow> ([], r));
          ex = (case r of
                  c # r' \<Rightarrow> if c = CHR ''e'' \<or> c = CHR ''E''
                     then (let (eneg, ds, r'') = scan_int r' in if eneg then - int (digits_value ds) else int (digits_value ds)) else 0
                | [] \<Rightarrow> 0);
          mantissa = real (digits_value (whole @ frac)) / 10 ^ length frac
      in if whole @ frac = [] then 0 else (if neg then - mantissa else mantissa) * 10 powi ex)"

text \<open>\<^verbatim>\<open>strncpy\<close> of \<^verbatim>\<open>PATH_MAX - 1\<close> characters into a zero-terminated array of \<^verbatim>\<open>PATH_MAX\<close>.\<close>

definition apply_option :: "char \<times> string \<Rightarrow> sched_settings \<Rightarrow> boot_error + sched_settings" where
  "apply_option opt s =
     (let (c, optarg) = opt in
      if c = CHR ''P'' then Inr (s\<lparr>schd_port := ucast (strtoul optarg)\<rparr>)
      else if c = CHR ''q'' then Inr (s\<lparr>settings_cfg := (settings_cfg s)\<lparr>cfg_QUOTA := atof optarg\<rparr>\<rparr>)
      else if c = CHR ''m'' then Inr (s\<lparr>settings_cfg := (settings_cfg s)\<lparr>cfg_MIN_QUOTA := atof optarg\<rparr>\<rparr>)
      else if c = CHR ''w'' then Inr (s\<lparr>settings_cfg := (settings_cfg s)\<lparr>cfg_WINDOW_SIZE := atof optarg\<rparr>\<rparr>)
      else if c = CHR ''f'' then Inr (s\<lparr>limit_file_name := take (PATH_MAX - 1) optarg\<rparr>)
      else if c = CHR ''p'' then Inr (s\<lparr>limit_file_dir := take (PATH_MAX - 1) optarg\<rparr>)
      else if c = CHR ''v'' then (case atoi optarg of None \<Rightarrow> Inl Fault | Some v \<Rightarrow> Inr (s\<lparr>verbosity := v\<rparr>))
      else if c = CHR ''h'' then Inl (Halt 0)
      else Inr s)"

fun apply_options :: "(char \<times> string) list \<Rightarrow> sched_settings \<Rightarrow> boot_error + sched_settings" where
  "apply_options [] s = Inr s"
| "apply_options (opt # opts) s = (case apply_option opt s of Inl e \<Rightarrow> Inl e | Inr s \<Rightarrow> apply_options opts s)"

text \<open>The rest of \<^verbatim>\<open>main\<close> up to the accept loop; \<open>sockfd\<close> is what \<^verbatim>\<open>socket\<close> returns, \<open>bind_rc\<close> what \<^verbatim>\<open>bind\<close>
  returns for a port, and \<open>thread_rc\<close> what \<^verbatim>\<open>pthread_create\<close> returns. The result has the settings in
  force beside the state: the port the process listens on, and the file the monitor thread watches.\<close>

definition schd_main ::
  "(string \<rightharpoonup> string) \<Rightarrow> (char \<times> string) list \<Rightarrow> int \<Rightarrow> (16 word \<Rightarrow> int) \<Rightarrow> int \<Rightarrow> timepoint
    \<Rightarrow> boot_error + sched_settings \<times> sched_state" where
  "schd_main files opts sockfd bind_rc thread_rc now =
     (case apply_options opts default_settings of
        Inl e \<Rightarrow> Inl e
      | Inr st \<Rightarrow>
          (case read_resource_config files (limit_file_dir st) (limit_file_name st) (settings_cfg st) Map.empty of
             Inl e \<Rightarrow> Inl (BadConfig e)
           | Inr clients \<Rightarrow>
               if sockfd = -1 then Inl (Halt (-1))
               else if bind_rc (schd_port st) < 0 then Inl (Halt (-1))
               else if thread_rc \<noteq> 0 then Inl (Halt thread_rc)
               else Inr (st, \<lparr>s_cfg = settings_cfg st, s_start = now, s_clock = now, client_info_map = clients, history_list = [],
                         candidates = [], daemon = DTop, signalled = False, conns = (\<lambda>_. NoConn), sent = [],
                         crashed = None, s_log = []\<rparr>)))"

section \<open>Scheduler: the event buffer\<close>

definition EVENT_SIZE :: nat where "EVENT_SIZE = 16"
definition BUF_LEN :: nat where "BUF_LEN = 1024 * (EVENT_SIZE + 16)"

datatype monitor_error = EventOverflow | MonitorConfig config_error

text \<open>The event at an offset of the buffer: watch descriptor, mask, cookie, length, name. The name is only
  read where the code reads it.\<close>

definition event_at :: "byte list \<Rightarrow> int \<Rightarrow> inotify_event option" where
  "event_at buf i =
     (if 0 \<le> i \<and> nat i + EVENT_SIZE \<le> length buf
      then let mask = word32 (take 4 (drop (nat i + 4) buf)); len = word32 (take 4 (drop (nat i + 12) buf))
           in map_option (\<lambda>nm. \<lparr>ev_mask = mask, ev_len = len, ev_name = nm\<rparr>)
                (if len \<noteq> 0 \<and> and mask IN_CLOSE_WRITE \<noteq> 0 then c_string buf (word_of_nat (nat i + EVENT_SIZE)) else Some [])
      else None)"

definition next_event :: "int \<Rightarrow> 32 word \<Rightarrow> int" where
  "next_event i len = sint (word_of_int (i + int EVENT_SIZE + uint len) :: int32)"

partial_function (option) event_loop ::
  "(string \<rightharpoonup> string) \<Rightarrow> string \<Rightarrow> string \<Rightarrow> sched_config \<Rightarrow> byte list \<Rightarrow> int \<Rightarrow> int \<Rightarrow> (string \<rightharpoonup> ClientInfo)
    \<Rightarrow> (monitor_error + (string \<rightharpoonup> ClientInfo)) option" where
  "event_loop files path filename cfg buf len i clients =
     (if \<not> i < len then Some (Inr clients)
      else case event_at buf i of
        None \<Rightarrow> Some (Inl EventOverflow)
      | Some ev \<Rightarrow>
          (case handle_events files path filename cfg [ev] clients of
             Inl e \<Rightarrow> Some (Inl (MonitorConfig e))
           | Inr clients \<Rightarrow> event_loop files path filename cfg buf len (next_event i (ev_len ev)) clients))"

section \<open>Pod manager: start\<close>

record pod_environment =
  ev_pod_name :: "string option"
  ev_hostname :: string
  ev_manager_port :: "string option"
  ev_scheduler_ip :: "string option"
  ev_scheduler_port :: "string option"

record 'n net_ops =
  nt_socket :: "'n \<Rightarrow> int \<times> int \<times> 'n"
  nt_connect :: "int \<Rightarrow> string \<Rightarrow> 16 word \<Rightarrow> 'n \<Rightarrow> int \<times> int \<times> 'n"
  nt_exchange :: "int \<Rightarrow> byte list \<Rightarrow> byte list \<times> 'n \<Rightarrow> int \<times> int \<times> byte list \<times> 'n"
  nt_bind :: "int \<Rightarrow> 16 word \<Rightarrow> 'n \<Rightarrow> int \<times> int \<times> 'n"
  nt_sleep :: "'n \<Rightarrow> 'n"
  nt_clock :: "'n \<Rightarrow> timepoint"
  nt_stack :: "byte list"

text \<open>A port from the environment, or the one given.\<close>

definition env_port :: "string option \<Rightarrow> 16 word \<Rightarrow> (16 word) option" where
  "env_port s port = (case s of None \<Rightarrow> Some port | Some a \<Rightarrow> map_option word_of_int (atoi a))"

definition pod_env_of :: "pod_environment \<Rightarrow> comm_env" where
  "pod_env_of ev = \<lparr>env_pod_name = ev_pod_name ev, env_hostname = ev_hostname ev\<rparr>"

definition started_pod :: "pod_environment \<Rightarrow> comm_state \<Rightarrow> pod_mem \<Rightarrow> timepoint \<Rightarrow> pod_state" where
  "started_pod ev st account now = \<lparr>pod_env = pod_env_of ev, pod_comm = st, pod_clock = now, pod_account = account,
     request_queue = [], response_map = Map.empty, pod_overuse_ms = 0, client_burst_map = [], pod_quota = 0,
     quota_updated_tp = now, quota_state = 0, sender = SLoop, sender_signalled = False, hooks = (\<lambda>_. HNone),
     quota_signalled = {}, rsp_signalled = {}, to_scheduler = [], to_hooks = [], issued = 0\<rparr>"

text \<open>From the sockets to the accept loop.\<close>

definition pod_listen :: "'n net_ops \<Rightarrow> pod_environment \<Rightarrow> 16 word \<Rightarrow> comm_state \<Rightarrow> pod_mem \<Rightarrow> 'n \<Rightarrow> boot_error + pod_state \<times> 'n" where
  "pod_listen ops ev port st account net =
     (let now = nt_clock ops net; (accept_sockfd, errno, net) = nt_socket ops net in
      if accept_sockfd = -1 then Inl (Halt (-1))
      else let (rc, net) = multiple_attempt (nt_bind ops accept_sockfd port) (nt_sleep ops) 5 10 net
           in case rc of None \<Rightarrow> Inl Fault
              | Some rc \<Rightarrow> if rc \<noteq> 0 then Inl (Halt rc) else Inr (started_pod ev st account now, net))"

definition pod_main :: "'n net_ops \<Rightarrow> pod_environment \<Rightarrow> 'n \<Rightarrow> boot_error + pod_state \<times> 'n" where
  "pod_main ops ev net =
     (case (env_port (ev_manager_port ev) 50052, env_port (ev_scheduler_port ev) 50051) of
        (Some server_port, Some sport) \<Rightarrow>
          let ip = (case ev_scheduler_ip ev of None \<Rightarrow> ''127.0.0.1'' | Some a \<Rightarrow> a) in
          if HOST_NAME_MAX \<le> length (resolve_name (pod_env_of ev) comm_init) \<or> 20 \<le> length ip then Inl Fault
          else let (schd_sockfd, err, net) = nt_socket ops net in
          if schd_sockfd = -1 then Inl (Halt err)
          else let (rc, net) = multiple_attempt (nt_connect ops schd_sockfd ip sport) (nt_sleep ops) 5 10 net in
          (case rc of
             None \<Rightarrow> Inl Fault
           | Some rc \<Rightarrow>
               if rc \<noteq> 0 then Inl (Halt rc)
               else case retrieve_mem_info (pod_env_of ev) comm_init (nt_exchange ops schd_sockfd) 5 (nt_stack ops, net) of
                 None \<Rightarrow> Inl Fault
               | Some (Inl rc, st, net) \<Rightarrow> Inl (Halt rc)
               | Some (Inr account, st, net) \<Rightarrow> pod_listen ops ev server_port st account net)
      | _ \<Rightarrow> Inl Fault)"

section \<open>Printing options\<close>

lemma strtoul_show_nat: "n < 2 ^ 64 \<Longrightarrow> strtoul (show_nat n) = word_of_nat n"
  using show_nat_digits [of n] by (simp add: strtoul_def scan_show_nat)

lemma atof_show_decimal: "list_all is_digit (snd d) \<Longrightarrow> atof (show_decimal d) = decimal_value d"
proof -
  assume ds: "list_all is_digit (snd d)"
  let ?w = "show_nat (fst d)"
  note w = show_nat_digits [of "fst d"]
  obtain c cs where c: "?w = c # cs" using w by (cases ?w) auto
  have space: "dropWhile is_space (show_decimal d) = show_decimal d"
    using show_decimal_field [of d] by (cases "show_decimal d") auto
  have sign: "read_sign (show_decimal d) = (False, ?w @ CHR ''.'' # snd d)"
    using w read_sign_digit [of c] by (simp add: show_decimal_def c)
  have dot: "\<not> is_digit (CHR ''.'')" by (simp add: is_digit_def)
  have whole: "takeWhile is_digit (?w @ CHR ''.'' # snd d) = ?w"
      "dropWhile is_digit (?w @ CHR ''.'' # snd d) = CHR ''.'' # snd d"
    using takeWhile_digits [of ?w "CHR ''.'' # snd d"] w dot by simp_all
  have frac: "takeWhile is_digit (snd d) = snd d" "dropWhile is_digit (snd d) = []"
    using takeWhile_digits [OF ds, of "[]"] by simp_all
  have "real (digits_value (?w @ snd d)) / 10 ^ length (snd d) = decimal_value d"
    using w by (simp add: digits_value_append decimal_value_def add_divide_distrib)
  then show ?thesis using w by (simp add: atof_def space sign whole frac)
qed

text \<open>The command line for given settings.\<close>

definition show_options :: "nat \<Rightarrow> nat \<times> string \<Rightarrow> nat \<times> string \<Rightarrow> nat \<times> string \<Rightarrow> string \<Rightarrow> string \<Rightarrow> (char \<times> string) list" where
  "show_options port q m w fname dir = [(CHR ''P'', show_nat port), (CHR ''q'', show_decimal q), (CHR ''m'', show_decimal m),
     (CHR ''w'', show_decimal w), (CHR ''f'', fname), (CHR ''p'', dir)]"

lemma apply_show_options:
  assumes "port < 2 ^ 16" and "list_all is_digit (snd q)" and "list_all is_digit (snd m)" and "list_all is_digit (snd w)"
    and "length fname < PATH_MAX" and "length dir < PATH_MAX"
  shows "apply_options (show_options port q m w fname dir) default_settings =
    Inr \<lparr>schd_port = word_of_nat port,
         settings_cfg = \<lparr>cfg_QUOTA = decimal_value q, cfg_MIN_QUOTA = decimal_value m, cfg_WINDOW_SIZE = decimal_value w\<rparr>,
         limit_file_name = fname, limit_file_dir = dir, verbosity = 0\<rparr>"
proof -
  have "strtoul (show_nat port) = word_of_nat port" using assms(1) by (intro strtoul_show_nat) simp
  moreover have "ucast (word_of_nat port :: 64 word) = (word_of_nat port :: 16 word)"
    using assms(1) by (simp add: unsigned_of_nat take_bit_nat_eq_self)
  ultimately show ?thesis
    using assms(2-) by (simp add: show_options_def apply_option_def atof_show_decimal default_settings_def default_config_def)
qed

section \<open>Encoding events\<close>

text \<open>What the kernel writes for an event: the name is followed by at least one NUL, and an event
  without a name has length zero.\<close>

record file_event =
  fe_wd :: "32 word"
  fe_mask :: "32 word"
  fe_cookie :: "32 word"
  fe_name :: string
  fe_pad :: nat

definition event_bytes :: "file_event \<Rightarrow> byte list" where
  "event_bytes e = bytes32 (fe_wd e) @ bytes32 (fe_mask e) @ bytes32 (fe_cookie e)
     @ bytes32 (word_of_nat (length (fe_name e) + fe_pad e)) @ name_bytes (fe_name e) @ replicate (fe_pad e) 0"

definition wf_event :: "file_event \<Rightarrow> bool" where
  "wf_event e \<longleftrightarrow> c_safe (fe_name e) \<and> (fe_pad e = 0 \<longrightarrow> fe_name e = [])"

definition event_of :: "file_event \<Rightarrow> inotify_event" where
  "event_of e = \<lparr>ev_mask = fe_mask e, ev_len = word_of_nat (length (fe_name e) + fe_pad e), ev_name = fe_name e\<rparr>"

lemma length_event_bytes: "length (event_bytes e) = 16 + length (fe_name e) + fe_pad e"
  by (simp add: event_bytes_def name_bytes_def)

lemma c_string_event:
  assumes "c_safe name" and "0 < pad" and "length pre < 2 ^ 64"
  shows "c_string (pre @ name_bytes name @ replicate pad 0 @ r) (word_of_nat (length pre)) = Some name"
proof -
  obtain k where k: "pad = Suc k" using assms(2) gr0_implies_Suc by blast
  have "unat (word_of_nat (length pre) :: size_t) = length pre" using assms(3) by (simp add: unat_of_nat take_bit_nat_eq_self)
  then show ?thesis
    using takeWhile_name_bytes [OF assms(1), of "replicate k 0 @ r"]
    by (simp add: c_string_def k) (simp add: name_bytes_def comp_def)
qed

lemma event_at_bytes:
  assumes "wf_event e" and "length pre + length (event_bytes e) < 2 ^ 32"
  shows "\<exists>nm. event_at (pre @ event_bytes e @ r) (int (length pre)) = Some ((event_of e)\<lparr>ev_name := nm\<rparr>)
    \<and> (ev_len (event_of e) \<noteq> 0 \<and> and (fe_mask e) IN_CLOSE_WRITE \<noteq> 0 \<longrightarrow> nm = fe_name e)"
proof -
  let ?h = "bytes32 (fe_wd e) @ bytes32 (fe_mask e) @ bytes32 (fe_cookie e) @ bytes32 (ev_len (event_of e))"
  let ?b = "pre @ event_bytes e @ r"
  have b: "?b = (pre @ ?h) @ name_bytes (fe_name e) @ replicate (fe_pad e) 0 @ r"
    by (simp add: event_bytes_def event_of_def)
  have fields: "word32 (take 4 (drop (length pre + 4) ?b)) = fe_mask e" "word32 (take 4 (drop (length pre + 12) ?b)) = ev_len (event_of e)"
    by (simp_all add: event_bytes_def event_of_def)
  have name: "c_string ?b (word_of_nat (length pre + 16)) = Some (fe_name e)" if "ev_len (event_of e) \<noteq> 0"
  proof -
    have "0 < fe_pad e" using that assms(1) by (cases "fe_pad e") (auto simp: event_of_def wf_event_def)
    moreover have "length (pre @ ?h) < 2 ^ 64" using assms(2) by (simp add: length_event_bytes)
    ultimately show ?thesis
      using c_string_event [of "fe_name e" "fe_pad e" "pre @ ?h" r] assms(1) unfolding b by (simp add: wf_event_def)
  qed
  have "length pre + 16 \<le> length ?b" by (simp add: length_event_bytes)
  then show ?thesis
    using fields name by (auto simp: event_at_def EVENT_SIZE_def Let_def event_of_def)
qed

lemma next_event_bytes:
  assumes "i + length (event_bytes e) \<le> BUF_LEN"
  shows "next_event (int i) (ev_len (event_of e)) = int (i + length (event_bytes e))"
proof -
  let ?n = "length (fe_name e) + fe_pad e"
  have n: "i + 16 + ?n \<le> 32768" using assms by (simp add: length_event_bytes BUF_LEN_def EVENT_SIZE_def)
  then have "uint (ev_len (event_of e)) = int ?n"
    by (simp add: event_of_def uint_nat unat_of_nat take_bit_nat_eq_self flip: of_nat_add)
  then have "next_event (int i) (ev_len (event_of e)) = sint (word_of_int (int (i + 16 + ?n)) :: int32)"
    by (simp add: next_event_def EVENT_SIZE_def)
  also have "\<dots> = int (i + 16 + ?n)"
    unfolding signed_of_int using n by (simp only: of_int_eq_id id_apply) (intro signed_take_bit_int_eq_self; simp)
  finally show ?thesis by (simp add: length_event_bytes)
qed

text \<open>One event, then the others.\<close>

lemma handle_events_Cons:
  "handle_events files path fname cfg (e # evs) m =
    (case handle_events files path fname cfg [e] m of Inl x \<Rightarrow> Inl x | Inr m \<Rightarrow> handle_events files path fname cfg evs m)"
  by (simp split: sum.split)

definition monitor_result :: "config_error + (string \<rightharpoonup> ClientInfo) \<Rightarrow> monitor_error + (string \<rightharpoonup> ClientInfo)" where
  "monitor_result r = (case r of Inl e \<Rightarrow> Inl (MonitorConfig e) | Inr m \<Rightarrow> Inr m)"

lemma event_loop_decodes:
  assumes "list_all wf_event evs" and "length pre + length (concat (map event_bytes evs)) \<le> BUF_LEN"
  shows "event_loop files path fname cfg (pre @ concat (map event_bytes evs) @ r)
      (int (length pre + length (concat (map event_bytes evs)))) (int (length pre)) clients =
    Some (monitor_result (handle_events files path fname cfg (map event_of evs) clients))"
  using assms
proof (induction evs arbitrary: pre clients)
  case Nil
  then show ?case by (subst event_loop.simps) (simp add: monitor_result_def)
next
  case (Cons e evs)
  let ?rest = "concat (map event_bytes evs)"
  let ?b = "pre @ event_bytes e @ ?rest @ r"
  have room: "length pre + length (event_bytes e) \<le> BUF_LEN" "length pre + length (event_bytes e) < 2 ^ 32"
    using Cons.prems(2) by (simp_all add: BUF_LEN_def EVENT_SIZE_def)
  obtain nm where at: "event_at ?b (int (length pre)) = Some ((event_of e)\<lparr>ev_name := nm\<rparr>)"
    and nm: "ev_len (event_of e) \<noteq> 0 \<and> and (fe_mask e) IN_CLOSE_WRITE \<noteq> 0 \<longrightarrow> nm = fe_name e"
    using event_at_bytes [of e pre "?rest @ r"] Cons.prems(1) room(2) by auto
  have same: "handle_events files path fname cfg [(event_of e)\<lparr>ev_name := nm\<rparr>] clients =
      handle_events files path fname cfg [event_of e] clients"
    using nm by (auto simp: event_of_def)
  have loop: "event_loop files path fname cfg ?b (int (length pre + length (event_bytes e) + length ?rest))
      (int (length pre + length (event_bytes e))) m =
      Some (monitor_result (handle_events files path fname cfg (map event_of evs) m))" for m
    using Cons.IH [of "pre @ event_bytes e"] Cons.prems by simp
  have "int (length pre) < int (length pre + length (event_bytes e) + length ?rest)" by (simp add: length_event_bytes)
  then have "event_loop files path fname cfg ?b (int (length pre + length (event_bytes e) + length ?rest)) (int (length pre)) clients =
      Some (monitor_result (handle_events files path fname cfg (event_of e # map event_of evs) clients))"
    using loop next_event_bytes [OF room(1)]
    by (subst event_loop.simps, subst handle_events_Cons) (simp add: at same monitor_result_def del: handle_events.simps split: sum.split)
  then show ?case by (simp add: add.assoc del: handle_events.simps)
qed

section \<open>Following the configuration file\<close>

lemma register_lines_map_add:
  "register_lines cfg ls m = m ++ map_of (rev (map (\<lambda>l. (cl_name l, client_of cfg l)) ls))"
  by (induction ls arbitrary: m) (simp_all add: register_lines_def map_add_def fun_eq_iff split: option.split)

lemma register_lines_again: "register_lines cfg ls (register_lines cfg ls m) = register_lines cfg ls m"
  by (simp add: register_lines_map_add map_add_def fun_eq_iff split: option.split)

text \<open>An event that makes the code read the file.\<close>

definition concerns :: "string \<Rightarrow> file_event \<Rightarrow> bool" where
  "concerns fname e \<longleftrightarrow> fe_pad e \<noteq> 0 \<and> and (fe_mask e) IN_CLOSE_WRITE \<noteq> 0 \<and> fe_name e = fname"

lemma event_len_0:
  assumes "wf_event e" and "length (event_bytes e) < 2 ^ 32"
  shows "ev_len (event_of e) = 0 \<longleftrightarrow> fe_pad e = 0"
proof -
  have "length (fe_name e) + fe_pad e < 2 ^ 32" using assms(2) by (simp add: length_event_bytes)
  then have "unat (ev_len (event_of e)) = length (fe_name e) + fe_pad e"
    by (simp add: event_of_def unat_of_nat take_bit_nat_eq_self flip: of_nat_add)
  then show ?thesis using assms(1) by (auto simp: wf_event_def unat_eq_0)
qed

lemma handle_events_register:
  assumes "\<forall>m. read_resource_config files path fname cfg m = Inr (register_lines cfg ls m)"
    and "list_all wf_event evs" and "length (concat (map event_bytes evs)) < 2 ^ 32"
  shows "handle_events files path fname cfg (map event_of evs) m =
    Inr (if \<exists>e\<in>set evs. concerns fname e then register_lines cfg ls m else m)"
  using assms(2,3)
proof (induction evs arbitrary: m)
  case Nil
  then show ?case by simp
next
  case (Cons e evs)
  have "ev_len (event_of e) \<noteq> 0 \<and> and (ev_mask (event_of e)) IN_CLOSE_WRITE \<noteq> 0 \<and> ev_name (event_of e) = fname
      \<longleftrightarrow> concerns fname e"
    using Cons.prems event_len_0 [of e] by (simp add: concerns_def) (simp add: event_of_def)
  then show ?case using Cons by (simp add: assms(1) register_lines_again)
qed

section \<open>Properties\<close>

text \<open>C33. The monitor follows the configuration file: on a buffer that holds any sequence of events as the
  kernel writes them (a header of four words and a name padded with NULs, any watch descriptor and cookie), the
  event loop ends after the last event, and it has read the file exactly when one of the events is the
  closing of a file with the configured name after writing; the clients are then those the file lists, and
  the clients registered before that it does not list.\<close>

theorem config_change_applied:
  assumes "list_all wf_event evs" and "length (concat (map event_bytes evs)) \<le> BUF_LEN"
    and "config_path path fname = Some p" and "files p = Some (show_config n ls)"
    and "\<forall>l\<in>set ls. wf_line l" and "n < 2 ^ 31" and "ls \<noteq> [] \<or> n = 0"
  shows "event_loop files path fname cfg (concat (map event_bytes evs) @ r) (int (length (concat (map event_bytes evs)))) 0 clients =
    Some (Inr (if \<exists>e\<in>set evs. concerns fname e then register_lines cfg (take n ls) clients else clients))"
proof -
  have "read_resource_config files path fname cfg m = Inr (register_lines cfg (take n ls) m)" for m
    using assms(3-) by (simp add: read_resource_config_def read_config_shown)
  moreover have "length (concat (map event_bytes evs)) < 2 ^ 32" using assms(2) by (simp add: BUF_LEN_def EVENT_SIZE_def)
  ultimately show ?thesis
    using event_loop_decodes [of evs "[]" files path fname cfg r clients] handle_events_register [of files path fname cfg "take n ls" evs clients] assms(1,2)
    by (simp add: monitor_result_def)
qed

definition sample_event :: file_event where
  "sample_event = \<lparr>fe_wd = 1, fe_mask = 8, fe_cookie = 0, fe_name = ''resource-config.txt'', fe_pad = 13\<rparr>"

lemma sample_file:
  "config_path ''.'' ''resource-config.txt'' = Some ''./resource-config.txt''" "\<forall>l\<in>set [sample_line]. wf_line l"
  by (simp_all add: config_path_def PATH_MAX_def wf_line_def sample_line_def HOST_NAME_MAX_def is_space_def is_digit_def)

theorem config_change_applied_witness:
  "event_loop [''./resource-config.txt'' \<mapsto> show_config 1 [sample_line]] ''.'' ''resource-config.txt'' default_config
     (event_bytes sample_event) 48 0 Map.empty = Some (Inr [''client1'' \<mapsto> client_of default_config sample_line])"
proof -
  have "list_all wf_event [sample_event]" by (simp add: wf_event_def sample_event_def c_safe_def)
  moreover have "length (concat (map event_bytes [sample_event])) = 48" by (simp add: length_event_bytes sample_event_def)
  moreover have "concerns ''resource-config.txt'' sample_event" by (simp add: concerns_def sample_event_def IN_CLOSE_WRITE_def)
  moreover have "cl_name sample_line = ''client1''" by (simp add: sample_line_def)
  ultimately show ?thesis
    using config_change_applied [of "[sample_event]" "''.''" "''resource-config.txt''" "''./resource-config.txt''"
        "[''./resource-config.txt'' \<mapsto> show_config 1 [sample_line]]" 1 "[sample_line]" default_config "[]" Map.empty] sample_file
    by (simp add: BUF_LEN_def EVENT_SIZE_def register_lines_def)
qed

text \<open>C34. The scheduler starts as its command line and its configuration file say: with the options printed
  from a port, three decimal numbers, a file name and a directory, a file in the documented format, and a socket that
  can be bound to that port, \<^verbatim>\<open>main\<close> reaches its accept loop in an initial state, bound to exactly that
  port, with exactly those quotas and window, watching exactly that file, and with exactly the clients of
  the file. All the invariants of the scheduler start here.\<close>

theorem scheduler_starts:
  assumes "port < 2 ^ 16" and "list_all is_digit (snd q)" and "list_all is_digit (snd m)" and "list_all is_digit (snd w)"
    and "length fname < PATH_MAX" and "length dir < PATH_MAX"
    and "config_path dir fname = Some p" and "files p = Some (show_config n ls)"
    and "\<forall>l\<in>set ls. wf_line l" and "n < 2 ^ 31" and "ls \<noteq> [] \<or> n = 0" and "0 \<le> sockfd" and "0 \<le> bind_rc (word_of_nat port)"
  shows "\<exists>st s. schd_main files (show_options port q m w fname dir) sockfd bind_rc 0 now = Inr (st, s) \<and> sched_init s
    \<and> unat (schd_port st) = port \<and> limit_file_name st = fname \<and> limit_file_dir st = dir
    \<and> s_cfg s = \<lparr>cfg_QUOTA = decimal_value q, cfg_MIN_QUOTA = decimal_value m, cfg_WINDOW_SIZE = decimal_value w\<rparr>
    \<and> client_info_map s = register_lines (s_cfg s) (take n ls) Map.empty"
proof -
  let ?cfg = "\<lparr>cfg_QUOTA = decimal_value q, cfg_MIN_QUOTA = decimal_value m, cfg_WINDOW_SIZE = decimal_value w\<rparr>"
  have read: "read_resource_config files dir fname ?cfg Map.empty = Inr (register_lines ?cfg (take n ls) Map.empty)"
    using assms(7-11) by (simp add: read_resource_config_def read_config_shown)
  have "named_clients (register_lines ?cfg (take n ls) Map.empty)"
    using read_resource_config_keeps [OF read] by (simp add: named_clients_def)
  moreover have "unat (word_of_nat port :: 16 word) = port" using assms(1) by (simp add: unat_of_nat take_bit_nat_eq_self)
  ultimately show ?thesis
    unfolding schd_main_def apply_show_options [OF assms(1-6)] using read assms(12,13) by (simp add: sched_init_def)
qed

text \<open>No other port than the one of the command line can be bound.\<close>

theorem scheduler_starts_witness:
  "\<exists>st s. schd_main [''./resource-config.txt'' \<mapsto> show_config 1 [sample_line]]
      (show_options 50070 (250, ''0'') (100, ''0'') (10000, ''0'') ''resource-config.txt'' ''.'') 3
      (\<lambda>port. if port = 50070 then 0 else -1) 0 0 = Inr (st, s)
    \<and> sched_init s \<and> unat (schd_port st) = 50070 \<and> client_info_map s ''client1'' \<noteq> None"
proof -
  let ?fs = "[''./resource-config.txt'' \<mapsto> show_config 1 [sample_line]]"
  let ?bind = "\<lambda>port :: 16 word. if port = 50070 then 0 else -1 :: int"
  have digits: "list_all is_digit (snd (k :: nat, ''0''))" for k by (simp add: is_digit_def)
  have short: "length ''resource-config.txt'' < PATH_MAX" "length ''.'' < PATH_MAX" by (simp_all add: PATH_MAX_def)
  have contents: "?fs ''./resource-config.txt'' = Some (show_config 1 [sample_line])" by simp
  obtain st s where s: "schd_main ?fs (show_options 50070 (250, ''0'') (100, ''0'') (10000, ''0'') ''resource-config.txt'' ''.'') 3 ?bind 0 0 = Inr (st, s)"
      "sched_init s" "unat (schd_port st) = 50070" "client_info_map s = register_lines (s_cfg s) (take 1 [sample_line]) Map.empty"
    using scheduler_starts [where files = ?fs and port = 50070 and n = 1 and ls = "[sample_line]" and sockfd = 3 and bind_rc = ?bind
        and now = 0, OF _ digits [of 250] digits [of 100] digits [of 10000] short sample_file(1) contents sample_file(2)] by auto
  have "client_info_map s (cl_name sample_line) \<noteq> None" using s(4) by (simp add: register_lines_def)
  then show ?thesis using s(1,2,3) by (auto simp: sample_line_def)
qed

end
