(* ===== verification/Gem_Link.thy ===== *)
theory Gem_Link
  imports Gem_Sched Gem_Boot
begin

text \<open>
  The connection between a pod manager and the scheduler: what the messages one side prepares do on the other,
  and the exchange of \<^verbatim>\<open>retrieve_mem_info\<close> with the modelled scheduler at the other end of the network.
\<close>

section \<open>Requests\<close>

lemma prepared_quota_request:
  assumes "prepare_request env st (replicate REQ_MSG_LEN 0) REQ_QUOTA [ADouble a, ADouble b] = Some (rid, st', msg)"
    and "c_safe (resolve_name env st)"
  shows "\<exists>att. carries msg (resolve_name env st) rid REQ_QUOTA att \<and> get_msg_data 8 word64 att 0 = Some (a, 8)
    \<and> get_msg_data 8 word64 att 8 = Some (b, 16)"
    and "length msg = REQ_MSG_LEN" and "rid = next_id st"
    and "st' = \<lparr>client_name = Some (resolve_name env st), next_id = next_id st + 1\<rparr>"
proof -
  let ?n = "length (resolve_name env st)"
  let ?r = "drop (17 + ?n + 16) (replicate REQ_MSG_LEN (0 :: byte))"
  have fit: "17 + ?n + 16 \<le> REQ_MSG_LEN"
    using assms(1) prepare_request_layout [of "replicate REQ_MSG_LEN 0" REQ_QUOTA "[ADouble a, ADouble b]" _ env st]
    by (auto simp: Let_def REQ_MSG_LEN_def split: if_splits)
  then have "carries msg (resolve_name env st) rid REQ_QUOTA (bytes64 a @ bytes64 b @ ?r) \<and> length msg = REQ_MSG_LEN
      \<and> rid = next_id st \<and> st' = \<lparr>client_name = Some (resolve_name env st), next_id = next_id st + 1\<rparr>"
    using prepare_request_carries [of "replicate REQ_MSG_LEN 0" REQ_QUOTA "[ADouble a, ADouble b]" _ env st] assms
    by (auto simp: REQ_MSG_LEN_def)
  then show "\<exists>att. carries msg (resolve_name env st) rid REQ_QUOTA att \<and> get_msg_data 8 word64 att 0 = Some (a, 8)
    \<and> get_msg_data 8 word64 att 8 = Some (b, 16)" "length msg = REQ_MSG_LEN" "rid = next_id st"
    "st' = \<lparr>client_name = Some (resolve_name env st), next_id = next_id st + 1\<rparr>"
    using get_two_64 [of a b ?r] by (auto simp: REQ_MSG_LEN_def)
qed

lemma prepared_limit_request:
  assumes "c_safe (resolve_name env st)" and "length (resolve_name env st) \<le> 63"
  shows "\<exists>msg att. prepare_request env st (replicate REQ_MSG_LEN 0) REQ_MEM_LIMIT [] =
      Some (next_id st, \<lparr>client_name = Some (resolve_name env st), next_id = next_id st + 1\<rparr>, msg) \<and> length msg = REQ_MSG_LEN
    \<and> carries msg (resolve_name env st) (next_id st) REQ_MEM_LIMIT att"
  using prepare_request_carries [of "replicate REQ_MSG_LEN 0" REQ_MEM_LIMIT "[]" "[]" env st] assms
  by (auto simp: REQ_MSG_LEN_def)

lemma handle_limit_request:
  assumes "carries msg name rid REQ_MEM_LIMIT att"
  shows "\<exists>buf. (\<forall>s. client_info_map s name = Some c \<longrightarrow>
      handle_unlocked sock msg s = Some (s\<lparr>sent := sent s @ [(sock, buf)]\<rparr>, None))
    \<and> parse_mem_info buf = Some (fresh_account (gpu_mem_limit c))"
proof -
  let ?e = "bytes64 0 @ bytes64 (gpu_mem_limit c)"
  obtain buf off where buf: "prepare_response (replicate RSP_MSG_LEN 0) REQ_MEM_LIMIT rid [ASize 0, ASize (gpu_mem_limit c)] = Some (buf, 20)"
      "parse_response buf = Some (rid, off)" "attached_data buf off = ?e @ drop 20 (replicate RSP_MSG_LEN 0)"
    using prepare_response_parses [of "replicate RSP_MSG_LEN 0" REQ_MEM_LIMIT "[ASize 0, ASize (gpu_mem_limit c)]" ?e rid] by auto
  have "parse_mem_info buf = Some (fresh_account (gpu_mem_limit c))"
    using buf(2,3) get_two_64 [of 0 "gpu_mem_limit c" "drop 20 (replicate RSP_MSG_LEN 0)"]
    by (simp add: parse_mem_info_def fresh_account_def RSP_MSG_LEN_def)
  moreover have "handle_unlocked sock msg s = Some (s\<lparr>sent := sent s @ [(sock, buf)]\<rparr>, None)"
    if "client_info_map s name = Some c" for s
    using assms that buf(1) by (auto simp: carries_def handle_unlocked_def Let_def)
  ultimately show ?thesis by blast
qed

text \<open>The request of \<^verbatim>\<open>retrieve_mem_info\<close>.\<close>

definition limit_message :: "comm_env \<Rightarrow> comm_state \<Rightarrow> byte list" where
  "limit_message env st = (case prepare_request env st (replicate REQ_MSG_LEN 0) REQ_MEM_LIMIT [] of
     Some (_, _, msg) \<Rightarrow> msg | None \<Rightarrow> [])"

text \<open>One send and receive of the pod manager with the scheduler at the other end: the scheduler
  handles the request and its answer is received.\<close>

definition schd_exchange ::
  "sockfd \<Rightarrow> byte list \<Rightarrow> byte list \<times> sched_state \<Rightarrow> int \<times> int \<times> byte list \<times> sched_state" where
  "schd_exchange sock sbuf net = (case handle_message sock sbuf (snd net) of
     None \<Rightarrow> (-1, 104, net)
   | Some s \<Rightarrow> if length (sent s) = length (sent (snd net)) then (-1, 11, fst net, s) else (0, 0, snd (last (sent s)), s))"

text \<open>\<^verbatim>\<open>retrieve_mem_info\<close>, run against a scheduler that knows the
  pod, succeeds at the first attempt and leaves an empty account with exactly the limit of the
  configuration; the scheduler's candidates and history are untouched.\<close>

lemma pod_learns_limit:
  assumes "c_safe (resolve_name env st)" and "length (resolve_name env st) \<le> 63" and "0 < MAX_RETRY"
    and "client_info_map s (resolve_name env st) = Some c"
  shows "\<exists>st' rsp. retrieve_mem_info env st (schd_exchange sock) MAX_RETRY (rbuf, s) =
      Some (Inr (fresh_account (gpu_mem_limit c)), st', s\<lparr>sent := sent s @ [(sock, rsp)]\<rparr>)
    \<and> st' = \<lparr>client_name = Some (resolve_name env st), next_id = next_id st + 1\<rparr>
    \<and> (\<forall>f. handle_unlocked sock (limit_message env st) (s\<lparr>conns := f\<rparr>) = Some (s\<lparr>conns := f, sent := sent s @ [(sock, rsp)]\<rparr>, None))
    \<and> length (limit_message env st) = REQ_MSG_LEN"
proof -
  let ?st = "\<lparr>client_name = Some (resolve_name env st), next_id = next_id st + 1\<rparr>"
  obtain msg att where p: "prepare_request env st (replicate REQ_MSG_LEN 0) REQ_MEM_LIMIT [] = Some (next_id st, ?st, msg)"
    and len: "length msg = REQ_MSG_LEN" and car: "carries msg (resolve_name env st) (next_id st) REQ_MEM_LIMIT att"
    using prepared_limit_request [OF assms(1,2)] by blast
  obtain buf where h: "\<And>s. client_info_map s (resolve_name env st) = Some c \<Longrightarrow>
      handle_unlocked sock msg s = Some (s\<lparr>sent := sent s @ [(sock, buf)]\<rparr>, None)"
    and buf: "parse_mem_info buf = Some (fresh_account (gpu_mem_limit c))"
    using handle_limit_request [OF car] by blast
  have x: "schd_exchange sock msg (rbuf, s) = (0, 0, buf, s\<lparr>sent := sent s @ [(sock, buf)]\<rparr>)"
    by (simp add: schd_exchange_def handle_message_def h assms(4))
  obtain n where n: "nat MAX_RETRY = Suc n" using assms(3) gr0_implies_Suc by fastforce
  have "multiple_attempt (schd_exchange sock msg) (\<lambda>s. s) MAX_RETRY 0 (rbuf, s) =
      (Some 0, buf, s\<lparr>sent := sent s @ [(sock, buf)]\<rparr>)"
    by (simp add: multiple_attempt_def n x)
  then have "retrieve_mem_info env st (schd_exchange sock) MAX_RETRY (rbuf, s) =
      Some (Inr (fresh_account (gpu_mem_limit c)), ?st, s\<lparr>sent := sent s @ [(sock, buf)]\<rparr>)"
    by (simp add: retrieve_mem_info_def p buf)
  moreover have "limit_message env st = msg" by (simp add: limit_message_def p)
  moreover have "handle_unlocked sock msg (s\<lparr>conns := f\<rparr>) = Some (s\<lparr>conns := f, sent := sent s @ [(sock, buf)]\<rparr>, None)" for f
    using h [of "s\<lparr>conns := f\<rparr>"] assms(4) by simp
  ultimately show ?thesis using len by blast
qed

text \<open>A host: beside the scheduler at the other end, the next free descriptor of the process.\<close>

definition host_exchange ::
  "sockfd \<Rightarrow> byte list \<Rightarrow> byte list \<times> sched_state \<times> int \<Rightarrow> int \<times> int \<times> byte list \<times> sched_state \<times> int" where
  "host_exchange sock sbuf net =
     (case schd_exchange sock sbuf (fst net, fst (snd net)) of (rc, err, buf, s) \<Rightarrow> (rc, err, buf, s, snd (snd net)))"

lemma attempt_loop_host:
  "attempt_loop (host_exchange sock m) (\<lambda>s. s) i n rc (b, s, k) =
    (case attempt_loop (schd_exchange sock m) (\<lambda>s. s) i n rc (b, s) of (rc, b, s) \<Rightarrow> (rc, b, s, k))"
proof (induction n arbitrary: rc b s)
  case 0
  then show ?case by simp
next
  case (Suc n)
  obtain r e b' s' where "schd_exchange sock m (b, s) = (r, e, b', s')" by (cases "schd_exchange sock m (b, s)")
  then show ?case using Suc by (simp add: host_exchange_def Let_def)
qed

lemma retrieve_mem_info_host:
  "retrieve_mem_info env st (host_exchange sock) n (b, s, k) =
    map_option (\<lambda>(r, st, s). (r, st, s, k)) (retrieve_mem_info env st (schd_exchange sock) n (b, s))"
proof (cases "prepare_request env st (replicate REQ_MSG_LEN 0) REQ_MEM_LIMIT []")
  case None
  then show ?thesis by (simp add: retrieve_mem_info_def)
next
  case (Some x)
  obtain rid st' m where x: "x = (rid, st', m)" by (cases x)
  obtain rc b' s' where a: "multiple_attempt (schd_exchange sock m) (\<lambda>s. s) n 0 (b, s) = (rc, b', s')"
    by (cases "multiple_attempt (schd_exchange sock m) (\<lambda>s. s) n 0 (b, s)")
  then have "multiple_attempt (host_exchange sock m) (\<lambda>s. s) n 0 (b, s, k) = (rc, b', s', k)"
    by (simp add: multiple_attempt_def attempt_loop_host)
  then show ?thesis
    using a by (cases rc; cases "parse_mem_info b'") (simp_all add: retrieve_mem_info_def Some x)
qed

text \<open>The port a process uses: the default, or the decimal number in the environment.\<close>

definition configured_port :: "string option \<Rightarrow> 16 word \<Rightarrow> 16 word \<Rightarrow> bool" where
  "configured_port var dflt port \<longleftrightarrow>
     var = None \<and> port = dflt \<or> (\<exists>n < 65536. var = Some (show_nat n) \<and> port = word_of_nat n)"

lemma env_port_configured: "configured_port var dflt port \<Longrightarrow> env_port var dflt = Some port"
  by (auto simp: env_port_def configured_port_def atoi_show_nat)

lemma started_pod_init: "pod_init (started_pod ev st (fresh_account limit) now)"
  by (auto simp: pod_init_def started_pod_def)

end
