(* ===== verification/Gem_System.thy ===== *)
theory Gem_System
  imports Gem_Link
begin

text \<open>
  The scheduler and the pod managers as one system. The processes are those of \<open>Gem_Sched\<close> and \<open>Gem_Pod\<close>; a
  connection is named by the scheduler's descriptor and carries the messages of both sides in order and
  whole, as the byte streams of \<^verbatim>\<open>src/src/comm.h\<close> are used. The messages under way are those the sender has sent and the receiver
  has not yet counted. The clients of the pod managers stay arbitrary, and all clocks are the
  monotonic clock of the machine.

  \<open>careful\<close> selects between two environments: with \<open>False\<close> the descriptor of a closed connection may be given to
  the next one at any time, as \<^verbatim>\<open>accept\<close> does; with \<open>True\<close> it is given away only when the scheduler has no candidate
  left of the closed connection.
\<close>

section \<open>The system\<close>

record gem_system =
  gs_sched :: sched_state
  gs_pods :: "sockfd \<Rightarrow> pod_state option"
  gs_up :: "sockfd \<Rightarrow> nat"
  gs_down :: "sockfd \<Rightarrow> nat"

definition sent_to :: "sockfd \<Rightarrow> sched_state \<Rightarrow> byte list list" where
  "sent_to k s = map snd (filter (\<lambda>m. fst m = k) (sent s))"

definition requests_under_way :: "sockfd \<Rightarrow> pod_state \<Rightarrow> gem_system \<Rightarrow> byte list list" where
  "requests_under_way k p g = drop (gs_up g k) (to_scheduler p)"

definition responses_under_way :: "sockfd \<Rightarrow> gem_system \<Rightarrow> byte list list" where
  "responses_under_way k g = drop (gs_down g k) (sent_to k (gs_sched g))"

text \<open>The scheduler holds no request of a connection.\<close>

definition no_request_of :: "sockfd \<Rightarrow> sched_state \<Rightarrow> bool" where
  "no_request_of k s \<longleftrightarrow> (\<forall>c\<in>set (candidates s). cand_socket c \<noteq> k) \<and> (\<forall>c q. daemon s = DSend c q \<longrightarrow> cand_socket c \<noteq> k)"

text \<open>The steps of a pod manager that do not involve the scheduler or the clock; a request taken from the queue is sent.\<close>

inductive pod_local :: "pod_state \<Rightarrow> pod_state \<Rightarrow> bool" where
  local_accept: "hooks p h = HNone \<Longrightarrow> length buf = REQ_MSG_LEN \<Longrightarrow> pod_local p (hook_connect h buf p)"
| local_recv: "hooks p h = HRecv buf \<Longrightarrow> data \<noteq> [] \<Longrightarrow> length data \<le> REQ_MSG_LEN \<Longrightarrow>
    hook_message h (data @ drop (length data) buf) p = Some p' \<Longrightarrow> pod_local p p'"
| local_close: "hooks p h = HRecv buf \<Longrightarrow> pod_local p (hook_disconnect h p)"
| local_hook: "hook_step mv h p = Some p' \<Longrightarrow> pod_local p p'"
| local_send: "sender_step mv True p = Some p' \<Longrightarrow> pod_local p p'"

text \<open>The steps of the scheduler that do not involve a pod manager or the clock.\<close>

inductive sched_local :: "sched_state \<Rightarrow> sched_state \<Rightarrow> bool" where
  local_push: "conns s k = Pushing rbuf name req_id \<Longrightarrow>
    sched_local s ((push_candidate k name req_id s)\<lparr>conns := (conns s)(k := Receiving rbuf)\<rparr>)"
| local_reload: "handle_events files dir fname (s_cfg s) evs (client_info_map s) = Inr m \<Longrightarrow>
    sched_local s (s\<lparr>client_info_map := m\<rparr>)"
| local_daemon: "daemon_step mv s = Some (Inr t) \<Longrightarrow> sched_local s t"
| local_fault: "daemon_step mv s = Some (Inl e) \<Longrightarrow> sched_local s (s\<lparr>crashed := Some e\<rparr>)"

definition at_time :: "timepoint \<Rightarrow> gem_system \<Rightarrow> gem_system" where
  "at_time t g = g\<lparr>gs_sched := (gs_sched g)\<lparr>s_clock := t\<rparr>, gs_pods := (\<lambda>k. map_option (pod_clock_update (\<lambda>_. t)) (gs_pods g k))\<rparr>"

definition set_pod :: "sockfd \<Rightarrow> pod_state \<Rightarrow> gem_system \<Rightarrow> gem_system" where
  "set_pod k p g = g\<lparr>gs_pods := (gs_pods g)(k \<mapsto> p)\<rparr>"

text \<open>The scheduler's side of a received request.\<close>

definition received :: "sockfd \<Rightarrow> byte list \<Rightarrow> sched_state \<Rightarrow> (string \<times> int32) option \<Rightarrow> sched_state" where
  "received k msg s push = s\<lparr>conns := (conns s)(k :=
     (case push of None \<Rightarrow> Receiving msg | Some (name, req_id) \<Rightarrow> Pushing msg name req_id))\<rparr>"

definition sys_init :: "gem_system \<Rightarrow> bool" where
  "sys_init g \<longleftrightarrow> sched_init (gs_sched g) \<and> gs_pods g = (\<lambda>_. None)"

inductive sys_step :: "bool \<Rightarrow> gem_system \<Rightarrow> gem_system \<Rightarrow> bool" for careful where
  sys_tick: "crashed (gs_sched g) = None \<Longrightarrow> s_clock (gs_sched g) \<le> t \<Longrightarrow> sys_step careful g (at_time t g)"
| sys_sched: "crashed (gs_sched g) = None \<Longrightarrow> sched_local (gs_sched g) s \<Longrightarrow> sys_step careful g (g\<lparr>gs_sched := s\<rparr>)"
| sys_pod: "gs_pods g k = Some p \<Longrightarrow> pod_local p p' \<Longrightarrow> sys_step careful g (set_pod k p' g)"
| sys_join: "gs_pods g k = None \<Longrightarrow> crashed (gs_sched g) = None \<Longrightarrow> conns (gs_sched g) k = NoConn \<Longrightarrow>
    (careful \<Longrightarrow> no_request_of k (gs_sched g)) \<Longrightarrow>
    name = resolve_name (pod_env_of ev) comm_init \<Longrightarrow> c_safe name \<Longrightarrow> length name \<le> 47 \<Longrightarrow>
    client_info_map (gs_sched g) name \<noteq> None \<Longrightarrow>
    retrieve_mem_info (pod_env_of ev) comm_init (schd_exchange k) 5 (rbuf, gs_sched g) = Some (Inr account, st, s) \<Longrightarrow>
    sys_step careful g (g\<lparr>gs_sched := received k (limit_message (pod_env_of ev) comm_init) s None,
      gs_pods := (gs_pods g)(k \<mapsto> started_pod ev st account (s_clock s)),
      gs_up := (gs_up g)(k := 0), gs_down := (gs_down g)(k := length (sent_to k s))\<rparr>)"
| sys_up: "gs_pods g k = Some p \<Longrightarrow> crashed (gs_sched g) = None \<Longrightarrow> conns (gs_sched g) k = Receiving buf \<Longrightarrow>
    requests_under_way k p g = msg # rest \<Longrightarrow> handle_unlocked k msg (gs_sched g) = Some (s, push) \<Longrightarrow>
    sys_step careful g (g\<lparr>gs_sched := received k msg s push, gs_up := (gs_up g)(k := Suc (gs_up g k))\<rparr>)"
| sys_up_bad: "gs_pods g k = Some p \<Longrightarrow> crashed (gs_sched g) = None \<Longrightarrow> conns (gs_sched g) k = Receiving buf \<Longrightarrow>
    requests_under_way k p g = msg # rest \<Longrightarrow> handle_unlocked k msg (gs_sched g) = None \<Longrightarrow>
    sys_step careful g (g\<lparr>gs_sched := (gs_sched g)\<lparr>crashed := Some MessageBounds\<rparr>\<rparr>)"
| sys_down: "gs_pods g k = Some p \<Longrightarrow> responses_under_way k g = msg # rest \<Longrightarrow> receiver_step msg p = Some p' \<Longrightarrow>
    sys_step careful g (set_pod k p' (g\<lparr>gs_down := (gs_down g)(k := Suc (gs_down g k))\<rparr>))"
| sys_leave: "gs_pods g k = Some p \<Longrightarrow> crashed (gs_sched g) = None \<Longrightarrow> conns (gs_sched g) k = Receiving buf \<Longrightarrow>
    sys_step careful g (g\<lparr>gs_sched := (gs_sched g)\<lparr>conns := (conns (gs_sched g))(k := NoConn)\<rparr>, gs_pods := (gs_pods g)(k := None)\<rparr>)"

section \<open>The components run inside the system\<close>

text \<open>Messages have the length of their buffers.\<close>

definition sized_responses :: "sched_state \<Rightarrow> bool" where
  "sized_responses s \<longleftrightarrow> (\<forall>m\<in>set (sent s). length (snd m) = RSP_MSG_LEN)
     \<and> (\<forall>k buf. conns s k = Receiving buf \<longrightarrow> length buf = REQ_MSG_LEN)
     \<and> (\<forall>k buf n r. conns s k = Pushing buf n r \<longrightarrow> length buf = REQ_MSG_LEN)"

definition sized_requests :: "pod_state \<Rightarrow> bool" where
  "sized_requests p \<longleftrightarrow> (\<forall>m\<in>set (request_queue p). length (snd m) = REQ_MSG_LEN) \<and> (\<forall>m\<in>set (to_scheduler p). length m = REQ_MSG_LEN)"

lemma sched_inv_full: "full_inv s \<Longrightarrow> sched_inv s"
  by (simp add: full_inv_def)

text \<open>What the daemon sends; it leaves the connections alone.\<close>

lemma daemon_step_sent:
  assumes "daemon_step mv s = Some (Inr t)" and "sched_inv s"
  shows "sent t = sent s \<or> (\<exists>c q buf. daemon s = DSend c q \<and> sent t = sent s @ [(cand_socket c, buf)]
    \<and> prepare_response (replicate RSP_MSG_LEN 0) REQ_QUOTA (cand_req_id c) [ADouble (bits_of_double q)] = Some (buf, 12))"
  using assms by (cases rule: daemon_step_cases) simp_all

lemma daemon_step_conns:
  assumes "daemon_step mv s = Some (Inr t)" and "sched_inv s"
  shows "conns t = conns s"
  using assms by (cases rule: daemon_step_cases) simp_all

lemma sized_responses_step: "full_inv s \<and> sized_responses s \<Longrightarrow> sched_step s t \<Longrightarrow> full_inv t \<and> sized_responses t"
proof (intro conjI)
  assume inv: "full_inv s \<and> sized_responses s" and step: "sched_step s t"
  then show "full_inv t" using full_inv_step by blast
  show "sized_responses t" using step inv
  proof (induction rule: sched_step.induct)
    case (recv s sock buf data rbuf s' push)
    have "length rbuf = REQ_MSG_LEN" using recv(2,4,5,7) by (auto simp: sized_responses_def)
    moreover have "sized_responses s'"
      using recv(6,7) by (cases rule: handle_unlocked_cases) (auto simp: sized_responses_def)
    ultimately show ?case by (auto simp: sized_responses_def split: option.splits prod.splits)
  next
    case (push s sock rbuf name req_id)
    then have "length rbuf = REQ_MSG_LEN" unfolding sized_responses_def by blast
    then show ?case using push by (auto simp: sized_responses_def push_candidate_def Let_def)
  next
    case (daemon_ok s mv t)
    then have inv: "sched_inv s" by (simp add: sched_inv_full)
    note same = daemon_step_conns [OF daemon_ok(2) inv]
    from daemon_step_sent [OF daemon_ok(2) inv] show ?case
    proof (elim disjE exE conjE)
      fix c q buf
      assume sent: "sent t = sent s @ [(cand_socket c, buf)]"
        and "prepare_response (replicate RSP_MSG_LEN 0) REQ_QUOTA (cand_req_id c) [ADouble (bits_of_double q)] = Some (buf, 12)"
      then have "length buf = RSP_MSG_LEN" using prepare_response_length by fastforce
      then show ?thesis using daemon_ok(3) same sent by (auto simp: sized_responses_def)
    qed (use daemon_ok(3) same in \<open>simp add: sized_responses_def\<close>)
  qed (simp_all add: sized_responses_def)
qed

lemma sized_responses_init: "sched_init s \<Longrightarrow> full_inv s \<and> sized_responses s"
  using full_inv_init [of s] by (simp add: sized_responses_def sched_init_def)

interpretation sized: inductive_invariant sched_init sched_step "\<lambda>s. full_inv s \<and> sized_responses s"
  by unfold_locales (rule sized_responses_init sized_responses_step; assumption)+

text \<open>The parts of a pod manager's state that face the scheduler, and the steps that touch them: a thread asks, takes a
  response, or the sender sends. Every other step keeps them.\<close>

definition facing :: "pod_state \<Rightarrow> pod_state \<Rightarrow> bool" where
  "facing p p' \<longleftrightarrow> pod_env p' = pod_env p \<and> pod_clock p' = pod_clock p \<and> to_scheduler p' = to_scheduler p
     \<and> request_queue p' = request_queue p \<and> response_map p' = response_map p \<and> pod_comm p' = pod_comm p
     \<and> pod_quota p' = pod_quota p \<and> quota_updated_tp p' = quota_updated_tp p \<and> issued p' = issued p"

lemma respond_facing:
  assumes "respond h req rid args p = Some p'"
  shows "facing p p' \<and> hooks p' = hooks p"
  using respond_frame [OF assms] by (auto simp: facing_def)

lemma hook_message_facing:
  assumes "hook_message h msg p = Some p'"
  shows "facing p p' \<and> (\<exists>pc. hooks p' = (hooks p)(h := pc) \<and> (\<forall>c i. pc \<noteq> HAwait c i \<and> pc \<noteq> HBlocked c i))"
proof -
  obtain pr where pr: "parse_request msg = Some pr" using assms by (auto simp: hook_message_def bind_eq_Some_conv)
  show ?thesis
  proof (cases "pr_type pr = REQ_QUOTA")
    case True
    then show ?thesis using assms pr by (auto simp: hook_message_def bind_eq_Some_conv Let_def set_pc_def facing_def)
  next
    case False
    then obtain q where q: "facing p q" "hooks q = hooks p" "p' = set_pc h (HRecv msg) q"
      using assms pr
      by (auto simp: hook_message_def bind_eq_Some_conv Let_def facing_def case_prod_unfold split: if_splits dest!: respond_facing)
    then show ?thesis by (auto simp: set_pc_def facing_def)
  qed
qed

lemma facing_refl [simp]: "facing p p"
  by (simp add: facing_def)

lemma facing_trans: "facing p q \<Longrightarrow> facing q r \<Longrightarrow> facing p r"
  by (simp add: facing_def)

lemma awaiting_other:
  "hooks p' = (hooks p)(h := pc) \<Longrightarrow> awaiting p h = None \<Longrightarrow> (\<And>c i. pc \<noteq> HAwait c i \<and> pc \<noteq> HBlocked c i) \<Longrightarrow>
   awaiting p' = awaiting p"
  by (rule ext) (auto simp: awaiting_def split: hook_pc.splits)

lemma hook_step_cases [consumes 1, case_names other ask answer]:
  assumes "hook_step mv h p = Some p'"
  obtains (other) "facing p p'" "awaiting p' = awaiting p"
  | (ask) st msg a b where
      "prepare_request (pod_env p) (pod_comm p) (replicate REQ_MSG_LEN 0) REQ_QUOTA [ADouble a, ADouble b] = Some (next_id (pod_comm p), st, msg)"
      "facing (p\<lparr>pod_comm := st, request_queue := request_queue p @ [(next_id (pod_comm p), msg)], issued := issued p + 1\<rparr>) p'"
      "awaiting p h = None" "awaiting p' = (awaiting p)(h \<mapsto> next_id (pod_comm p))"
  | (answer) i data q pos where "awaiting p h = Some i" "response_map p i = Some data"
      "get_msg_data 8 word64 data 0 = Some (q, pos)"
      "facing (p\<lparr>pod_quota := double_of_bits q, quota_updated_tp := pod_clock p, response_map := (response_map p)(i := None)\<rparr>) p'"
      "awaiting p' = (awaiting p)(h := None)"
proof (cases "hooks p h")
  case (HRequest ctx b)
  let ?a = "bits_of_double (pod_overuse_ms p)"
  let ?b = "bits_of_double b"
  obtain st msg where m: "prepare_request (pod_env p) (pod_comm p) (replicate REQ_MSG_LEN 0) REQ_QUOTA [ADouble ?a, ADouble ?b] =
        Some (next_id (pod_comm p), st, msg)"
      "p' = set_pc h (HAwait ctx (next_id (pod_comm p)))
        (p\<lparr>pod_comm := st, request_queue := request_queue p @ [(next_id (pod_comm p), msg)],
           sender_signalled := (sender_signalled p \<or> sender p = SWait), issued := issued p + 1\<rparr>)"
  proof -
    have "launch_enqueue h ctx b p = Some p'" using assms HRequest by (simp add: hook_step_def split: if_splits)
    then obtain rid st msg where r: "prepare_request (pod_env p) (pod_comm p) (replicate REQ_MSG_LEN 0) REQ_QUOTA [ADouble ?a, ADouble ?b] =
        Some (rid, st, msg)" "p' = set_pc h (HAwait ctx rid)
        (p\<lparr>pod_comm := st, request_queue := request_queue p @ [(rid, msg)],
           sender_signalled := (sender_signalled p \<or> sender p = SWait), issued := issued p + 1\<rparr>)"
      by (auto simp: launch_enqueue_def bind_eq_Some_conv)
    have "rid = next_id (pod_comm p)" using prepare_request_id [OF r(1)] by simp
    then show thesis using that r by simp
  qed
  show thesis
  proof (rule ask [OF m(1)])
    show "facing (p\<lparr>pod_comm := st, request_queue := request_queue p @ [(next_id (pod_comm p), msg)], issued := issued p + 1\<rparr>) p'"
      by (simp add: m(2) set_pc_def facing_def)
    show "awaiting p h = None" by (simp add: awaiting_def HRequest)
    show "awaiting p' = (awaiting p)(h \<mapsto> next_id (pod_comm p))"
      by (rule ext) (simp add: m(2) awaiting_def set_pc_def)
  qed
next
  case (HBlocked ctx i)
  show thesis
  proof (cases "response_map p i")
    case None
    then have "p' = set_pc h (HAwait ctx i) (p\<lparr>rsp_signalled := rsp_signalled p - {h}\<rparr>)"
      using assms HBlocked by (auto simp: hook_step_def launch_complete_def Let_def split: if_splits)
    then show thesis using HBlocked by (intro other) (auto simp: set_pc_def facing_def awaiting_def fun_eq_iff)
  next
    case (Some data)
    then obtain q pos where q: "get_msg_data 8 word64 data 0 = Some (q, pos)"
        "p' = set_pc h (HDone ctx 0) (p\<lparr>rsp_signalled := rsp_signalled p - {h}, pod_quota := double_of_bits q,
          quota_updated_tp := pod_clock p, pod_overuse_ms := 0, response_map := (response_map p)(i := None)\<rparr>)"
      using assms HBlocked by (auto simp: hook_step_def launch_complete_def Let_def bind_eq_Some_conv split: if_splits)
    show thesis
      by (rule answer [OF _ Some q(1)]) (use HBlocked in \<open>auto simp: q(2) awaiting_def set_pc_def facing_def fun_eq_iff\<close>)
  qed
next
  case (HAwait ctx i)
  then show thesis using assms
    by (intro other) (auto simp: hook_step_def launch_wait_def set_pc_def facing_def awaiting_def fun_eq_iff split: if_splits)
next
  case (HReply ctx e)
  then obtain q where "respond h REQ_QUOTA (snd ctx) [ADouble (bits_of_double (pod_quota p - e))] p = Some q"
      "p' = set_pc h (HRecv (fst ctx)) q"
    using assms by (auto simp: hook_step_def launch_return_def bind_eq_Some_conv split: if_splits)
  then show thesis using HReply respond_facing
    by (intro other) (fastforce simp: set_pc_def facing_def awaiting_def fun_eq_iff)+
qed (use assms in \<open>auto simp: hook_step_def launch_check_def launch_update_def launch_claim_def launch_estimate_def launch_release_def
      set_pc_def facing_def Let_def
      awaiting_def fun_eq_iff split: if_splits intro!: other\<close>)

lemma pod_local_cases [consumes 1, case_names other ask answer send]:
  assumes "pod_local p p'"
  obtains (other) "facing p p'" "awaiting p' = awaiting p"
  | (ask) h st msg a b where
      "prepare_request (pod_env p) (pod_comm p) (replicate REQ_MSG_LEN 0) REQ_QUOTA [ADouble a, ADouble b] = Some (next_id (pod_comm p), st, msg)"
      "facing (p\<lparr>pod_comm := st, request_queue := request_queue p @ [(next_id (pod_comm p), msg)], issued := issued p + 1\<rparr>) p'"
      "awaiting p h = None" "awaiting p' = (awaiting p)(h \<mapsto> next_id (pod_comm p))"
  | (answer) h i data q pos where "awaiting p h = Some i" "response_map p i = Some data"
      "get_msg_data 8 word64 data 0 = Some (q, pos)"
      "facing (p\<lparr>pod_quota := double_of_bits q, quota_updated_tp := pod_clock p, response_map := (response_map p)(i := None)\<rparr>) p'"
      "awaiting p' = (awaiting p)(h := None)"
  | (send) m rest where "request_queue p = m # rest"
      "facing (p\<lparr>request_queue := rest, to_scheduler := to_scheduler p @ [snd m]\<rparr>) p'" "awaiting p' = awaiting p"
  using assms
proof cases
  case (local_accept h buf)
  then show thesis
    by (intro other) (auto simp: hook_connect_def set_pc_def facing_def awaiting_def fun_eq_iff)
next
  case (local_recv h buf data)
  then have f: "facing p p'" "\<exists>pc. hooks p' = (hooks p)(h := pc) \<and> (\<forall>c i. pc \<noteq> HAwait c i \<and> pc \<noteq> HBlocked c i)"
    using hook_message_facing by blast+
  have "awaiting p h = None" using local_recv by (simp add: awaiting_def)
  then show thesis using f awaiting_other by (intro other) blast+
next
  case (local_close h buf)
  then show thesis
    by (intro other) (auto simp: hook_disconnect_def set_pc_def facing_def awaiting_def fun_eq_iff)
next
  case (local_hook mv h)
  then show thesis using other ask answer by (cases rule: hook_step_cases) blast+
next
  case (local_send mv)
  show thesis
  proof (cases "sender p = SWait \<and> request_queue p \<noteq> []")
    case True
    then obtain m rest where "request_queue p = m # rest" by (cases "request_queue p") auto
    then show thesis using local_send True
      by (intro send [of m rest]) (auto simp: sender_step_def Let_def facing_def awaiting_def fun_eq_iff split: if_splits)
  next
    case False
    then show thesis using local_send
      by (intro other) (auto simp: sender_step_def Let_def facing_def awaiting_def fun_eq_iff split: if_splits sender_pc.splits list.splits)
  qed
qed

text \<open>Each step of the system is a step of every component, or none.\<close>

lemma sched_local_step: "crashed s = None \<Longrightarrow> sched_local s t \<Longrightarrow> sched_step s t"
  by (erule sched_local.cases) (auto intro: sched_step.intros)

lemma pod_local_step: "pod_local p p' \<Longrightarrow> pod_step p p'"
  by (erule pod_local.cases) (auto intro: pod_step.intros)

lemma daemon_step_clock:
  assumes "daemon_step mv s = Some (Inr t)" and "sched_inv s"
  shows "s_clock t = s_clock s"
  using assms by (cases rule: daemon_step_cases) simp_all

lemma sched_local_clock: "sched_local s t \<Longrightarrow> sched_inv s \<Longrightarrow> s_clock t = s_clock s"
  by (erule sched_local.cases) (auto simp: push_candidate_def Let_def daemon_step_clock)

lemma pod_local_env: "pod_local p p' \<Longrightarrow> pod_clock p' = pod_clock p \<and> pod_env p' = pod_env p"
  by (erule pod_local_cases) (simp_all add: facing_def)

lemma sized_requests_clock [simp]: "sized_requests (p\<lparr>pod_clock := t\<rparr>) = sized_requests p"
  by (simp add: sized_requests_def)

lemma sized_requests_local:
  assumes "pod_local p p'" and "sized_requests p"
  shows "sized_requests p'"
  using assms
proof (cases rule: pod_local_cases)
  case (ask h st msg a b)
  have "length msg = REQ_MSG_LEN" using prepare_request_length [OF ask(1)] by simp
  then show ?thesis using ask(2) assms(2) by (auto simp: sized_requests_def facing_def)
qed (use assms(2) in \<open>auto simp: sized_requests_def facing_def\<close>)

lemma receiver_step_cases:
  assumes "receiver_step msg p = Some p'"
  obtains i off data where "parse_response msg = Some (i, off)" "data = take (RSP_MSG_LEN - 4) (attached_data msg off)"
    "p' = p\<lparr>response_map := (if response_map p i = None then (response_map p)(i \<mapsto> data) else response_map p),
        rsp_signalled := {j. \<exists>c i. hooks p j = HBlocked c i}\<rparr>"
  using assms unfolding receiver_step_def by (cases "parse_response msg") (auto simp: Let_def)

lemma received_step:
  assumes "crashed s = None" and "conns s k = Receiving buf" and "length msg = REQ_MSG_LEN" and "length buf = REQ_MSG_LEN"
    and "handle_unlocked k msg s = Some (t, push)"
  shows "sched_step s (received k msg t push)"
proof -
  have "msg \<noteq> []" "msg @ drop (length msg) buf = msg" using assms(3,4) by (auto simp: REQ_MSG_LEN_def)
  then show ?thesis
    unfolding received_def using assms by (intro sched_step.recv [where buf = buf and data = msg]) simp_all
qed

text \<open>A pod manager that joins: the scheduler accepts its connection, answers the request for the limit, and
  the pod manager starts with an empty account.\<close>

lemma join_result:
  assumes "name = resolve_name env comm_init" and "c_safe name" and "length name \<le> 47"
    and "client_info_map s name \<noteq> None"
    and "retrieve_mem_info env comm_init (schd_exchange k) 5 (rbuf, s) = Some (Inr account, st, t)"
  obtains limit rsp where "account = fresh_account limit" "t = s\<lparr>sent := sent s @ [(k, rsp)]\<rparr>"
    "st = \<lparr>client_name = Some name, next_id = next_id comm_init + 1\<rparr>" "length (limit_message env comm_init) = REQ_MSG_LEN"
    "\<And>f. handle_unlocked k (limit_message env comm_init) (s\<lparr>conns := f\<rparr>) = Some (t\<lparr>conns := f\<rparr>, None)"
proof -
  obtain c where "client_info_map s name = Some c" using assms(4) by blast
  moreover have "c_safe (resolve_name env comm_init)" "length (resolve_name env comm_init) \<le> 63" "(0::int) < 5"
    using assms(1-3) by simp_all
  ultimately obtain rsp where "retrieve_mem_info env comm_init (schd_exchange k) 5 (rbuf, s) =
      Some (Inr (fresh_account (gpu_mem_limit c)), \<lparr>client_name = Some name, next_id = next_id comm_init + 1\<rparr>, s\<lparr>sent := sent s @ [(k, rsp)]\<rparr>)"
      "\<And>f. handle_unlocked k (limit_message env comm_init) (s\<lparr>conns := f\<rparr>) = Some (s\<lparr>conns := f, sent := sent s @ [(k, rsp)]\<rparr>, None)"
      "length (limit_message env comm_init) = REQ_MSG_LEN"
    using pod_learns_limit [of env comm_init 5 s c k rbuf] unfolding assms(1) by blast
  then show thesis using that [of "gpu_mem_limit c" rsp] assms(5) by simp
qed

lemma join_steps:
  assumes "crashed s = None" and "conns s k = NoConn" and "length msg = REQ_MSG_LEN"
    and "\<And>f. handle_unlocked k msg (s\<lparr>conns := f\<rparr>) = Some (s\<lparr>sent := sent s @ [(k, rsp)], conns := f\<rparr>, None)"
  shows "sched_step\<^sup>*\<^sup>* s (received k msg (s\<lparr>sent := sent s @ [(k, rsp)]\<rparr>) None)"
proof -
  let ?s = "s\<lparr>conns := (conns s)(k := Receiving msg)\<rparr>"
  have "sched_step s ?s" using assms(1-3) by (intro sched_step.accept) simp_all
  moreover have "handle_unlocked k msg ?s = Some (?s\<lparr>sent := sent s @ [(k, rsp)]\<rparr>, None)"
    using assms(4) [of "conns ?s"] by simp
  then have "sched_step ?s (received k msg (?s\<lparr>sent := sent s @ [(k, rsp)]\<rparr>) None)"
    by (rule received_step [rotated 4, where buf = msg]) (simp_all add: assms(1,3))
  moreover have "received k msg (?s\<lparr>sent := sent s @ [(k, rsp)]\<rparr>) None = received k msg (s\<lparr>sent := sent s @ [(k, rsp)]\<rparr>) None"
    by (simp add: received_def)
  ultimately show ?thesis by (simp add: converse_rtranclp_into_rtranclp [OF _ r_into_rtranclp])
qed

definition component_inv :: "gem_system \<Rightarrow> bool" where
  "component_inv g \<longleftrightarrow> reach sched_init sched_step (gs_sched g)
     \<and> (\<forall>k p. gs_pods g k = Some p \<longrightarrow> reach pod_init pod_step p \<and> pod_clock p = s_clock (gs_sched g) \<and> sized_requests p)"

lemma component_invD:
  assumes "component_inv g"
  shows "reach sched_init sched_step (gs_sched g)" and "full_inv (gs_sched g)" and "sched_inv (gs_sched g)"
    and "sized_responses (gs_sched g)"
    and "gs_pods g k = Some p \<Longrightarrow> reach pod_init pod_step p \<and> pod_clock p = s_clock (gs_sched g) \<and> sized_requests p \<and> pod_inv p"
  using assms sized.reach_inv [of "gs_sched g"] podm.reach_inv [of p] sched_inv_full by (auto simp: component_inv_def)

lemma reach_run: "reach init step s \<Longrightarrow> step\<^sup>*\<^sup>* s t \<Longrightarrow> reach init step t"
  by (rule reach_rtranclp)

lemma component_inv_sched:
  assumes "component_inv g" and "sched_step\<^sup>*\<^sup>* (gs_sched g) s" and "s_clock s = s_clock (gs_sched g)"
    and "gs_sched g' = s" and "gs_pods g' = gs_pods g"
  shows "component_inv g'"
  using assms reach_run unfolding component_inv_def by metis

lemma component_inv_pod:
  assumes "component_inv g" and "gs_pods g k = Some p" and "pod_step p p'" and "pod_clock p' = pod_clock p"
    and "sized_requests p'" and "gs_sched g' = gs_sched g" and "gs_pods g' = (gs_pods g)(k \<mapsto> p')"
  shows "component_inv g'"
  using assms by (auto simp: component_inv_def split: if_splits intro: reach_step)

lemma component_inv_step: "sys_step careful g g' \<Longrightarrow> component_inv g \<Longrightarrow> component_inv g'"
proof (induction rule: sys_step.induct)
  case (sys_tick g t)
  have "reach pod_init pod_step (p\<lparr>pod_clock := t\<rparr>)" if p: "gs_pods g k = Some p" for k p
  proof (rule reach_step)
    show "reach pod_init pod_step p" "pod_step p (p\<lparr>pod_clock := t\<rparr>)"
      using component_invD(5) [OF sys_tick(3) p] sys_tick(2) pod_step.pod_tick by simp_all
  qed
  moreover have "reach sched_init sched_step ((gs_sched g)\<lparr>s_clock := t\<rparr>)"
    using sys_tick component_invD(1) by (auto intro: reach_step sched_step.tick)
  ultimately show ?case
    using component_invD(5) [OF sys_tick(3)] by (auto simp: component_inv_def at_time_def)
next
  case (sys_sched g s)
  then have "sched_step\<^sup>*\<^sup>* (gs_sched g) s" "s_clock s = s_clock (gs_sched g)"
    using sched_local_step sched_local_clock component_invD(3) by blast+
  then show ?case using component_inv_sched [OF sys_sched(3)] by simp
next
  case (sys_pod g k p p')
  have "sized_requests p'" using sized_requests_local [OF sys_pod(2)] component_invD(5) [OF sys_pod(3,1)] by simp
  then show ?case
    using pod_local_step [OF sys_pod(2)] pod_local_env [OF sys_pod(2)]
    by (intro component_inv_pod [OF sys_pod(3,1)]) (simp_all add: set_pod_def)
next
  case (sys_join g k name ev rbuf account st s)
  obtain limit rsp where j: "account = fresh_account limit" "s = (gs_sched g)\<lparr>sent := sent (gs_sched g) @ [(k, rsp)]\<rparr>"
      "length (limit_message (pod_env_of ev) comm_init) = REQ_MSG_LEN"
      "\<And>f. handle_unlocked k (limit_message (pod_env_of ev) comm_init) ((gs_sched g)\<lparr>conns := f\<rparr>) = Some (s\<lparr>conns := f\<rparr>, None)"
    using join_result [OF sys_join(5-9)] by metis
  let ?s = "received k (limit_message (pod_env_of ev) comm_init) s None"
  have "sched_step\<^sup>*\<^sup>* (gs_sched g) ?s"
    using join_steps [OF sys_join(2,3) j(3)] j(4) unfolding j(2) by blast
  then have "reach sched_init sched_step ?s" by (rule reach_run [OF component_invD(1) [OF sys_join(10)]])
  moreover have "reach pod_init pod_step (started_pod ev st account (s_clock s))"
    unfolding j(1) by (intro reach_init started_pod_init)
  ultimately show ?case
    using component_invD(5) [OF sys_join(10)]
    by (auto simp: component_inv_def j(2) received_def started_pod_def sized_requests_def)
next
  case (sys_up g k p buf msg rest s push)
  have "msg \<in> set (to_scheduler p)" using sys_up(4) by (metis requests_under_way_def in_set_dropD list.set_intros(1))
  then have "length msg = REQ_MSG_LEN" using component_invD(5) [OF sys_up(6,1)] by (simp add: sized_requests_def)
  moreover have "length buf = REQ_MSG_LEN" using component_invD(4) [OF sys_up(6)] sys_up(3) by (auto simp: sized_responses_def)
  ultimately have "sched_step (gs_sched g) (received k msg s push)" using received_step [OF sys_up(2,3)] sys_up(5) by blast
  then have "sched_step\<^sup>*\<^sup>* (gs_sched g) (received k msg s push)" by blast
  moreover have "s_clock (received k msg s push) = s_clock (gs_sched g)"
    using handle_unlocked_frame(7) [OF sys_up(5)] by (simp add: received_def)
  ultimately show ?case using component_inv_sched [OF sys_up(6)] by simp
next
  case (sys_up_bad g k p buf msg rest)
  have "msg \<in> set (to_scheduler p)" using sys_up_bad(4) by (metis requests_under_way_def in_set_dropD list.set_intros(1))
  then have "length msg = REQ_MSG_LEN" using component_invD(5) [OF sys_up_bad(6,1)] by (simp add: sized_requests_def)
  moreover have "length buf = REQ_MSG_LEN" using component_invD(4) [OF sys_up_bad(6)] sys_up_bad(3) by (auto simp: sized_responses_def)
  ultimately have m: "msg \<noteq> []" "length msg \<le> REQ_MSG_LEN" and "msg @ drop (length msg) buf = msg"
    by (auto simp: REQ_MSG_LEN_def)
  then have "handle_unlocked k (msg @ drop (length msg) buf) (gs_sched g) = None" using sys_up_bad(5) by (simp only:)
  then have "sched_step (gs_sched g) ((gs_sched g)\<lparr>crashed := Some MessageBounds\<rparr>)"
    by (rule sched_step.recv_bad [OF sys_up_bad(2,3) m])
  then have "sched_step\<^sup>*\<^sup>* (gs_sched g) ((gs_sched g)\<lparr>crashed := Some MessageBounds\<rparr>)" by blast
  then show ?case using component_inv_sched [OF sys_up_bad(6)] by simp
next
  case (sys_down g k p msg rest p')
  have "msg \<in> set (sent_to k (gs_sched g))" using sys_down(2) by (metis responses_under_way_def in_set_dropD list.set_intros(1))
  then have "length msg = RSP_MSG_LEN" using component_invD(4) [OF sys_down(4)] by (auto simp: sent_to_def sized_responses_def)
  then have "pod_step p p'" using sys_down(3) by (intro pod_step.pod_response)
  moreover have "pod_clock p' = pod_clock p" "sized_requests p'"
    by (rule receiver_step_cases [OF sys_down(3)], use component_invD(5) [OF sys_down(4,1)] in \<open>simp add: sized_requests_def\<close>)+
  ultimately show ?case by (intro component_inv_pod [OF sys_down(4,1)]) (simp_all add: set_pod_def)
next
  case (sys_leave g k p buf)
  then have "reach sched_init sched_step ((gs_sched g)\<lparr>conns := (conns (gs_sched g))(k := NoConn)\<rparr>)"
    using component_invD(1) [OF sys_leave(4)] sched_step.disconnect [OF sys_leave(2,3)] reach_step by metis
  then show ?case using sys_leave(4) by (auto simp: component_inv_def)
qed

lemma component_inv_init: "sys_init g \<Longrightarrow> component_inv g"
  by (simp add: sys_init_def component_inv_def reach_init)

interpretation component: inductive_invariant sys_init "sys_step careful" component_inv for careful
  by unfold_locales (rule component_inv_init component_inv_step; assumption)+

lemma pod_run:
  assumes "pod_local\<^sup>*\<^sup>* p p'" and "gs_pods g k = Some p"
  shows "(sys_step careful)\<^sup>*\<^sup>* g (set_pod k p' g)"
  using assms
proof (induction rule: rtranclp_induct)
  case base
  then have "set_pod k p g = g" by (simp add: set_pod_def fun_upd_idem)
  then show ?case by simp
next
  case (step q r)
  have "sys_step careful (set_pod k q g) (set_pod k r (set_pod k q g))"
    by (rule sys_pod [OF _ step(2)]) (simp add: set_pod_def)
  moreover have "set_pod k r (set_pod k q g) = set_pod k r g" by (simp add: set_pod_def)
  ultimately show ?case using step(3) [OF step(4)] by (simp add: rtranclp.rtrancl_into_rtrancl)
qed

end
