(* ===== verification/Gem_Delivery.thy ===== *)
theory Gem_Delivery
  imports Gem_System
begin

text \<open>
  What the connections of the system carry: the invariant of one connection between the scheduler and a pod manager. Every request
  a thread of the pod manager waits for is in exactly one place: in the queue, under way, at the
  scheduler, on the way back, or in the response map; every quota on its way belongs to a grant made for it.
\<close>

section \<open>Requests and grants as messages\<close>

definition request_for :: "string \<Rightarrow> int32 \<Rightarrow> byte list \<Rightarrow> bool" where
  "request_for name i msg \<longleftrightarrow> (\<exists>att a b. carries msg name i REQ_QUOTA att
     \<and> get_msg_data 8 word64 att 0 = Some (a, 8) \<and> get_msg_data 8 word64 att 8 = Some (b, 16))"

definition req_id_of :: "byte list \<Rightarrow> int32" where
  "req_id_of msg = (case parse_request msg of Some pr \<Rightarrow> pr_id pr | None \<Rightarrow> 0)"

definition rsp_id_of :: "byte list \<Rightarrow> int32" where
  "rsp_id_of msg = (case parse_response msg of Some (i, _) \<Rightarrow> i | None \<Rightarrow> 0)"

lemma request_for_id: "request_for name i msg \<Longrightarrow> req_id_of msg = i"
  by (auto simp: request_for_def carries_def req_id_of_def)

text \<open>The scheduler has granted a quota to a client for a request that came on a connection.\<close>

definition granted_to :: "sockfd \<Rightarrow> string \<Rightarrow> int32 \<Rightarrow> double \<Rightarrow> timepoint \<Rightarrow> sched_state \<Rightarrow> bool" where
  "granted_to k name i q t s \<longleftrightarrow> t \<le> s_clock s
     \<and> (\<exists>c. Granted c q t \<in> set (s_log s) \<and> cand_socket c = k \<and> cand_name c = name \<and> cand_req_id c = i)"

definition holds_grant :: "sockfd \<Rightarrow> string \<Rightarrow> int32 \<Rightarrow> byte list \<Rightarrow> sched_state \<Rightarrow> bool" where
  "holds_grant k name i data s \<longleftrightarrow> (\<exists>q t pos. granted_to k name i q t s \<and> get_msg_data 8 word64 data 0 = Some (bits_of_double q, pos))"

definition grant_msg :: "sockfd \<Rightarrow> string \<Rightarrow> byte list \<Rightarrow> sched_state \<Rightarrow> bool" where
  "grant_msg k name msg s \<longleftrightarrow> length msg = RSP_MSG_LEN
     \<and> (\<exists>i off. parse_response msg = Some (i, off) \<and> holds_grant k name i (attached_data msg off) s)"

text \<open>The scheduler's memory grows: its log, its clients and its clock.\<close>

definition grows :: "sched_state \<Rightarrow> sched_state \<Rightarrow> bool" where
  "grows s t \<longleftrightarrow> set (s_log s) \<subseteq> set (s_log t) \<and> s_clock s \<le> s_clock t
     \<and> (\<forall>n. client_info_map s n \<noteq> None \<longrightarrow> client_info_map t n \<noteq> None)"

lemma grows_mono:
  assumes "grows s t"
  shows "granted_to k n i q u s \<Longrightarrow> granted_to k n i q u t" and "holds_grant k n i d s \<Longrightarrow> holds_grant k n i d t"
    and "grant_msg k n m s \<Longrightarrow> grant_msg k n m t"
proof -
  show g: "granted_to k n i q u s \<Longrightarrow> granted_to k n i q u t" for i q u
    using assms by (auto simp: grows_def granted_to_def)
  show h: "holds_grant k n i d s \<Longrightarrow> holds_grant k n i d t" for i d
    using g unfolding holds_grant_def by blast
  show "grant_msg k n m s \<Longrightarrow> grant_msg k n m t"
    using h unfolding grant_msg_def by blast
qed

section \<open>The requests at the scheduler\<close>

definition pushing_ids :: "sockfd \<Rightarrow> sched_state \<Rightarrow> int32 multiset" where
  "pushing_ids k s = (case conns s k of Pushing _ _ r \<Rightarrow> {#r#} | _ \<Rightarrow> {#})"

definition waiting_ids :: "sockfd \<Rightarrow> sched_state \<Rightarrow> int32 multiset" where
  "waiting_ids k s = image_mset cand_req_id (filter_mset (\<lambda>c. cand_socket c = k) (mset (candidates s)))"

definition sending_ids :: "sockfd \<Rightarrow> sched_state \<Rightarrow> int32 multiset" where
  "sending_ids k s = (case daemon s of DSend c _ \<Rightarrow> if cand_socket c = k then {#cand_req_id c#} else {#} | _ \<Rightarrow> {#})"

definition at_sched :: "sockfd \<Rightarrow> sched_state \<Rightarrow> int32 multiset" where
  "at_sched k s = pushing_ids k s + waiting_ids k s + sending_ids k s"

lemmas at_sched_defs = at_sched_def pushing_ids_def waiting_ids_def sending_ids_def

text \<open>All requests that came on a connection are in the name of one client.\<close>

definition named_link :: "sockfd \<Rightarrow> string \<Rightarrow> sched_state \<Rightarrow> bool" where
  "named_link k n s \<longleftrightarrow> (\<forall>buf m r. conns s k = Pushing buf m r \<longrightarrow> m = n)
     \<and> (\<forall>c\<in>set (candidates s). cand_socket c = k \<longrightarrow> cand_name c = n)
     \<and> (\<forall>c q. daemon s = DSend c q \<longrightarrow> cand_socket c = k \<longrightarrow> cand_name c = n)"

text \<open>A connection does not notice a step of the scheduler.\<close>

definition unnoticed :: "sockfd \<Rightarrow> sched_state \<Rightarrow> sched_state \<Rightarrow> bool" where
  "unnoticed k s t \<longleftrightarrow> grows s t \<and> (conns t k = NoConn \<longrightarrow> conns s k = NoConn) \<and> sent_to k t = sent_to k s
     \<and> at_sched k t = at_sched k s \<and> (\<forall>n. named_link k n s \<longrightarrow> named_link k n t)"

lemma push_unnoticed:
  assumes "conns s j = Pushing buf n r"
  shows "unnoticed k s ((push_candidate j n r s)\<lparr>conns := (conns s)(j := Receiving buf)\<rparr>)"
  using assms
  by (auto simp: unnoticed_def grows_def push_candidate_def Let_def sent_to_def at_sched_defs named_link_def split: daemon_pc.splits)

lemma reload_unnoticed:
  assumes "handle_events files dir fname cfg evs (client_info_map s) = Inr m"
  shows "unnoticed k s (s\<lparr>client_info_map := m\<rparr>)"
  using handle_events_keeps [OF assms]
  by (auto simp: unnoticed_def grows_def sent_to_def at_sched_defs named_link_def)

lemma tick_unnoticed: "s_clock s \<le> t \<Longrightarrow> unnoticed k s (s\<lparr>s_clock := t\<rparr>)"
  by (auto simp: unnoticed_def grows_def sent_to_def at_sched_defs named_link_def)

lemma grant_ids:
  assumes "mset (candidates s) = add_mset c (mset (candidates t))" and "daemon t = DSend c q"
    and "\<forall>c q. daemon s \<noteq> DSend c q" and "conns t = conns s"
  shows "at_sched k t = at_sched k s"
  using assms by (auto simp: at_sched_defs split: daemon_pc.splits conn_pc.splits)

lemma grant_named:
  assumes "mset (candidates s) = add_mset c (mset (candidates t))" and "daemon t = DSend c q" and "conns t = conns s"
    and "named_link k n s"
  shows "named_link k n t"
  using assms set_of_grant [OF assms(1)] unfolding named_link_def by auto

text \<open>A move of the daemon: either no connection notices it, or it sends a grant.\<close>

lemma daemon_move:
  assumes "daemon_step mv s = Some (Inr t)" and "sched_inv s"
  shows "(\<forall>k. unnoticed k s t) \<or> (\<exists>c q buf. daemon s = DSend c q
    \<and> prepare_response (replicate RSP_MSG_LEN 0) REQ_QUOTA (cand_req_id c) [ADouble (bits_of_double q)] = Some (buf, 12)
    \<and> t = s\<lparr>sent := sent s @ [(cand_socket c, buf)], daemon := DRelock c (get_timespec_after q (s_clock s))\<rparr>)"
  using assms
proof (cases rule: daemon_step_cases)
  case (grant hist c rest ci q ci')
  have m: "mset (candidates s) = add_mset c (mset (candidates t))" "daemon t = DSend c q" "conns t = conns s"
    using grant by auto
  have "at_sched k t = at_sched k s" for k using grant(1) by (intro grant_ids [OF m(1,2) _ m(3)]) auto
  moreover have "named_link k n s \<longrightarrow> named_link k n t" for k n using grant_named [OF m] by blast
  moreover have "grows s t" "sent_to k t = sent_to k s" for k using grant by (auto simp: grows_def sent_to_def)
  ultimately show ?thesis using m(3) by (simp add: unnoticed_def)
next
  case (send c q buf)
  then show ?thesis by auto
qed (auto simp: unnoticed_def grows_def sent_to_def at_sched_defs named_link_def)

section \<open>The invariant of a connection\<close>

definition travelling :: "sockfd \<Rightarrow> pod_state \<Rightarrow> gem_system \<Rightarrow> int32 multiset" where
  "travelling k p g = mset (map fst (request_queue p)) + mset (map req_id_of (requests_under_way k p g))
     + at_sched k (gs_sched g) + mset (map rsp_id_of (responses_under_way k g))"

definition asked :: "pod_state \<Rightarrow> int32 \<Rightarrow> bool" where
  "asked p i \<longleftrightarrow> (\<exists>h. awaiting p h = Some i)"

text \<open>Holds in both environments.\<close>

definition link_base :: "sockfd \<Rightarrow> pod_state \<Rightarrow> gem_system \<Rightarrow> bool" where
  "link_base k p g \<longleftrightarrow> c_safe (pod_name p) \<and> client_info_map (gs_sched g) (pod_name p) \<noteq> None
     \<and> conns (gs_sched g) k \<noteq> NoConn
     \<and> (\<forall>m\<in>set (request_queue p). request_for (pod_name p) (fst m) (snd m))
     \<and> (\<forall>m\<in>set (to_scheduler p). request_for (pod_name p) (req_id_of m) m)"

text \<open>Holds when descriptors are given away carefully.\<close>

definition link_sound :: "sockfd \<Rightarrow> pod_state \<Rightarrow> gem_system \<Rightarrow> bool" where
  "link_sound k p g \<longleftrightarrow> named_link k (pod_name p) (gs_sched g) \<and> gs_down g k \<le> length (sent_to k (gs_sched g))
     \<and> gs_up g k \<le> length (to_scheduler p)
     \<and> (\<forall>m\<in>set (responses_under_way k g). grant_msg k (pod_name p) m (gs_sched g))
     \<and> (\<forall>i d. response_map p i = Some d \<longrightarrow> holds_grant k (pod_name p) i d (gs_sched g))
     \<and> (pod_quota p = 0 \<or> (\<exists>i q t. granted_to k (pod_name p) i q t (gs_sched g)
          \<and> pod_quota p = double_of_bits (bits_of_double q) \<and> t \<le> quota_updated_tp p))
     \<and> (issued p \<le> 2 ^ 32 \<longrightarrow> (\<forall>i. count (travelling k p g) i + of_bool (response_map p i \<noteq> None) = of_bool (asked p i)))"

definition link_inv :: "bool \<Rightarrow> sockfd \<Rightarrow> pod_state \<Rightarrow> gem_system \<Rightarrow> bool" where
  "link_inv careful k p g \<longleftrightarrow> link_base k p g \<and> (careful \<longrightarrow> link_sound k p g)"

lemma link_soundD:
  assumes "link_sound k p g"
  shows "named_link k (pod_name p) (gs_sched g)" and "gs_down g k \<le> length (sent_to k (gs_sched g))"
    and "gs_up g k \<le> length (to_scheduler p)"
    and "m \<in> set (responses_under_way k g) \<Longrightarrow> grant_msg k (pod_name p) m (gs_sched g)"
    and "response_map p i = Some d \<Longrightarrow> holds_grant k (pod_name p) i d (gs_sched g)"
    and "pod_quota p = 0 \<or> (\<exists>i q t. granted_to k (pod_name p) i q t (gs_sched g)
          \<and> pod_quota p = double_of_bits (bits_of_double q) \<and> t \<le> quota_updated_tp p)"
    and "issued p \<le> 2 ^ 32 \<Longrightarrow> count (travelling k p g) i + of_bool (response_map p i \<noteq> None) = of_bool (asked p i)"
  using assms unfolding link_sound_def by blast+

text \<open>A connection that does not notice a step of the scheduler.\<close>

lemma link_unnoticed:
  assumes "link_inv careful k p g" and "unnoticed k (gs_sched g) (gs_sched g')"
    and "gs_up g' k = gs_up g k" and "gs_down g' k = gs_down g k"
  shows "link_inv careful k p g'"
proof -
  note u = assms(2) [unfolded unnoticed_def]
  have "grows (gs_sched g) (gs_sched g')" using u by blast
  note mono = grows_mono [OF this]
  have same: "requests_under_way k p g' = requests_under_way k p g" "responses_under_way k g' = responses_under_way k g"
      "travelling k p g' = travelling k p g"
    using u assms(3,4) by (simp_all add: requests_under_way_def responses_under_way_def travelling_def)
  have "link_base k p g'" using assms(1) u by (auto simp: link_inv_def link_base_def grows_def)
  moreover have "link_sound k p g'" if "link_sound k p g"
    unfolding link_sound_def same assms(3,4)
  proof (intro conjI)
    show "named_link k (pod_name p) (gs_sched g')" using link_soundD(1) [OF that] u by blast
    show "gs_down g k \<le> length (sent_to k (gs_sched g'))" using link_soundD(2) [OF that] u by simp
    show "gs_up g k \<le> length (to_scheduler p)" using link_soundD(3) [OF that] .
    show "\<forall>m\<in>set (responses_under_way k g). grant_msg k (pod_name p) m (gs_sched g')"
      using link_soundD(4) [OF that] mono(3) by blast
    show "\<forall>i d. response_map p i = Some d \<longrightarrow> holds_grant k (pod_name p) i d (gs_sched g')"
      using link_soundD(5) [OF that] mono(2) by blast
    show "pod_quota p = 0 \<or> (\<exists>i q t. granted_to k (pod_name p) i q t (gs_sched g')
          \<and> pod_quota p = double_of_bits (bits_of_double q) \<and> t \<le> quota_updated_tp p)"
      using link_soundD(6) [OF that] mono(1) by blast
    show "issued p \<le> 2 ^ 32 \<longrightarrow> (\<forall>i. count (travelling k p g) i + of_bool (response_map p i \<noteq> None) = of_bool (asked p i))"
      using link_soundD(7) [OF that] by blast
  qed
  ultimately show ?thesis using assms(1) by (simp add: link_inv_def)
qed

text \<open>A step that changes only the pod manager's state that does not face the scheduler.\<close>

lemma facing_name: "facing p p' \<Longrightarrow> pod_name p' = pod_name p"
  by (simp add: facing_def pod_name_def)

lemma link_other:
  assumes "link_inv careful k p g" and "facing p p'" and "awaiting p' = awaiting p"
    and "gs_sched g' = gs_sched g" and "gs_up g' = gs_up g" and "gs_down g' = gs_down g"
  shows "link_inv careful k p' g'"
proof -
  have same: "pod_name p' = pod_name p" "requests_under_way k p' g' = requests_under_way k p g"
      "responses_under_way k g' = responses_under_way k g" "travelling k p' g' = travelling k p g" "asked p' = asked p"
      "request_queue p' = request_queue p" "to_scheduler p' = to_scheduler p" "response_map p' = response_map p"
      "pod_quota p' = pod_quota p" "quota_updated_tp p' = quota_updated_tp p" "issued p' = issued p"
    using assms(2-6) facing_name
    by (auto simp: facing_def requests_under_way_def responses_under_way_def travelling_def asked_def fun_eq_iff)
  show ?thesis
    using assms(1) unfolding link_inv_def link_base_def link_sound_def same assms(4-6) .
qed

section \<open>Steps of the pod manager\<close>

lemma next_id_fresh:
  assumes "pod_inv p" and "issued p < 2 ^ 32"
  shows "\<not> asked p (next_id (pod_comm p))"
proof
  assume "asked p (next_id (pod_comm p))"
  then obtain h where h: "awaiting p h = Some (next_id (pod_comm p))" by (auto simp: asked_def)
  obtain base where "id_inv base p" using assms by (auto simp: pod_inv_def)
  then obtain j where "j < issued p" "next_id (pod_comm p) = base + word_of_nat j"
      "next_id (pod_comm p) = base + word_of_nat (issued p)"
    using h unfolding id_inv_def by blast
  moreover from calculation have "(word_of_nat j :: int32) = word_of_nat (issued p)" by simp
  ultimately show False using word32_of_nat_inj [of j "issued p"] assms(2) by simp
qed

lemma asked_once:
  assumes "pod_inv p" and "issued p \<le> 2 ^ 32" and "awaiting p h = Some i" and "awaiting p h' = Some i"
  shows "h' = h"
  using assms by (auto simp: pod_inv_def id_inv_def)

lemma link_ask:
  assumes link: "link_inv careful k p g" and inv: "pod_inv p"
    and prep: "prepare_request (pod_env p) (pod_comm p) (replicate REQ_MSG_LEN 0) REQ_QUOTA [ADouble a, ADouble b] = Some (next_id (pod_comm p), st, msg)"
    and face: "facing (p\<lparr>pod_comm := st, request_queue := request_queue p @ [(next_id (pod_comm p), msg)], issued := issued p + 1\<rparr>) p'"
    and aw: "awaiting p h = None" "awaiting p' = (awaiting p)(h \<mapsto> next_id (pod_comm p))"
    and same: "gs_sched g' = gs_sched g" "gs_up g' = gs_up g" "gs_down g' = gs_down g"
  shows "link_inv careful k p' g'"
proof -
  let ?i = "next_id (pod_comm p)"
  have "c_safe (resolve_name (pod_env p) (pod_comm p))" using link by (simp add: link_inv_def link_base_def pod_name_def)
  note q = prepared_quota_request [OF prep this]
  have req: "request_for (pod_name p) ?i msg" using q(1) by (auto simp: request_for_def pod_name_def)
  have name: "pod_name p' = pod_name p" using face q(4) by (simp add: facing_def pod_name_def resolve_name_def)
  have sel: "requests_under_way k p' g' = requests_under_way k p g" "responses_under_way k g' = responses_under_way k g"
      "request_queue p' = request_queue p @ [(?i, msg)]" "to_scheduler p' = to_scheduler p" "response_map p' = response_map p"
      "pod_quota p' = pod_quota p" "quota_updated_tp p' = quota_updated_tp p" "issued p' = issued p + 1"
    using face same by (simp_all add: facing_def requests_under_way_def responses_under_way_def)
  have asked: "asked p' j \<longleftrightarrow> asked p j \<or> j = ?i" for j
    unfolding asked_def aw(2) fun_upd_apply using aw(1) by (metis option.distinct(1) option.inject)
  have "link_base k p' g'"
    using link req by (auto simp: link_inv_def link_base_def name sel same)
  moreover have "link_sound k p' g'" if "link_sound k p g"
  proof -
    have "count (travelling k p' g') j + of_bool (response_map p' j \<noteq> None) = of_bool (asked p' j)" if le: "issued p' \<le> 2 ^ 32" for j
    proof -
      have t: "travelling k p' g' = add_mset ?i (travelling k p g)" by (simp add: travelling_def sel same)
      have "\<not> asked p ?i" using next_id_fresh [OF inv] le sel by simp
      then show ?thesis
        using link_soundD(7) [OF \<open>link_sound k p g\<close>, of j] le sel by (auto simp: t asked)
    qed
    then show ?thesis using that unfolding link_sound_def name sel(1,2,4-7) same by blast
  qed
  ultimately show ?thesis using link by (simp add: link_inv_def)
qed

lemma link_answer:
  assumes link: "link_inv careful k p g" and inv: "pod_inv p" and clock: "pod_clock p = s_clock (gs_sched g)"
    and aw: "awaiting p h = Some i" "awaiting p' = (awaiting p)(h := None)"
    and data: "response_map p i = Some data" "get_msg_data 8 word64 data 0 = Some (q, pos)"
    and face: "facing (p\<lparr>pod_quota := double_of_bits q, quota_updated_tp := pod_clock p, response_map := (response_map p)(i := None)\<rparr>) p'"
    and same: "gs_sched g' = gs_sched g" "gs_up g' = gs_up g" "gs_down g' = gs_down g"
  shows "link_inv careful k p' g'"
proof -
  have sel: "pod_name p' = pod_name p" "requests_under_way k p' g' = requests_under_way k p g"
      "responses_under_way k g' = responses_under_way k g" "travelling k p' g' = travelling k p g"
      "request_queue p' = request_queue p" "to_scheduler p' = to_scheduler p" "response_map p' = (response_map p)(i := None)"
      "pod_quota p' = double_of_bits q" "quota_updated_tp p' = s_clock (gs_sched g)" "issued p' = issued p"
    using face same clock
    by (simp_all add: facing_def requests_under_way_def responses_under_way_def pod_name_def travelling_def)
  have "link_base k p' g'" using link unfolding link_inv_def link_base_def sel same by blast
  moreover have "link_sound k p' g'" if sound: "link_sound k p g"
  proof -
    have gone: "asked p' j \<longleftrightarrow> asked p j \<and> j \<noteq> i" if "issued p \<le> 2 ^ 32" for j
      unfolding asked_def aw(2) fun_upd_apply using asked_once [OF inv that aw(1)] aw(1)
      by (metis option.distinct(1) option.inject)
    have "asked p i" using aw(1) by (auto simp: asked_def)
    then have "count (travelling k p' g') j + of_bool (response_map p' j \<noteq> None) = of_bool (asked p' j)" if "issued p' \<le> 2 ^ 32" for j
      using link_soundD(7) [OF sound, of j] gone [of j] that data(1) by (cases "j = i") (simp_all add: sel)
    moreover have "\<exists>i q' t. granted_to k (pod_name p) i q' t (gs_sched g) \<and> double_of_bits q = double_of_bits (bits_of_double q') \<and> t \<le> s_clock (gs_sched g)"
      using link_soundD(5) [OF sound data(1)] data(2) by (auto simp: holds_grant_def granted_to_def)
    ultimately show ?thesis using sound unfolding link_sound_def sel same by auto
  qed
  ultimately show ?thesis using link by (simp add: link_inv_def)
qed

lemma link_send:
  assumes link: "link_inv careful k p g" and queue: "request_queue p = m # rest"
    and face: "facing (p\<lparr>request_queue := rest, to_scheduler := to_scheduler p @ [snd m]\<rparr>) p'"
    and aw: "awaiting p' = awaiting p"
    and same: "gs_sched g' = gs_sched g" "gs_up g' = gs_up g" "gs_down g' = gs_down g"
  shows "link_inv careful k p' g'"
proof -
  have sel: "pod_name p' = pod_name p" "responses_under_way k g' = responses_under_way k g" "request_queue p' = rest"
      "to_scheduler p' = to_scheduler p @ [snd m]" "response_map p' = response_map p" "pod_quota p' = pod_quota p"
      "quota_updated_tp p' = quota_updated_tp p" "issued p' = issued p" "asked p' = asked p"
    using face same aw by (auto simp: facing_def responses_under_way_def pod_name_def asked_def fun_eq_iff)
  have req: "request_for (pod_name p) (fst m) (snd m)" using link queue by (simp add: link_inv_def link_base_def)
  then have id: "req_id_of (snd m) = fst m" by (rule request_for_id)
  have "link_base k p' g'" using link req by (auto simp: link_inv_def link_base_def sel same queue id)
  moreover have "link_sound k p' g'" if sound: "link_sound k p g"
  proof -
    have "requests_under_way k p' g' = requests_under_way k p g @ [snd m]"
      using link_soundD(3) [OF sound] by (simp add: requests_under_way_def sel same)
    then have "travelling k p' g' = travelling k p g" by (simp add: travelling_def sel same queue id)
    then show ?thesis using sound unfolding link_sound_def sel same by auto
  qed
  ultimately show ?thesis using link by (simp add: link_inv_def)
qed

lemma link_pod_local:
  assumes "link_inv careful k p g" and "pod_inv p" and "pod_clock p = s_clock (gs_sched g)" and "pod_local p p'"
  shows "link_inv careful k p' (set_pod k p' g)"
  using assms(4)
proof (cases rule: pod_local_cases)
  case other
  then show ?thesis using link_other [OF assms(1)] by (simp add: set_pod_def)
next
  case (ask h st msg a b)
  then show ?thesis using link_ask [OF assms(1,2)] by (simp add: set_pod_def)
next
  case (answer h i data q pos)
  show ?thesis by (rule link_answer [OF assms(1-3) answer(1,5,2,3,4)]) (simp_all add: set_pod_def)
next
  case (send m rest)
  show ?thesis by (rule link_send [OF assms(1) send]) (simp_all add: set_pod_def)
qed

section \<open>A request arrives\<close>

text \<open>The scheduler takes every request of a pod manager; nothing else changes.\<close>

lemma up_understood:
  assumes "link_base k p g" and "msg \<in> set (to_scheduler p)"
  obtains att a b c c' h where "carries msg (pod_name p) (req_id_of msg) REQ_QUOTA att"
    "get_msg_data 8 word64 att 0 = Some (a, 8)" "get_msg_data 8 word64 att 8 = Some (b, 16)"
    "client_info_map (gs_sched g) (pod_name p) = Some c"
    "update_return_time (ms_since_start (gs_sched g)) (double_of_bits a) c (history_list (gs_sched g)) = (c', h)"
    "handle_unlocked k msg (gs_sched g) =
      Some ((gs_sched g)\<lparr>client_info_map := (client_info_map (gs_sched g))(pod_name p \<mapsto> set_burst (double_of_bits b) c'), history_list := h\<rparr>,
        Some (pod_name p, req_id_of msg))"
proof -
  obtain att a b where "carries msg (pod_name p) (req_id_of msg) REQ_QUOTA att" "get_msg_data 8 word64 att 0 = Some (a, 8)"
      "get_msg_data 8 word64 att 8 = Some (b, 16)"
    using assms unfolding link_base_def request_for_def by blast
  moreover obtain c where c: "client_info_map (gs_sched g) (pod_name p) = Some c" using assms(1) by (auto simp: link_base_def)
  moreover obtain c' h where h: "update_return_time (ms_since_start (gs_sched g)) (double_of_bits a) c (history_list (gs_sched g)) = (c', h)"
    by (rule prod.exhaust)
  ultimately show thesis using handle_unlocked_quota [of msg "pod_name p" "req_id_of msg" att a b "gs_sched g" c k] by (intro that) simp_all
qed

lemma up_handled:
  assumes "link_base k p g" and "msg \<in> set (to_scheduler p)"
  obtains m h where "handle_unlocked k msg (gs_sched g) =
      Some ((gs_sched g)\<lparr>client_info_map := m, history_list := h\<rparr>, Some (pod_name p, req_id_of msg))"
    "\<forall>n. client_info_map (gs_sched g) n \<noteq> None \<longrightarrow> m n \<noteq> None"
proof (rule up_understood [OF assms])
  fix att a b c c' h
  assume "handle_unlocked k msg (gs_sched g) =
      Some ((gs_sched g)\<lparr>client_info_map := (client_info_map (gs_sched g))(pod_name p \<mapsto> set_burst (double_of_bits b) c'), history_list := h\<rparr>,
        Some (pod_name p, req_id_of msg))"
  then show thesis by (rule that) simp
qed

lemma received_other:
  assumes "s' = s\<lparr>client_info_map := m, history_list := h\<rparr>" and "\<forall>n. client_info_map s n \<noteq> None \<longrightarrow> m n \<noteq> None" and "j \<noteq> k"
  shows "unnoticed j s (received k msg s' push)"
  using assms by (simp add: unnoticed_def grows_def received_def sent_to_def at_sched_defs named_link_def)

lemma link_up:
  assumes link: "link_inv careful k p g" and way: "requests_under_way k p g = msg # rest"
    and conn: "conns (gs_sched g) k = Receiving buf"
    and s: "s = (gs_sched g)\<lparr>client_info_map := m, history_list := h\<rparr>"
      "\<forall>n. client_info_map (gs_sched g) n \<noteq> None \<longrightarrow> m n \<noteq> None"
    and g': "gs_sched g' = received k msg s (Some (pod_name p, req_id_of msg))" "gs_up g' k = Suc (gs_up g k)" "gs_down g' k = gs_down g k"
  shows "link_inv careful k p g'"
proof -
  let ?t = "received k msg s (Some (pod_name p, req_id_of msg))"
  have t: "grows (gs_sched g) ?t" "sent_to k ?t = sent_to k (gs_sched g)" "at_sched k ?t = add_mset (req_id_of msg) (at_sched k (gs_sched g))"
      "conns ?t k \<noteq> NoConn" "named_link k (pod_name p) (gs_sched g) \<Longrightarrow> named_link k (pod_name p) ?t"
    using s conn by (simp_all add: grows_def received_def sent_to_def at_sched_defs named_link_def)
  note mono = grows_mono [OF t(1)]
  have up: "gs_up g k < length (to_scheduler p)" "requests_under_way k p g' = rest"
    using way g'(2) by (simp_all add: requests_under_way_def drop_Suc flip: tl_drop) (metis drop_all list.distinct(1) not_le)
  have down: "responses_under_way k g' = responses_under_way k g" using g' t(2) by (simp add: responses_under_way_def)
  have "link_base k p g'" using link t(1,4) by (auto simp: link_inv_def link_base_def g' grows_def)
  moreover have "link_sound k p g'" if sound: "link_sound k p g"
  proof -
    have same: "travelling k p g' = travelling k p g" by (simp add: travelling_def up down g' t(3) way)
    show ?thesis
      using link_soundD [OF sound] t(2,5) up(1) mono
      unfolding link_sound_def same down g' by (metis Suc_leI)
  qed
  ultimately show ?thesis using link by (simp add: link_inv_def)
qed

section \<open>A grant is sent and arrives\<close>

lemma latest_grant_logged: "latest_grant l = Some (c, q, t) \<Longrightarrow> Granted c q t \<in> set l"
  by (induction l rule: latest_grant.induct) auto

lemma grant_response:
  assumes "prepare_response (replicate RSP_MSG_LEN 0) REQ_QUOTA i [ADouble q] = Some (buf, 12)"
  obtains off where "length buf = RSP_MSG_LEN" "parse_response buf = Some (i, off)"
    "get_msg_data 8 word64 (attached_data buf off) 0 = Some (q, 8)"
proof -
  obtain off where "parse_response buf = Some (i, off)" "attached_data buf off = bytes64 q @ drop 12 (replicate RSP_MSG_LEN 0)"
    using assms prepare_response_parses [of "replicate RSP_MSG_LEN 0" REQ_QUOTA "[ADouble q]" "bytes64 q" i] by auto
  moreover have "get_msg_data 8 word64 (bytes64 q @ drop 12 (replicate RSP_MSG_LEN 0)) 0 = Some (q, 8)"
    using d64.get_at [of "[]" q "drop 12 (replicate RSP_MSG_LEN 0)"] by (simp add: after_Nil RSP_MSG_LEN_def) (simp add: after_def)
  moreover have "length buf = RSP_MSG_LEN" using prepare_response_length [OF assms] by simp
  ultimately show thesis using that by simp
qed

lemma link_grant:
  assumes link: "link_inv careful k p g" and inv: "full_inv (gs_sched g)"
    and send: "daemon (gs_sched g) = DSend c q" "cand_socket c = k"
      "prepare_response (replicate RSP_MSG_LEN 0) REQ_QUOTA (cand_req_id c) [ADouble (bits_of_double q)] = Some (buf, 12)"
    and g': "gs_sched g' = (gs_sched g)\<lparr>sent := sent (gs_sched g) @ [(cand_socket c, buf)],
        daemon := DRelock c (get_timespec_after q (s_clock (gs_sched g)))\<rparr>" "gs_up g' = gs_up g" "gs_down g' = gs_down g"
  shows "link_inv careful k p g'"
proof -
  obtain t where "latest_grant (s_log (gs_sched g)) = Some (c, q, t)" "t \<le> s_clock (gs_sched g)"
    using inv send(1) by (auto simp: full_inv_def log_inv_def)
  then have logged: "granted_to k (cand_name c) (cand_req_id c) q t (gs_sched g)"
    using send(2) latest_grant_logged unfolding granted_to_def by blast
  obtain off where buf: "length buf = RSP_MSG_LEN" "parse_response buf = Some (cand_req_id c, off)"
      "get_msg_data 8 word64 (attached_data buf off) 0 = Some (bits_of_double q, 8)"
    using grant_response [OF send(3)] by blast
  have grows: "grows (gs_sched g) (gs_sched g')" by (simp add: g' grows_def)
  note mono = grows_mono [OF this]
  have sel: "sent_to k (gs_sched g') = sent_to k (gs_sched g) @ [buf]" "requests_under_way k p g' = requests_under_way k p g"
      "at_sched k (gs_sched g) = add_mset (cand_req_id c) (at_sched k (gs_sched g'))"
    using send(1,2) by (simp_all add: g' sent_to_def requests_under_way_def at_sched_defs)
  have "link_base k p g'" using link by (simp add: link_inv_def link_base_def g')
  moreover have "link_sound k p g'" if sound: "link_sound k p g"
  proof -
    have way: "responses_under_way k g' = responses_under_way k g @ [buf]"
      using link_soundD(2) [OF sound] unfolding responses_under_way_def sel(1) g'(3) by simp
    have "cand_name c = pod_name p" using link_soundD(1) [OF sound] send(1,2) by (simp add: named_link_def)
    then have "grant_msg k (pod_name p) buf (gs_sched g)" using logged buf by (auto simp: grant_msg_def holds_grant_def)
    then have "\<forall>m\<in>set (responses_under_way k g'). grant_msg k (pod_name p) m (gs_sched g')"
      using link_soundD(4) [OF sound] mono(3) by (auto simp: way)
    moreover have "travelling k p g' = travelling k p g"
      using buf(2) by (simp add: travelling_def way sel rsp_id_of_def)
    moreover have "named_link k (pod_name p) (gs_sched g')"
      using link_soundD(1) [OF sound] by (simp add: g' named_link_def)
    moreover have "gs_down g' k \<le> length (sent_to k (gs_sched g'))" using link_soundD(2) [OF sound] unfolding sel(1) g'(3) by simp
    moreover have "gs_up g' k \<le> length (to_scheduler p)" using link_soundD(3) [OF sound] by (simp add: g')
    ultimately show ?thesis
      using link_soundD(5-7) [OF sound] mono(1,2) unfolding link_sound_def by metis
  qed
  ultimately show ?thesis using link by (simp add: link_inv_def)
qed

lemma grant_other: "j \<noteq> cand_socket c \<Longrightarrow> daemon s = DSend c q \<Longrightarrow>
  unnoticed j s (s\<lparr>sent := sent s @ [(cand_socket c, buf)], daemon := DRelock c ts\<rparr>)"
  by (auto simp: unnoticed_def grows_def sent_to_def at_sched_defs named_link_def)

lemma link_down:
  assumes link: "link_inv careful k p g" and way: "responses_under_way k g = msg # rest" and rcv: "receiver_step msg p = Some p'"
    and size: "length msg = RSP_MSG_LEN"
    and g': "gs_sched g' = gs_sched g" "gs_up g' = gs_up g" "gs_down g' k = Suc (gs_down g k)"
  shows "link_inv careful k p' g'"
proof -
  obtain i off data where r: "parse_response msg = Some (i, off)" "data = take (RSP_MSG_LEN - 4) (attached_data msg off)"
      and p': "p' = p\<lparr>response_map := (if response_map p i = None then (response_map p)(i \<mapsto> data) else response_map p),
        rsp_signalled := {j. \<exists>c i. hooks p j = HBlocked c i}\<rparr>"
    using receiver_step_cases [OF rcv] .
  have data: "data = attached_data msg off"
    using size parse_response_off [OF r(1)] by (simp add: r(2) attached_data_def RSP_MSG_LEN_def)
  have sel: "pod_name p' = pod_name p" "requests_under_way k p' g' = requests_under_way k p g"
      "request_queue p' = request_queue p" "to_scheduler p' = to_scheduler p" "pod_quota p' = pod_quota p"
      "quota_updated_tp p' = quota_updated_tp p" "issued p' = issued p" "asked p' = asked p"
    by (auto simp: p' g' pod_name_def requests_under_way_def asked_def awaiting_def fun_eq_iff)
  have down: "gs_down g k < length (sent_to k (gs_sched g))" "responses_under_way k g' = rest"
    using way g' by (simp_all add: responses_under_way_def drop_Suc flip: tl_drop) (metis drop_all list.distinct(1) not_le)
  have id: "rsp_id_of msg = i" by (simp add: rsp_id_of_def r(1))
  have "link_base k p' g'" using link unfolding link_inv_def link_base_def sel g' by blast
  moreover have "link_sound k p' g'" if sound: "link_sound k p g"
  proof -
    have t: "travelling k p g = add_mset i (travelling k p' g')" by (simp add: travelling_def way down sel g' id)
    have "grant_msg k (pod_name p) msg (gs_sched g)" using link_soundD(4) [OF sound, of msg] way by simp
    then have "holds_grant k (pod_name p) i data (gs_sched g)" using r(1) by (auto simp: grant_msg_def data)
    then have "\<forall>j d. response_map p' j = Some d \<longrightarrow> holds_grant k (pod_name p) j d (gs_sched g)"
      using link_soundD(5) [OF sound] by (auto simp: p')
    moreover have "count (travelling k p' g') j + of_bool (response_map p' j \<noteq> None) = of_bool (asked p' j)" if "issued p' \<le> 2 ^ 32" for j
    proof -
      have c: "count (travelling k p g) j + of_bool (response_map p j \<noteq> None) = of_bool (asked p j)" for j
        using link_soundD(7) [OF sound, of j] that sel(7) by simp
      have "response_map p i = None"
        using c [of i] by (auto simp: t of_bool_def split: if_splits)
      then have "response_map p' = (response_map p)(i \<mapsto> data)" by (simp add: p')
      then show ?thesis using c [of j] \<open>response_map p i = None\<close> by (cases "j = i") (simp_all add: t sel(8))
    qed
    moreover have "\<forall>m\<in>set (responses_under_way k g'). grant_msg k (pod_name p) m (gs_sched g)"
      using link_soundD(4) [OF sound] way down(2) by simp
    moreover have "gs_down g' k \<le> length (sent_to k (gs_sched g))" using down(1) by (simp add: g')
    ultimately show ?thesis using link_soundD(1,3,6) [OF sound] unfolding link_sound_def sel g'(1,2) by blast
  qed
  ultimately show ?thesis using link by (simp add: link_inv_def)
qed

section \<open>A pod manager joins\<close>

lemma started_link:
  assumes "name = resolve_name (pod_env_of ev) comm_init" and "c_safe name" and "client_info_map s0 name \<noteq> None"
    and "s = s0\<lparr>sent := sent s0 @ [(k, rsp)]\<rparr>" and "st = \<lparr>client_name = Some name, next_id = n\<rparr>" and "careful \<Longrightarrow> no_request_of k s0"
    and "gs_sched g = received k msg s None" and "gs_up g k = 0" and "gs_down g k = length (sent_to k s)"
  shows "link_inv careful k (started_pod ev st account now) g"
proof -
  let ?p = "started_pod ev st account now"
  have name: "pod_name ?p = name" by (simp add: pod_name_def started_pod_def assms(5) resolve_name_def)
  have sel: "request_queue ?p = []" "to_scheduler ?p = []" "response_map ?p = Map.empty" "pod_quota ?p = 0" "\<not> asked ?p i" for i
    by (simp_all add: started_pod_def asked_def awaiting_def)
  have "link_base k ?p g"
    using assms(2,3) by (simp add: link_base_def name sel assms(4,7) received_def)
  moreover have "link_sound k ?p g" if "no_request_of k s0"
  proof -
    have way: "responses_under_way k g = []"
      by (simp add: responses_under_way_def assms(7,9)) (simp add: received_def sent_to_def)
    have "at_sched k (gs_sched g) = {#}" "named_link k name (gs_sched g)"
      using that by (auto simp: assms(4,7) received_def at_sched_defs no_request_of_def named_link_def filter_empty_mset split: daemon_pc.split)
    then show ?thesis
      using way by (simp add: link_sound_def name sel travelling_def requests_under_way_def assms(7-9))
        (simp add: received_def sent_to_def)
  qed
  ultimately show ?thesis using assms(6) by (simp add: link_inv_def)
qed

lemma join_other:
  "j \<noteq> k \<Longrightarrow> unnoticed j s (received k msg (s\<lparr>sent := sent s @ [(k, rsp)]\<rparr>) None)"
  by (simp add: unnoticed_def grows_def received_def sent_to_def at_sched_defs named_link_def)

lemma leave_other: "j \<noteq> k \<Longrightarrow> unnoticed j s (s\<lparr>conns := (conns s)(k := NoConn)\<rparr>)"
  by (simp add: unnoticed_def grows_def sent_to_def at_sched_defs named_link_def)

section \<open>The invariant of the system\<close>

definition sys_inv :: "bool \<Rightarrow> gem_system \<Rightarrow> bool" where
  "sys_inv careful g \<longleftrightarrow> component_inv g \<and> crashed (gs_sched g) = None
     \<and> (\<forall>k p. gs_pods g k = Some p \<longrightarrow> link_inv careful k p g)"

lemma sys_invD:
  assumes "sys_inv careful g"
  shows "component_inv g" and "crashed (gs_sched g) = None" and "gs_pods g k = Some p \<Longrightarrow> link_inv careful k p g"
  using assms by (auto simp: sys_inv_def)

text \<open>A step that no connection notices.\<close>

lemma sys_inv_unnoticed:
  assumes "sys_inv careful g" and "component_inv g'" and "crashed (gs_sched g') = None"
    and "\<And>k. unnoticed k (gs_sched g) (gs_sched g')"
    and "gs_pods g' = gs_pods g" and "gs_up g' = gs_up g" and "gs_down g' = gs_down g"
  shows "sys_inv careful g'"
proof -
  have "link_inv careful k p g'" if "gs_pods g' k = Some p" for k p
    using that assms(5-7) by (intro link_unnoticed [OF sys_invD(3) [OF assms(1)] assms(4)]) simp_all
  then show ?thesis using assms(2,3) by (simp add: sys_inv_def)
qed

text \<open>A step on one connection that no other one notices.\<close>

lemma sys_inv_link:
  assumes "sys_inv careful g" and "component_inv g'" and "crashed (gs_sched g') = None"
    and "\<And>j. j \<noteq> k \<Longrightarrow> unnoticed j (gs_sched g) (gs_sched g') \<and> gs_pods g' j = gs_pods g j
      \<and> gs_up g' j = gs_up g j \<and> gs_down g' j = gs_down g j"
    and "\<And>p. gs_pods g' k = Some p \<Longrightarrow> link_inv careful k p g'"
  shows "sys_inv careful g'"
  unfolding sys_inv_def
proof (intro conjI allI impI)
  fix j p
  assume p: "gs_pods g' j = Some p"
  show "link_inv careful j p g'"
  proof (cases "j = k")
    case False
    then have "gs_pods g j = Some p" using assms(4) p by simp
    then show ?thesis using sys_invD(3) [OF assms(1)] link_unnoticed assms(4) [OF False] by blast
  qed (use assms(5) p in simp)
qed (fact assms(2,3))+

lemma unnoticed_refl: "unnoticed j s s"
  by (simp add: unnoticed_def grows_def)

text \<open>Only the clock of a pod manager changes.\<close>

lemma link_clock:
  assumes "link_inv careful k p g" and "gs_pods g k = Some p" and "s_clock (gs_sched g) \<le> t"
  shows "link_inv careful k (p\<lparr>pod_clock := t\<rparr>) (at_time t g)"
proof -
  have "link_inv careful k p (at_time t g)"
    using assms tick_unnoticed by (intro link_unnoticed [OF assms(1)]) (simp_all add: at_time_def)
  moreover have "pod_name (p\<lparr>pod_clock := t\<rparr>) = pod_name p" "asked (p\<lparr>pod_clock := t\<rparr>) = asked p"
    by (auto simp: pod_name_def asked_def awaiting_def fun_eq_iff)
  ultimately show ?thesis
    by (simp add: link_inv_def link_base_def link_sound_def travelling_def requests_under_way_def)
qed

lemma sys_inv_sched:
  assumes inv: "sys_inv careful g" and comp: "component_inv (g\<lparr>gs_sched := s\<rparr>)" and step: "sched_local (gs_sched g) s"
  shows "sys_inv careful (g\<lparr>gs_sched := s\<rparr>)"
proof -
  have ok: "full_inv (gs_sched g)" "sched_inv (gs_sched g)" "crashed (gs_sched g) = None"
    using component_invD(2,3) [OF sys_invD(1) [OF inv]] sys_invD(2) [OF inv] by simp_all
  note unnoticed = sys_inv_unnoticed [OF inv comp]
  show ?thesis
    using step
  proof cases
    case (local_push k rbuf name req_id)
    then show ?thesis using push_unnoticed ok(3) by (intro unnoticed) (simp_all add: push_candidate_def Let_def)
  next
    case (local_reload files dir fname evs m)
    then show ?thesis using reload_unnoticed ok(3) by (intro unnoticed) simp_all
  next
    case (local_fault mv e)
    then show ?thesis using daemon_step_inv [OF _ ok(2)] by blast
  next
    case (local_daemon mv)
    have live: "crashed s = None" using local_daemon ok(2,3) by (cases rule: daemon_step_cases) simp_all
    from daemon_move [OF local_daemon ok(2)] show ?thesis
    proof
      assume "\<forall>k. unnoticed k (gs_sched g) s"
      then show ?thesis using live by (intro unnoticed) simp_all
    next
      assume "\<exists>c q buf. daemon (gs_sched g) = DSend c q
        \<and> prepare_response (replicate RSP_MSG_LEN 0) REQ_QUOTA (cand_req_id c) [ADouble (bits_of_double q)] = Some (buf, 12)
        \<and> s = (gs_sched g)\<lparr>sent := sent (gs_sched g) @ [(cand_socket c, buf)], daemon := DRelock c (get_timespec_after q (s_clock (gs_sched g)))\<rparr>"
      then obtain c q buf where c: "daemon (gs_sched g) = DSend c q"
          "prepare_response (replicate RSP_MSG_LEN 0) REQ_QUOTA (cand_req_id c) [ADouble (bits_of_double q)] = Some (buf, 12)"
        and s: "s = (gs_sched g)\<lparr>sent := sent (gs_sched g) @ [(cand_socket c, buf)], daemon := DRelock c (get_timespec_after q (s_clock (gs_sched g)))\<rparr>"
        by blast
      show ?thesis
      proof (rule sys_inv_link [OF inv comp, where k = "cand_socket c"])
        show "link_inv careful (cand_socket c) p (g\<lparr>gs_sched := s\<rparr>)" if "gs_pods (g\<lparr>gs_sched := s\<rparr>) (cand_socket c) = Some p" for p
          by (rule link_grant [OF _ ok(1) c(1) _ c(2)]) (use that sys_invD(3) [OF inv] in \<open>simp_all add: s\<close>)
      qed (use live grant_other [OF _ c(1)] in \<open>simp_all add: s\<close>)
    qed
  qed
qed

lemma sys_inv_step:
  assumes step: "sys_step careful g g'" and inv: "sys_inv careful g"
  shows "sys_inv careful g'"
proof -
  note comp = component_inv_step [OF step sys_invD(1) [OF inv]]
  note ok = sys_invD(2) [OF inv] and link = sys_invD(3) [OF inv] and pods = component_invD(5) [OF sys_invD(1) [OF inv]]
  show ?thesis
    using step
  proof cases
    case (sys_tick t)
    then show ?thesis using link_clock [OF link] comp ok by (auto simp: sys_inv_def at_time_def)
  next
    case (sys_sched s)
    then show ?thesis using sys_inv_sched [OF inv] comp by simp
  next
    case (sys_pod k p p')
    have "link_inv careful k p' g'" unfolding sys_pod(1)
      using link_pod_local [OF link [OF sys_pod(2)] _ _ sys_pod(3)] pods [OF sys_pod(2)] by blast
    then show ?thesis
      using ok comp unnoticed_refl by (intro sys_inv_link [OF inv, where k = k]) (auto simp: sys_pod(1) set_pod_def)
  next
    case (sys_join k name ev rbuf account st s)
    obtain rsp where s: "s = (gs_sched g)\<lparr>sent := sent (gs_sched g) @ [(k, rsp)]\<rparr>"
        "st = \<lparr>client_name = Some name, next_id = next_id comm_init + 1\<rparr>"
      using join_result [OF sys_join(6-10)] by metis
    let ?p = "started_pod ev st account (s_clock s)"
    have p: "gs_pods g' k = Some ?p" by (simp add: sys_join(1))
    have "link_inv careful k ?p g'"
      by (rule started_link [OF sys_join(6,7,9) s sys_join(5)]) (simp_all add: sys_join(1))
    then show ?thesis
      using ok comp join_other [of _ k] by (intro sys_inv_link [OF inv, where k = k]) (auto simp: sys_join(1) s(1) received_def)
  next
    case (sys_up k p buf msg rest s push)
    have mem: "msg \<in> set (to_scheduler p)" using sys_up(5) by (metis requests_under_way_def in_set_dropD list.set_intros(1))
    have base: "link_base k p g" using link [OF sys_up(2)] by (simp add: link_inv_def)
    obtain m h where "handle_unlocked k msg (gs_sched g) =
        Some ((gs_sched g)\<lparr>client_info_map := m, history_list := h\<rparr>, Some (pod_name p, req_id_of msg))"
      and m: "\<forall>n. client_info_map (gs_sched g) n \<noteq> None \<longrightarrow> m n \<noteq> None"
      by (rule up_handled [OF base mem])
    then have s: "s = (gs_sched g)\<lparr>client_info_map := m, history_list := h\<rparr>"
        "\<forall>n. client_info_map (gs_sched g) n \<noteq> None \<longrightarrow> m n \<noteq> None" "push = Some (pod_name p, req_id_of msg)"
      using sys_up(6) by simp_all
    have "link_inv careful k p g'"
      by (rule link_up [OF link [OF sys_up(2)] sys_up(5,4) s(1,2)]) (simp_all add: sys_up(1) s(3))
    then show ?thesis
      using ok comp received_other [OF s(1,2)] sys_up(2)
      by (intro sys_inv_link [OF inv, where k = k]) (simp_all add: sys_up(1), simp_all add: s(1) received_def)
  next
    case (sys_up_bad k p buf msg rest)
    have "msg \<in> set (to_scheduler p)" using sys_up_bad(5) by (metis requests_under_way_def in_set_dropD list.set_intros(1))
    moreover have "link_base k p g" using link [OF sys_up_bad(2)] by (simp add: link_inv_def)
    ultimately show ?thesis using up_handled [of k p g msg] sys_up_bad(6) by auto
  next
    case (sys_down k p msg rest p')
    have "msg \<in> set (sent_to k (gs_sched g))" using sys_down(3) by (metis responses_under_way_def in_set_dropD list.set_intros(1))
    then have "length msg = RSP_MSG_LEN"
      using component_invD(4) [OF sys_invD(1) [OF inv]] by (auto simp: sent_to_def sized_responses_def)
    then have "link_inv careful k p' g'"
      by (intro link_down [OF link [OF sys_down(2)] sys_down(3,4)]) (simp_all add: sys_down(1) set_pod_def)
    then show ?thesis
      using ok comp unnoticed_refl by (intro sys_inv_link [OF inv, where k = k]) (auto simp: sys_down(1) set_pod_def)
  next
    case (sys_leave k p buf)
    then show ?thesis
      using ok comp leave_other [of _ k] by (intro sys_inv_link [OF inv, where k = k]) simp_all
  qed
qed

lemma sys_inv_init: "sys_init g \<Longrightarrow> sys_inv careful g"
  using component_inv_init by (simp add: sys_inv_def sys_init_def sched_init_def)

interpretation system: inductive_invariant sys_init "sys_step careful" "sys_inv careful" for careful
  by unfold_locales (rule sys_inv_init sys_inv_step; assumption)+

end
