(* ===== verification/Gem_Service.thy ===== *)
theory Gem_Service
  imports Gem_Delivery
begin

text \<open>
  Every request can be served: from any reachable state of the system in which a thread of a pod manager is blocked in the wait
  for its quota there is a run of the processes, without a new message of any client, that ends with the answer to
  the client. The run empties the places a request can be in, one after the other.
\<close>

section \<open>Runs that leave the clients alone\<close>

text \<open>The pod manager on a connection, up to what the scheduler's side of it changes.\<close>

definition undisturbed :: "sockfd \<Rightarrow> gem_system \<Rightarrow> gem_system \<Rightarrow> bool" where
  "undisturbed k g g' \<longleftrightarrow> (\<exists>p p'. gs_pods g k = Some p \<and> gs_pods g' k = Some p' \<and> hooks p' = hooks p \<and> pod_name p' = pod_name p
     \<and> issued p' = issued p)"

lemma undisturbed_trans: "undisturbed k g g' \<Longrightarrow> undisturbed k g' g'' \<Longrightarrow> undisturbed k g g''"
  by (auto simp: undisturbed_def)

definition serves :: "sockfd \<Rightarrow> gem_system \<Rightarrow> gem_system \<Rightarrow> bool" where
  "serves k g g' \<longleftrightarrow> (sys_step True)\<^sup>*\<^sup>* g g' \<and> undisturbed k g g'"

lemma serves_trans [trans]: "serves k g g' \<Longrightarrow> serves k g' g'' \<Longrightarrow> serves k g g''"
  unfolding serves_def using undisturbed_trans by (meson rtranclp_trans)

lemma serves_refl: "gs_pods g k = Some p \<Longrightarrow> serves k g g"
  by (simp add: serves_def undisturbed_def)

lemma serves_step: "sys_step True g g' \<Longrightarrow> undisturbed k g g' \<Longrightarrow> serves k g g'"
  by (simp add: serves_def)

lemma serves_inv: "serves k g g' \<Longrightarrow> sys_inv True g \<Longrightarrow> sys_inv True g'"
proof -
  assume "serves k g g'" and inv: "sys_inv True g"
  then have "(sys_step True)\<^sup>*\<^sup>* g g'" by (simp add: serves_def)
  then show "sys_inv True g'" using inv by (induction rule: rtranclp_induct) (auto intro: sys_inv_step)
qed

lemma serves_pod: "serves k g g' \<Longrightarrow> \<exists>p. gs_pods g' k = Some p"
  by (auto simp: serves_def undisturbed_def)

text \<open>The places a request goes through, emptied up to a stage.\<close>

definition emptied :: "nat \<Rightarrow> sockfd \<Rightarrow> gem_system \<Rightarrow> bool" where
  "emptied n k g \<longleftrightarrow> (\<exists>p. gs_pods g k = Some p \<and> (1 \<le> n \<longrightarrow> request_queue p = [])
     \<and> (2 \<le> n \<longrightarrow> requests_under_way k p g = []) \<and> (3 \<le> n \<longrightarrow> pushing_ids k (gs_sched g) = {#})
     \<and> (4 \<le> n \<longrightarrow> candidates (gs_sched g) = [] \<and> (\<forall>c q. daemon (gs_sched g) \<noteq> DSend c q))
     \<and> (5 \<le> n \<longrightarrow> responses_under_way k g = []))"

section \<open>The queue\<close>

lemma send_one:
  assumes "gs_pods g k = Some p" and "request_queue p = m # rest"
  shows "\<exists>g' p'. serves k g g' \<and> gs_pods g' k = Some p' \<and> request_queue p' = rest"
proof -
  let ?w = "p\<lparr>sender := SWait, sender_signalled := (if sender p = SLoop then False else sender_signalled p)\<rparr>"
  let ?p = "?w\<lparr>sender := SLoop, sender_signalled := False, request_queue := rest, to_scheduler := to_scheduler p @ [snd m]\<rparr>"
  have und: "undisturbed k g (set_pod k ?w g)" "undisturbed k (set_pod k ?w g) (set_pod k ?p (set_pod k ?w g))"
    using assms(1) by (simp_all add: undisturbed_def set_pod_def pod_name_def)
  have "serves k g (set_pod k ?w g)"
  proof (cases "sender p")
    case SLoop
    then have "sender_step Run True p = Some ?w" by (simp add: sender_step_def)
    then have "sys_step True g (set_pod k ?w g)" by (intro sys_pod [OF assms(1)] local_send)
    then show ?thesis using und(1) by (rule serves_step)
  next
    case SWait
    then have "set_pod k ?w g = g" using assms(1) by (simp add: set_pod_def fun_upd_idem)
    then show ?thesis using serves_refl [OF assms(1)] by simp
  qed
  moreover have "sender_step Spurious True ?w = Some ?p" using assms(2) by (simp add: sender_step_def wakes_def)
  then have "sys_step True (set_pod k ?w g) (set_pod k ?p (set_pod k ?w g))"
    by (intro sys_pod [where p = ?w] local_send) (simp_all add: set_pod_def)
  then have "serves k (set_pod k ?w g) (set_pod k ?p (set_pod k ?w g))" using und(2) by (rule serves_step)
  ultimately have "serves k g (set_pod k ?p (set_pod k ?w g))" by (rule serves_trans)
  moreover have "gs_pods (set_pod k ?p (set_pod k ?w g)) k = Some ?p" "request_queue ?p = rest" by (simp_all add: set_pod_def)
  ultimately show ?thesis by blast
qed

lemma empty_queue:
  assumes "gs_pods g k = Some p"
  shows "\<exists>g'. serves k g g' \<and> emptied 1 k g'"
  using assms
proof (induction "request_queue p" arbitrary: g p)
  case Nil
  then show ?case using serves_refl [OF Nil(2)] by (intro exI [of _ g]) (simp add: emptied_def)
next
  case (Cons m rest)
  obtain g1 p1 where "serves k g g1" "gs_pods g1 k = Some p1" "request_queue p1 = rest"
    using send_one [OF Cons(3) Cons(2) [symmetric]] by blast
  moreover from this obtain g2 where "serves k g1 g2" "emptied 1 k g2" using Cons(1) [of p1 g1] by auto
  ultimately show ?case using serves_trans by blast
qed

section \<open>The way to the scheduler\<close>

lemma serves_sched:
  assumes "gs_pods g k = Some p" and "crashed (gs_sched g) = None" and "sched_local (gs_sched g) s"
  shows "serves k g (g\<lparr>gs_sched := s\<rparr>)"
  using sys_sched [OF assms(2,3)] assms(1) by (intro serves_step) (simp_all add: undisturbed_def)

lemma finish_push:
  assumes "gs_pods g k = Some p" and "crashed (gs_sched g) = None"
  shows "\<exists>s. serves k g (g\<lparr>gs_sched := s\<rparr>) \<and> pushing_ids k s = {#} \<and> (conns (gs_sched g) k \<noteq> NoConn \<longrightarrow> conns s k \<noteq> NoConn)"
proof (cases "conns (gs_sched g) k")
  case (Pushing rbuf name i)
  let ?s = "(push_candidate k name i (gs_sched g))\<lparr>conns := (conns (gs_sched g))(k := Receiving rbuf)\<rparr>"
  have "serves k g (g\<lparr>gs_sched := ?s\<rparr>)" by (rule serves_sched [OF assms local_push [OF Pushing]])
  moreover have "pushing_ids k ?s = {#}" "conns ?s k \<noteq> NoConn" by (simp_all add: pushing_ids_def)
  ultimately show ?thesis by blast
next
  case (Receiving buf)
  moreover have "serves k g (g\<lparr>gs_sched := gs_sched g\<rparr>)" using serves_refl [OF assms(1)] by simp
  ultimately show ?thesis by (intro exI [of _ "gs_sched g"]) (simp add: pushing_ids_def)
next
  case NoConn
  moreover have "serves k g (g\<lparr>gs_sched := gs_sched g\<rparr>)" using serves_refl [OF assms(1)] by simp
  ultimately show ?thesis by (intro exI [of _ "gs_sched g"]) (simp add: pushing_ids_def)
qed

lemma receiving:
  assumes "pushing_ids k s = {#}" and "conns s k \<noteq> NoConn"
  obtains buf where "conns s k = Receiving buf"
  using assms by (cases "conns s k") (auto simp: pushing_ids_def)

lemma deliver_one:
  assumes inv: "sys_inv True g" and p: "gs_pods g k = Some p" and way: "requests_under_way k p g = m # rest"
  shows "\<exists>g'. serves k g g' \<and> gs_pods g' k = Some p \<and> requests_under_way k p g' = rest"
proof -
  have base: "link_base k p g" using sys_invD(3) [OF inv p] by (simp add: link_inv_def)
  have live: "crashed (gs_sched g) = None" using sys_invD(2) [OF inv] .
  obtain s where s: "serves k g (g\<lparr>gs_sched := s\<rparr>)" "pushing_ids k s = {#}" "conns s k \<noteq> NoConn"
    using finish_push [OF p live] base unfolding link_base_def by blast
  let ?g = "g\<lparr>gs_sched := s\<rparr>"
  have inv': "sys_inv True ?g" by (rule serves_inv [OF s(1) inv])
  obtain buf where buf: "conns (gs_sched ?g) k = Receiving buf" using receiving [OF s(2,3)] by auto
  have p': "gs_pods ?g k = Some p" and way': "requests_under_way k p ?g = m # rest"
    using p way by (simp_all add: requests_under_way_def)
  have base': "link_base k p ?g" using sys_invD(3) [OF inv' p'] by (simp add: link_inv_def)
  have mem: "m \<in> set (to_scheduler p)" using way by (metis requests_under_way_def in_set_dropD list.set_intros(1))
  obtain t push where t: "handle_unlocked k m (gs_sched ?g) = Some (t, push)" by (rule up_handled [OF base' mem])
  let ?h = "?g\<lparr>gs_sched := received k m t push, gs_up := (gs_up ?g)(k := Suc (gs_up ?g k))\<rparr>"
  have "sys_step True ?g ?h" by (rule sys_up [OF p' sys_invD(2) [OF inv'] buf way' t])
  then have "serves k ?g ?h" using p by (intro serves_step) (simp_all add: undisturbed_def)
  with s(1) have "serves k g ?h" by (rule serves_trans)
  moreover have "requests_under_way k p ?h = rest"
    using way by (simp add: requests_under_way_def drop_Suc flip: tl_drop)
  moreover have "gs_pods ?h k = Some p" using p by simp
  ultimately show ?thesis by blast
qed

lemma empty_way:
  assumes "sys_inv True g" and "gs_pods g k = Some p" and "request_queue p = []"
  shows "\<exists>g'. serves k g g' \<and> emptied 3 k g'"
  using assms
proof (induction "requests_under_way k p g" arbitrary: g)
  case Nil
  obtain s where "serves k g (g\<lparr>gs_sched := s\<rparr>)" "pushing_ids k s = {#}"
    using finish_push [OF Nil(3) sys_invD(2) [OF Nil(2)]] by blast
  then show ?case using Nil by (intro exI [of _ "g\<lparr>gs_sched := s\<rparr>"]) (simp add: emptied_def requests_under_way_def)
next
  case (Cons m rest)
  obtain g1 where g1: "serves k g g1" "gs_pods g1 k = Some p" "requests_under_way k p g1 = rest"
    using deliver_one [OF Cons(3,4) Cons(2) [symmetric]] by blast
  then obtain g2 where "serves k g1 g2" "emptied 3 k g2"
    using Cons(1) [of g1] serves_inv [OF g1(1) Cons(3)] Cons(5) by auto
  then show ?case using serves_trans [OF g1(1)] by blast
qed

section \<open>The candidate list\<close>

text \<open>A run of the daemon is a run of the system.\<close>

definition same_pods :: "gem_system \<Rightarrow> gem_system \<Rightarrow> bool" where
  "same_pods g g' \<longleftrightarrow> gs_up g' = gs_up g \<and> gs_down g' = gs_down g
     \<and> (\<forall>k p. gs_pods g k = Some p \<longrightarrow> (\<exists>t. gs_pods g' k = Some (p\<lparr>pod_clock := t\<rparr>)))"

lemma same_pods_refl: "same_pods g g"
proof -
  have "p = p\<lparr>pod_clock := pod_clock p\<rparr>" for p :: pod_state by simp
  then show ?thesis unfolding same_pods_def by metis
qed

lemma daemon_run_step:
  assumes "daemon_run (gs_sched g) s"
  shows "\<exists>g'. sys_step True g g' \<and> gs_sched g' = s \<and> same_pods g g'"
  using assms
proof cases
  case (run_tick t)
  then show ?thesis
    by (intro exI [of _ "at_time t g"]) (auto simp: at_time_def same_pods_def intro: sys_tick [unfolded at_time_def])
next
  case (run_daemon mv)
  then have "sys_step True g (g\<lparr>gs_sched := s\<rparr>)" by (intro sys_sched local_daemon)
  moreover have "same_pods g (g\<lparr>gs_sched := s\<rparr>)"
    using same_pods_refl [of g] by (simp add: same_pods_def)
  ultimately show ?thesis by auto
qed

lemma same_pods_trans: "same_pods g g' \<Longrightarrow> same_pods g' g'' \<Longrightarrow> same_pods g g''"
  unfolding same_pods_def by (fastforce)

lemma daemon_run_lift:
  assumes "daemon_run\<^sup>*\<^sup>* (gs_sched g) s"
  shows "\<exists>g'. (sys_step True)\<^sup>*\<^sup>* g g' \<and> gs_sched g' = s \<and> same_pods g g'"
  using assms
proof (induction rule: rtranclp_induct)
  case base
  then show ?case using same_pods_refl by blast
next
  case (step s t)
  then obtain g1 where g1: "(sys_step True)\<^sup>*\<^sup>* g g1" "gs_sched g1 = s" "same_pods g g1" by blast
  then obtain g2 where g2: "sys_step True g1 g2" "gs_sched g2 = t" "same_pods g1 g2"
    using daemon_run_step [of g1 t] step(2) by blast
  have "(sys_step True)\<^sup>*\<^sup>* g g2" using g1(1) g2(1) by (rule rtranclp.rtrancl_into_rtrancl)
  then show ?case using g2(2) same_pods_trans [OF g1(3) g2(3)] by blast
qed

lemma same_pods_undisturbed: "same_pods g g' \<Longrightarrow> gs_pods g k = Some p \<Longrightarrow> undisturbed k g g'"
  by (fastforce simp: same_pods_def undisturbed_def pod_name_def)

lemma emptied_same_pods:
  assumes "emptied 3 k g" and "same_pods g g'" and "conns (gs_sched g') = conns (gs_sched g)"
  shows "emptied 3 k g'"
  using assms by (fastforce simp: emptied_def same_pods_def requests_under_way_def pushing_ids_def)

lemma daemon_serves:
  assumes "daemon_run\<^sup>*\<^sup>* (gs_sched g) s" and "emptied 3 k g" and "conns s = conns (gs_sched g)"
  shows "\<exists>g'. serves k g g' \<and> gs_sched g' = s \<and> emptied 3 k g'"
proof -
  obtain g' where g': "(sys_step True)\<^sup>*\<^sup>* g g'" "gs_sched g' = s" "same_pods g g'" using daemon_run_lift [OF assms(1)] by blast
  obtain p where "gs_pods g k = Some p" using assms(2) by (auto simp: emptied_def)
  then have "undisturbed k g g'" using same_pods_undisturbed [OF g'(3)] by blast
  then have "serves k g g'" using g'(1) by (simp add: serves_def)
  moreover have "emptied 3 k g'" using emptied_same_pods [OF assms(2) g'(3)] assms(3) g'(2) by simp
  ultimately show ?thesis using g'(2) by blast
qed

lemma finish_send:
  assumes "crashed s = None"
  shows "\<exists>t. daemon_run\<^sup>*\<^sup>* s t \<and> conns t = conns s \<and> candidates t = candidates s \<and> (\<forall>c q. daemon t \<noteq> DSend c q)"
proof (cases "\<exists>c q. daemon s = DSend c q")
  case True
  then obtain c q where d: "daemon s = DSend c q" by blast
  obtain buf where "daemon_send c q s = Inr (s\<lparr>sent := sent s @ [(cand_socket c, buf)],
      daemon := DRelock c (get_timespec_after q (s_clock s))\<rparr>)" (is "_ = Inr ?t")
    using daemon_send_eq [of c q s] by blast
  then have "daemon_run s ?t" using assms by (intro run_daemon [where mv = Proceed]) (simp_all add: daemon_step_def d)
  then show ?thesis by (intro exI [of _ ?t]) auto
next
  case False
  then show ?thesis by (intro exI [of _ s]) simp
qed

lemma empty_candidates:
  assumes "sys_inv True g" and "emptied 3 k g"
  shows "\<exists>g'. serves k g g' \<and> emptied 4 k g'"
  using assms
proof (induction "candidates (gs_sched g)" arbitrary: g)
  case Nil
  obtain t where t: "daemon_run\<^sup>*\<^sup>* (gs_sched g) t" "conns t = conns (gs_sched g)" "candidates t = []" "\<forall>c q. daemon t \<noteq> DSend c q"
    using finish_send [OF sys_invD(2) [OF Nil(2)]] Nil(1) by metis
  obtain g' where "serves k g g'" "gs_sched g' = t" "emptied 3 k g'" using daemon_serves [OF t(1) Nil(3) t(2)] by blast
  then show ?case using t(3,4) by (intro exI [of _ g']) (auto simp: emptied_def)
next
  case (Cons c cs)
  have "sched_inv (gs_sched g)" using component_invD(3) [OF sys_invD(1) [OF Cons(3)]] .
  then obtain q T t where t: "daemon_run\<^sup>*\<^sup>* (gs_sched g) t" "granted_front (gs_sched g) t"
    using front_can_be_granted [OF _ sys_invD(2) [OF Cons(3)]] Cons(2) by (metis list.distinct(1))
  then have "conns t = conns (gs_sched g)" "candidates t = cs"
    using Cons(2) [symmetric] by (simp_all add: granted_front_def)
  moreover obtain g1 where g1: "serves k g g1" "gs_sched g1 = t" "emptied 3 k g1"
    using daemon_serves [OF t(1) Cons(4)] calculation(1) by blast
  ultimately obtain g2 where "serves k g1 g2" "emptied 4 k g2"
    using Cons(1) [of g1] serves_inv [OF g1(1) Cons(3)] by auto
  then show ?case using serves_trans [OF g1(1)] by blast
qed

section \<open>The way back\<close>

lemma answer_one:
  assumes inv: "sys_inv True g" and empty: "emptied 4 k g" and way: "responses_under_way k g = m # rest"
  shows "\<exists>g'. serves k g g' \<and> emptied 4 k g' \<and> responses_under_way k g' = rest"
proof -
  obtain p where p: "gs_pods g k = Some p" "request_queue p = []" "requests_under_way k p g = []"
    using empty by (auto simp: emptied_def)
  have "grant_msg k (pod_name p) m (gs_sched g)"
    using sys_invD(3) [OF inv p(1)] link_soundD(4) way by (auto simp: link_inv_def)
  then obtain i off where "parse_response m = Some (i, off)" by (auto simp: grant_msg_def)
  then obtain p' where p': "receiver_step m p = Some p'" by (simp add: receiver_step_def)
  have sel: "hooks p' = hooks p" "pod_name p' = pod_name p" "issued p' = issued p" "request_queue p' = []"
      "to_scheduler p' = to_scheduler p"
    by (rule receiver_step_cases [OF p'], simp add: pod_name_def p(2))+
  let ?g = "set_pod k p' (g\<lparr>gs_down := (gs_down g)(k := Suc (gs_down g k))\<rparr>)"
  have "sys_step True g ?g" by (rule sys_down [OF p(1) way p'])
  then have "serves k g ?g" using p(1) sel by (intro serves_step) (simp_all add: undisturbed_def set_pod_def)
  moreover have "responses_under_way k ?g = rest"
    using way by (simp add: responses_under_way_def set_pod_def drop_Suc flip: tl_drop)
  moreover have "emptied 4 k ?g"
    using empty p sel by (simp add: emptied_def set_pod_def requests_under_way_def)
  ultimately show ?thesis by blast
qed

lemma empty_answers:
  assumes "sys_inv True g" and "emptied 4 k g"
  shows "\<exists>g'. serves k g g' \<and> emptied 5 k g'"
  using assms
proof (induction "responses_under_way k g" arbitrary: g)
  case Nil
  obtain p where "gs_pods g k = Some p" using Nil(3) by (auto simp: emptied_def)
  then show ?case using serves_refl Nil by (intro exI [of _ g]) (auto simp: emptied_def)
next
  case (Cons m rest)
  obtain g1 where g1: "serves k g g1" "emptied 4 k g1" "responses_under_way k g1 = rest"
    using answer_one [OF Cons(3,4) Cons(2) [symmetric]] by blast
  then obtain g2 where "serves k g1 g2" "emptied 5 k g2"
    using Cons(1) [of g1] serves_inv [OF g1(1) Cons(3)] by auto
  then show ?case using serves_trans [OF g1(1)] by blast
qed

lemma all_emptied:
  assumes "sys_inv True g" and "gs_pods g k = Some p"
  shows "\<exists>g'. serves k g g' \<and> emptied 5 k g'"
proof -
  obtain g1 where g1: "serves k g g1" "emptied 1 k g1" using empty_queue [OF assms(2)] by blast
  obtain p1 where p1: "gs_pods g1 k = Some p1" "request_queue p1 = []" using g1(2) by (auto simp: emptied_def)
  note inv1 = serves_inv [OF g1(1) assms(1)]
  obtain g3 where g3: "serves k g1 g3" "emptied 3 k g3" using empty_way [OF inv1 p1] by blast
  note inv3 = serves_inv [OF g3(1) inv1]
  obtain g4 where g4: "serves k g3 g4" "emptied 4 k g4" using empty_candidates [OF inv3 g3(2)] by blast
  obtain g5 where g5: "serves k g4 g5" "emptied 5 k g5" using empty_answers [OF serves_inv [OF g4(1) inv3] g4(2)] by blast
  show ?thesis using g1(1) g3(1) g4(1) g5 by (meson serves_trans)
qed

section \<open>The answer to the client\<close>

lemma emptied_response:
  assumes "sys_inv True g" and "emptied 5 k g" and "gs_pods g k = Some p" and "issued p \<le> 2 ^ 32" and "asked p i"
  obtains data q t pos where "response_map p i = Some data" "granted_to k (pod_name p) i q t (gs_sched g)"
    "get_msg_data 8 word64 data 0 = Some (bits_of_double q, pos)"
proof -
  have sound: "link_sound k p g" using sys_invD(3) [OF assms(1,3)] by (simp add: link_inv_def)
  have "travelling k p g = {#}"
    using assms(2,3) by (auto simp: emptied_def travelling_def at_sched_def waiting_ids_def sending_ids_def split: daemon_pc.split)
  then have "response_map p i \<noteq> None" using link_soundD(7) [OF sound assms(4), of i] assms(5) by (auto simp: of_bool_def split: if_splits)
  then obtain data where d: "response_map p i = Some data" by blast
  then show thesis using link_soundD(5) [OF sound d] that by (auto simp: holds_grant_def)
qed

lemma thread_completes:
  assumes "hooks p h = HBlocked ctx i" and "response_map p i = Some data" and "get_msg_data 8 word64 data 0 = Some (w, pos)"
  shows "\<exists>p2 buf off. pod_local\<^sup>*\<^sup>* p p2 \<and> hooks p2 h = HRecv (fst ctx) \<and> pod_quota p2 = double_of_bits w
    \<and> pod_name p2 = pod_name p \<and> to_hooks p2 = to_hooks p @ [(h, buf)] \<and> parse_response buf = Some (snd ctx, off)
    \<and> get_msg_data 8 word64 (attached_data buf off) 0 = Some (bits_of_double (double_of_bits w), 8)"
proof -
  let ?p1 = "set_pc h (HDone ctx 0) (p\<lparr>rsp_signalled := rsp_signalled p - {h}, pod_quota := double_of_bits w,
    quota_updated_tp := pod_clock p, pod_overuse_ms := 0, response_map := (response_map p)(i := None)\<rparr>)"
  let ?u = "launch_release h ctx 0 ?p1"
  have "hook_step Spurious h p = Some ?p1"
    using assms by (simp add: hook_step_def wakes_def launch_complete_def)
  then have l1: "pod_local p ?p1" by (rule local_hook)
  obtain buf off where r: "respond h REQ_QUOTA (snd ctx) [ADouble (bits_of_double (pod_quota ?u - 0))] ?u =
      Some (?u\<lparr>to_hooks := to_hooks ?u @ [(h, buf)]\<rparr>)" "parse_response buf = Some (snd ctx, off)"
      "get_msg_data 8 word64 (attached_data buf off) 0 = Some (bits_of_double (pod_quota ?u - 0), 8)"
    using respond_quota by blast
  let ?p2 = "set_pc h (HRecv (fst ctx)) (?u\<lparr>to_hooks := to_hooks ?u @ [(h, buf)]\<rparr>)"
  have "hook_step Run h ?p1 = Some ?u" by (simp add: hook_step_def set_pc_def)
  then have l2: "pod_local ?p1 ?u" by (rule local_hook)
  have "hook_step Run h ?u = launch_return h ctx 0 ?u" by (simp add: hook_step_def launch_release_def set_pc_def)
  also have "\<dots> = Some ?p2" using r(1) by (simp only: launch_return_def Option.bind.bind_lunit)
  finally have l3: "pod_local ?u ?p2" by (rule local_hook)
  have "hooks ?p2 h = HRecv (fst ctx)" "pod_quota ?p2 = double_of_bits w" "pod_name ?p2 = pod_name p"
      "to_hooks ?p2 = to_hooks p @ [(h, buf)]"
    by (simp_all add: set_pc_def pod_name_def launch_release_def)
  moreover have "get_msg_data 8 word64 (attached_data buf off) 0 = Some (bits_of_double (double_of_bits w), 8)"
    using r(3) by (simp add: set_pc_def launch_release_def)
  moreover have "pod_local\<^sup>*\<^sup>* p ?p2" using l1 l2 l3 by (meson converse_rtranclp_into_rtranclp r_into_rtranclp)
  ultimately show ?thesis using r(2) by blast
qed

lemma blocked_can_complete:
  assumes inv: "sys_inv True g" and p: "gs_pods g k = Some p" and blocked: "hooks p h = HBlocked ctx i" and few: "issued p \<le> 2 ^ 32"
  shows "\<exists>g' p' q t buf off. (sys_step True)\<^sup>*\<^sup>* g g' \<and> gs_pods g' k = Some p' \<and> hooks p' h = HRecv (fst ctx)
    \<and> granted_to k (pod_name p) i q t (gs_sched g') \<and> pod_quota p' = double_of_bits (bits_of_double q)
    \<and> last (to_hooks p') = (h, buf) \<and> parse_response buf = Some (snd ctx, off)
    \<and> get_msg_data 8 word64 (attached_data buf off) 0 = Some (bits_of_double (pod_quota p'), 8)"
proof -
  obtain g1 where g1: "serves k g g1" "emptied 5 k g1" using all_emptied [OF inv p] by blast
  then obtain p1 where p1: "gs_pods g1 k = Some p1" "hooks p1 = hooks p" "pod_name p1 = pod_name p" "issued p1 = issued p"
    using p by (auto simp: serves_def undisturbed_def)
  have asked: "asked p1 i" using blocked p1(2) by (auto simp: asked_def awaiting_def intro!: exI [of _ h])
  obtain data q t pos where d: "response_map p1 i = Some data" "granted_to k (pod_name p1) i q t (gs_sched g1)"
      "get_msg_data 8 word64 data 0 = Some (bits_of_double q, pos)"
    using emptied_response [OF serves_inv [OF g1(1) inv] g1(2) p1(1) _ asked] few p1(4) by metis
  obtain p3 buf off where c: "pod_local\<^sup>*\<^sup>* p1 p3" "hooks p3 h = HRecv (fst ctx)"
      "pod_quota p3 = double_of_bits (bits_of_double q)" "to_hooks p3 = to_hooks p1 @ [(h, buf)]" "parse_response buf = Some (snd ctx, off)"
      "get_msg_data 8 word64 (attached_data buf off) 0 = Some (bits_of_double (double_of_bits (bits_of_double q)), 8)"
    using thread_completes [OF _ d(1,3), of h ctx] blocked p1(2) by auto
  let ?g3 = "set_pod k p3 g1"
  have "(sys_step True)\<^sup>*\<^sup>* g1 ?g3" by (rule pod_run [OF c(1) p1(1)])
  then have "(sys_step True)\<^sup>*\<^sup>* g ?g3" using g1(1) by (meson serves_def rtranclp_trans)
  moreover have "gs_pods ?g3 k = Some p3" "granted_to k (pod_name p) i q t (gs_sched ?g3)"
    using d(2) p1(3) by (simp_all add: set_pod_def)
  ultimately show ?thesis using c(2-6) by (intro exI [of _ ?g3] exI [of _ p3] exI [of _ q] exI [of _ t] exI [of _ buf] exI [of _ off]) simp
qed

end
