(* ===== verification/Gem_Runs.thy ===== *)
theory Gem_Runs
  imports Gem_Service
begin

text \<open>
  Runs of the whole system: pod managers that join, a client that asks, the scheduler that grants, a pod manager that
  leaves; and the properties of the system, in both environments of \<open>Gem_System\<close>.
\<close>

section \<open>Pieces of runs\<close>

lemma hook_moves_local: "(hook_move h)\<^sup>*\<^sup>* p p' \<Longrightarrow> pod_local\<^sup>*\<^sup>* p p'"
  by (induction rule: rtranclp_induct) (auto simp: hook_move_def intro: rtranclp.rtrancl_into_rtrancl local_hook)

lemma ask_local:
  assumes "hooks p h = HNone"
  shows "pod_local\<^sup>*\<^sup>* p (ask h p)"
proof -
  let ?p = "hook_connect h (replicate 80 0) p"
  have "pod_local p ?p" using assms by (intro local_accept) (simp_all add: REQ_MSG_LEN_def)
  moreover have "pod_local ?p (ask h p)"
    using local_recv [of ?p h "replicate 80 0" launch_message "ask h p"] ask_message [of h p]
    by (simp add: hook_connect_def set_pc_def launch_message_def REQ_MSG_LEN_def)
  ultimately show ?thesis by (meson converse_rtranclp_into_rtranclp rtranclp.rtrancl_refl)
qed

text \<open>A pod manager joins.\<close>

definition joins :: "sockfd \<Rightarrow> pod_environment \<Rightarrow> gem_system \<Rightarrow> gem_system \<Rightarrow> bool" where
  "joins k ev g g' \<longleftrightarrow> (\<exists>msg rsp limit.
     gs_sched g' = (gs_sched g)\<lparr>conns := (conns (gs_sched g))(k := Receiving msg), sent := sent (gs_sched g) @ [(k, rsp)]\<rparr>
     \<and> gs_pods g' = (gs_pods g)(k \<mapsto> started_pod ev \<lparr>client_name = Some (resolve_name (pod_env_of ev) comm_init), next_id = next_id comm_init + 1\<rparr>
          (fresh_account limit) (s_clock (gs_sched g)))
     \<and> gs_up g' k = 0 \<and> gs_down g' k = Suc (length (sent_to k (gs_sched g))))"

lemma join_run:
  assumes "gs_pods g k = None" and "crashed (gs_sched g) = None" and "conns (gs_sched g) k = NoConn"
    and "careful \<Longrightarrow> no_request_of k (gs_sched g)"
    and "name = resolve_name (pod_env_of ev) comm_init" and "c_safe name" and "length name \<le> 47"
    and "client_info_map (gs_sched g) name = Some c"
  shows "\<exists>g'. sys_step careful g g' \<and> joins k ev g g'"
proof -
  let ?env = "pod_env_of ev" and ?s = "gs_sched g"
  have n: "c_safe (resolve_name ?env comm_init)" "length (resolve_name ?env comm_init) \<le> 63" "(0::int) < 5"
      "client_info_map ?s (resolve_name ?env comm_init) = Some c"
    using assms(5-8) by simp_all
  obtain st rsp where st: "retrieve_mem_info ?env comm_init (schd_exchange k) 5 ([], ?s) =
      Some (Inr (fresh_account (gpu_mem_limit c)), st, ?s\<lparr>sent := sent ?s @ [(k, rsp)]\<rparr>)"
      "st = \<lparr>client_name = Some (resolve_name ?env comm_init), next_id = next_id comm_init + 1\<rparr>"
    using pod_learns_limit [OF n, of k "[]"] by blast
  have known: "client_info_map ?s name \<noteq> None" using assms(8) by simp
  let ?g = "g\<lparr>gs_sched := received k (limit_message ?env comm_init) (?s\<lparr>sent := sent ?s @ [(k, rsp)]\<rparr>) None,
      gs_pods := (gs_pods g)(k \<mapsto> started_pod ev st (fresh_account (gpu_mem_limit c)) (s_clock (?s\<lparr>sent := sent ?s @ [(k, rsp)]\<rparr>))),
      gs_up := (gs_up g)(k := 0), gs_down := (gs_down g)(k := length (sent_to k (?s\<lparr>sent := sent ?s @ [(k, rsp)]\<rparr>)))\<rparr>"
  have "sys_step careful g ?g" by (rule sys_join [OF assms(1-7) known st(1)])
  moreover have "joins k ev g ?g"
    unfolding joins_def
    by (intro exI [of _ "limit_message ?env comm_init"] exI [of _ rsp] exI [of _ "gpu_mem_limit c"])
      (simp add: received_def sent_to_def st(2))
  ultimately show ?thesis by blast
qed

text \<open>The first client of a pod manager asks for a token, and its thread blocks.\<close>

definition asking :: "byte list \<Rightarrow> pod_state \<Rightarrow> pod_state" where
  "asking msg p = set_pc 5 (HBlocked (launch_message, 7) (next_id (pod_comm p)))
     (claimed 5 (launch_message, 7) (double_of_bits 0) tiny_burst msg (ask 5 p))"

definition fresh_pod :: "pod_state \<Rightarrow> bool" where
  "fresh_pod p \<longleftrightarrow> pod_init p \<and> named_pod p"

lemma asking_sel:
  assumes "fresh_pod p"
  shows "request_queue (asking msg p) = [(next_id (pod_comm p), msg)]" "to_scheduler (asking msg p) = []"
    "sender (asking msg p) = SLoop" "hooks (asking msg p) 5 = HBlocked (launch_message, 7) (next_id (pod_comm p))"
    "pod_name (asking msg p) = pod_name p" "issued (asking msg p) = 1" "response_map (asking msg p) = Map.empty"
    "pod_quota (asking msg p) = 0"
  using assms
  by (simp_all add: fresh_pod_def pod_init_def asking_def claimed_def ask_def hook_connect_def set_pc_def pod_name_def resolve_name_def)

lemma ask_run:
  assumes "fresh_pod p"
  obtains msg att where "pod_local\<^sup>*\<^sup>* p (asking msg p)" "carries msg (pod_name p) (next_id (pod_comm p)) REQ_QUOTA att"
    "get_msg_data 8 word64 att 0 = Some (bits_of_double 0, 8)" "get_msg_data 8 word64 att 8 = Some (bits_of_double tiny_burst, 16)"
proof -
  let ?a = "ask 5 p"
  let ?ctx = "(launch_message, 7 :: int32)"
  have zero: "double_of_bits 0 = 0" by (simp add: double_of_bits_def magnitude_def bits_exponent_def bits_mantissa_def)
  have a: "hooks ?a 5 = HCheck ?ctx (double_of_bits 0) tiny_burst" "quota_state ?a = 0" "pod_name ?a = pod_name p"
      "pod_comm ?a = pod_comm p" "pod_overuse_ms ?a = 0" "client_burst_map ?a = [(5, 0)]" "pod_quota ?a = 0" "elapsed_ms ?a = 0"
      "sender_signalled ?a = sender_signalled p"
    using assms by (simp_all add: fresh_pod_def pod_init_def ask_def hook_connect_def set_pc_def pod_name_def elapsed_ms_def
        ms_of_def to_microseconds_def sdiv_nonneg)
  have "named_pod ?a" using assms a(3) by (simp add: fresh_pod_def named_pod_def)
  moreover have "pod_quota ?a < elapsed_ms ?a + tiny_burst" using tiny_burst_pos a(7,8) by simp
  ultimately obtain msg att where run: "(hook_move 5)\<^sup>*\<^sup>* ?a (claimed 5 ?ctx (double_of_bits 0) tiny_burst msg ?a)"
    and msg: "carries msg (pod_name ?a) (next_id (pod_comm ?a)) REQ_QUOTA att"
      "get_msg_data 8 word64 att 0 = Some (bits_of_double (max (double_of_bits 0) (pod_overuse_ms ?a)), 8)"
      "get_msg_data 8 word64 att 8 = Some (bits_of_double (max_burst (AList.update 5 tiny_burst (client_burst_map ?a))), 16)"
    using launch_expired [OF a(1,2)] by blast
  let ?c = "claimed 5 ?ctx (double_of_bits 0) tiny_burst msg ?a"
  have "hook_step Run 5 ?c = Some (launch_wait 5 ?ctx (next_id (pod_comm p)) ?c)"
    by (simp add: hook_step_def claimed_def a(4))
  moreover have "launch_wait 5 ?ctx (next_id (pod_comm p)) ?c = asking msg p"
    using assms by (simp add: launch_wait_def asking_def claimed_def fresh_pod_def pod_init_def ask_def hook_connect_def set_pc_def)
  ultimately have "pod_local ?c (asking msg p)" by (metis local_hook)
  moreover have "pod_local\<^sup>*\<^sup>* p ?a" using assms by (intro ask_local) (simp add: fresh_pod_def pod_init_def)
  ultimately have "pod_local\<^sup>*\<^sup>* p (asking msg p)" using hook_moves_local [OF run] by (meson rtranclp.rtrancl_into_rtrancl rtranclp_trans)
  moreover have "max_burst (AList.update 5 tiny_burst (client_burst_map ?a)) = tiny_burst"
    using tiny_burst_pos by (simp add: a(6) max_burst_def)
  ultimately show thesis using that msg a(3,4,5) zero by simp
qed

lemma send_run:
  assumes "sender p = SLoop" and "request_queue p = [(i, msg)]"
  shows "pod_local\<^sup>*\<^sup>* p (p\<lparr>sender := SLoop, sender_signalled := False, request_queue := [], to_scheduler := to_scheduler p @ [msg]\<rparr>)"
proof -
  let ?r = "p\<lparr>sender := SLoop, sender_signalled := False, request_queue := [], to_scheduler := to_scheduler p @ [msg]\<rparr>"
  let ?w = "p\<lparr>sender := SWait, sender_signalled := False\<rparr>"
  have "sender_step Run True p = Some ?w" using assms(1) by (simp add: sender_step_def)
  then have "pod_local p ?w" by (rule local_send)
  moreover have "sender_step Spurious True ?w = Some ?r" using assms(2) by (simp add: sender_step_def wakes_def)
  then have "pod_local ?w ?r" by (rule local_send)
  ultimately show ?thesis by (rule converse_rtranclp_into_rtranclp [OF _ r_into_rtranclp])
qed

text \<open>A request arrives at the scheduler and is pushed.\<close>

definition arrives :: "sockfd \<Rightarrow> string \<Rightarrow> int32 \<Rightarrow> byte list \<Rightarrow> double \<Rightarrow> double \<Rightarrow> sched_state \<Rightarrow> sched_state" where
  "arrives k name i msg x y s =
     (let (c, hist) = update_return_time (ms_since_start s) x (the (client_info_map s name)) (history_list s)
      in (push_candidate k name i (s\<lparr>client_info_map := (client_info_map s)(name \<mapsto> set_burst y c), history_list := hist\<rparr>))
         \<lparr>conns := (conns s)(k := Receiving msg)\<rparr>)"

lemma arrive_run:
  assumes "gs_pods g k = Some p" and "crashed (gs_sched g) = None" and "conns (gs_sched g) k = Receiving buf"
    and "requests_under_way k p g = [msg]" and "carries msg name i REQ_QUOTA att"
    and "get_msg_data 8 word64 att 0 = Some (a, 8)" and "get_msg_data 8 word64 att 8 = Some (b, 16)"
    and "client_info_map (gs_sched g) name = Some c"
  shows "(sys_step careful)\<^sup>*\<^sup>* g (g\<lparr>gs_up := (gs_up g)(k := Suc (gs_up g k)),
    gs_sched := arrives k name i msg (double_of_bits a) (double_of_bits b) (gs_sched g)\<rparr>)"
proof -
  let ?s = "gs_sched g"
  let ?u = "update_return_time (ms_since_start ?s) (double_of_bits a) c (history_list ?s)"
  let ?t = "?s\<lparr>client_info_map := (client_info_map ?s)(name \<mapsto> set_burst (double_of_bits b) (fst ?u)), history_list := snd ?u\<rparr>"
  define r where "r = received k msg ?t (Some (name, i))"
  let ?g = "g\<lparr>gs_sched := r, gs_up := (gs_up g)(k := Suc (gs_up g k))\<rparr>"
  have "handle_unlocked k msg ?s = Some (?t, Some (name, i))"
    using handle_unlocked_quota [OF assms(5-8)] by (simp add: case_prod_unfold Let_def)
  then have "sys_step careful g ?g" unfolding r_def by (rule sys_up [OF assms(1-4)])
  moreover have "conns r k = Pushing msg name i" "crashed r = None" using assms(2) by (simp_all add: r_def received_def)
  then have "sys_step careful ?g (?g\<lparr>gs_sched := (push_candidate k name i r)\<lparr>conns := (conns r)(k := Receiving msg)\<rparr>\<rparr>)"
    using local_push [of r k msg name i] by (intro sys_sched) simp_all
  moreover have "(push_candidate k name i r)\<lparr>conns := (conns r)(k := Receiving msg)\<rparr> =
      arrives k name i msg (double_of_bits a) (double_of_bits b) ?s"
    using assms(8) by (simp add: arrives_def r_def received_def push_candidate_def Let_def case_prod_unfold ms_since_start_def)
  ultimately show ?thesis by (simp add: converse_rtranclp_into_rtranclp [OF _ r_into_rtranclp])
qed

text \<open>The daemon, at the top of its loop with an empty history, grants the first candidate and sends it the quota.\<close>

lemma grant_run:
  assumes "crashed (gs_sched g) = None" and "daemon (gs_sched g) = DTop" and "candidates (gs_sched g) = [c]"
    and "client_info_map (gs_sched g) (cand_name c) = Some ci" and "history_list (gs_sched g) = []"
  shows "\<exists>s buf off. (sys_step careful)\<^sup>*\<^sup>* g (g\<lparr>gs_sched := s\<rparr>)
    \<and> s_log s = Granted c (fst (get_quota ci)) (s_clock (gs_sched g)) # s_log (gs_sched g)
    \<and> sent s = sent (gs_sched g) @ [(cand_socket c, buf)] \<and> length buf = RSP_MSG_LEN
    \<and> parse_response buf = Some (cand_req_id c, off)
    \<and> get_msg_data 8 word64 (attached_data buf off) 0 = Some (bits_of_double (fst (get_quota ci)), 8)"
proof -
  let ?s = "gs_sched g" and ?q = "fst (get_quota ci)"
  obtain t where t: "select_turn ?s = Inr t" "s_log t = Granted c ?q (s_clock ?s) # s_log ?s" "granted_front ?s t"
      "sent t = sent ?s" "daemon t = DSend c ?q"
    using select_turn_expired [of ?s] assms(3-5) by auto
  obtain buf where buf: "prepare_response (replicate RSP_MSG_LEN 0) REQ_QUOTA (cand_req_id c) [ADouble (bits_of_double ?q)] = Some (buf, 12)"
    using daemon_send_eq [of c ?q t] by blast
  obtain off where rsp: "length buf = RSP_MSG_LEN" "parse_response buf = Some (cand_req_id c, off)"
      "get_msg_data 8 word64 (attached_data buf off) 0 = Some (bits_of_double ?q, 8)"
    by (rule grant_response [OF buf])
  let ?u = "t\<lparr>sent := sent t @ [(cand_socket c, buf)], daemon := DRelock c (get_timespec_after ?q (s_clock t))\<rparr>"
  have "daemon_step Proceed ?s = Some (Inr t)" using assms(2,3) t(1) by (simp add: daemon_step_def daemon_lock_def)
  then have "sys_step careful g (g\<lparr>gs_sched := t\<rparr>)" by (intro sys_sched [OF assms(1)] local_daemon)
  moreover have "daemon_step Proceed t = Some (Inr ?u)" by (simp add: daemon_step_def t(5) daemon_send_def buf)
  then have "sched_local t ?u" by (rule local_daemon)
  then have "sys_step careful (g\<lparr>gs_sched := t\<rparr>) (g\<lparr>gs_sched := ?u\<rparr>)"
    using sys_sched [of "g\<lparr>gs_sched := t\<rparr>" ?u] t(3) assms(1) by (simp add: granted_front_def)
  ultimately have "(sys_step careful)\<^sup>*\<^sup>* g (g\<lparr>gs_sched := ?u\<rparr>)" by (rule converse_rtranclp_into_rtranclp [OF _ r_into_rtranclp])
  then show ?thesis
    using rsp by (intro exI [of _ ?u] exI [of _ buf] exI [of _ off]) (simp add: t(2,4))
qed

section \<open>A scheduler with two pods\<close>

definition sample_pod :: "string \<Rightarrow> pod_environment" where
  "sample_pod name = \<lparr>ev_pod_name = Some name, ev_hostname = ''node'', ev_manager_port = None, ev_scheduler_ip = None,
     ev_scheduler_port = None\<rparr>"

definition two_pods :: gem_system where
  "two_pods = \<lparr>gs_sched = boot_state\<lparr>client_info_map :=
       [''pod1'' \<mapsto> (new_ClientInfo 250 100 8000 (1/2) (4/5))\<lparr>c_name := ''pod1'', gpu_mem_limit := 4096\<rparr>,
        ''pod2'' \<mapsto> (new_ClientInfo 300 100 8000 (1/5) (1/2))\<lparr>c_name := ''pod2'', gpu_mem_limit := 2048\<rparr>]\<rparr>,
     gs_pods = (\<lambda>_. None), gs_up = (\<lambda>_. 0), gs_down = (\<lambda>_. 0)\<rparr>"

lemma two_pods_init: "sys_init two_pods"
  by (simp add: sys_init_def two_pods_def sched_init_def boot_state_def named_clients_def)

lemma sample_pod_name [simp]: "resolve_name (pod_env_of (sample_pod name)) comm_init = name"
  by (simp add: resolve_name_def comm_init_def pod_env_of_def sample_pod_def)

text \<open>The state of a pod manager that has just joined.\<close>

lemma joins_pod:
  assumes "joins k (sample_pod name) g g'" and "c_safe name" and "length name \<le> 47"
  obtains p where "gs_pods g' = (gs_pods g)(k \<mapsto> p)" "fresh_pod p" "pod_name p = name" "next_id (pod_comm p) = next_id comm_init + 1"
proof -
  obtain limit where "gs_pods g' = (gs_pods g)(k \<mapsto> started_pod (sample_pod name)
      \<lparr>client_name = Some name, next_id = next_id comm_init + 1\<rparr> (fresh_account limit) (s_clock (gs_sched g)))" (is "_ = _(k \<mapsto> ?p)")
    using assms(1) unfolding joins_def sample_pod_name by blast
  moreover have "pod_init ?p" by (rule started_pod_init)
  moreover have "pod_name ?p = name" "next_id (pod_comm ?p) = next_id comm_init + 1"
    by (simp_all add: started_pod_def pod_name_def resolve_name_def)
  moreover from this have "named_pod ?p" using assms(2,3) by (simp add: named_pod_def)
  ultimately show thesis using that by (simp add: fresh_pod_def)
qed

text \<open>The first pod has joined and its client waits for a quota.\<close>

lemma first_asks:
  obtains g p msg rsp buf att where "(sys_step careful)\<^sup>*\<^sup>* two_pods g" "gs_pods g = [4 \<mapsto> asking msg p]" "fresh_pod p"
    "pod_name p = ''pod1''" "next_id (pod_comm p) = next_id comm_init + 1"
    "gs_sched g = (gs_sched two_pods)\<lparr>conns := (\<lambda>_. NoConn)(4 := Receiving buf), sent := [(4, rsp)]\<rparr>" "gs_up g 4 = 0" "gs_down g 4 = 1"
    "carries msg ''pod1'' (next_id comm_init + 1) REQ_QUOTA att"
    "get_msg_data 8 word64 att 0 = Some (bits_of_double 0, 8)" "get_msg_data 8 word64 att 8 = Some (bits_of_double tiny_burst, 16)"
proof -
  obtain g where g: "sys_step careful two_pods g" "joins 4 (sample_pod ''pod1'') two_pods g"
    using join_run [of two_pods 4 careful "''pod1''" "sample_pod ''pod1''"]
    by (auto simp: two_pods_def boot_state_def no_request_of_def c_safe_def)
  obtain p where p: "gs_pods g = [4 \<mapsto> p]" "fresh_pod p" "pod_name p = ''pod1''" "next_id (pod_comm p) = next_id comm_init + 1"
    using joins_pod [OF g(2)] by (auto simp: c_safe_def two_pods_def)
  have boot: "conns (gs_sched two_pods) = (\<lambda>_. NoConn)" "sent (gs_sched two_pods) = []"
    by (simp_all add: two_pods_def boot_state_def)
  obtain buf rsp where s: "gs_sched g = (gs_sched two_pods)\<lparr>conns := (\<lambda>_. NoConn)(4 := Receiving buf), sent := [(4, rsp)]\<rparr>"
      "gs_up g 4 = 0" "gs_down g 4 = 1"
    using g(2) unfolding joins_def boot sent_to_def by auto
  obtain msg att where ask: "pod_local\<^sup>*\<^sup>* p (asking msg p)" "carries msg (pod_name p) (next_id (pod_comm p)) REQ_QUOTA att"
      "get_msg_data 8 word64 att 0 = Some (bits_of_double 0, 8)" "get_msg_data 8 word64 att 8 = Some (bits_of_double tiny_burst, 16)"
    by (rule ask_run [OF p(2)])
  have "gs_pods g 4 = Some p" using p(1) by simp
  then have "(sys_step careful)\<^sup>*\<^sup>* g (set_pod 4 (asking msg p) g)" by (rule pod_run [OF ask(1)])
  with g(1) have "(sys_step careful)\<^sup>*\<^sup>* two_pods (set_pod 4 (asking msg p) g)" by (rule converse_rtranclp_into_rtranclp)
  moreover have "gs_pods (set_pod 4 (asking msg p) g) = [4 \<mapsto> asking msg p]" using p(1) by (simp add: set_pod_def)
  moreover have "gs_sched (set_pod 4 (asking msg p) g) = gs_sched g" "gs_up (set_pod 4 (asking msg p) g) = gs_up g"
      "gs_down (set_pod 4 (asking msg p) g) = gs_down g" by (simp_all add: set_pod_def)
  ultimately show thesis using that p(2-4) s ask(2-4) by (metis (no_types))
qed

section \<open>A grant to a pod manager that has left\<close>

text \<open>The first pod's manager leaves while its request waits in the candidate list: the request stays.\<close>

definition orphan :: candidate_t where
  "orphan = \<lparr>cand_socket = 4, cand_name = ''pod1'', cand_req_id = next_id comm_init + 1, cand_arrived_time = 0\<rparr>"

definition asked_pod1 :: ClientInfo where
  "asked_pod1 = (new_ClientInfo 250 100 8000 (1/2) (4/5))\<lparr>c_name := ''pod1'', gpu_mem_limit := 4096, burst := tiny_burst\<rparr>"

definition left_behind :: "byte list \<Rightarrow> sched_state" where
  "left_behind rsp = (gs_sched two_pods)\<lparr>client_info_map := (client_info_map (gs_sched two_pods))(''pod1'' \<mapsto> asked_pod1),
     sent := [(4, rsp)], candidates := [orphan], s_log := [Arrived orphan]\<rparr>"

lemma double_of_zero [simp]: "double_of_bits 0 = 0"
  by (simp add: double_of_bits_def magnitude_def bits_exponent_def bits_mantissa_def)

lemma zero_bits: "double_of_bits (bits_of_double 0) = 0"
  by (simp add: bits_of_double_def)

lemma tiny_bits: "double_of_bits (bits_of_double tiny_burst) = tiny_burst"
  by (rule bits_of_double_exact) (auto simp: representable_def tiny_burst_def finite_bits_def bits_exponent_def intro!: exI [of _ 1])

lemma first_arrives:
  obtains g p msg rsp where "(sys_step careful)\<^sup>*\<^sup>* two_pods g" "gs_pods g = [4 \<mapsto> p]" "gs_down g 4 = 1" "pod_name p = ''pod1''"
    "hooks p 5 = HBlocked (launch_message, 7) (next_id comm_init + 1)" "response_map p = Map.empty"
    "gs_sched g = (left_behind rsp)\<lparr>conns := (\<lambda>_. NoConn)(4 := Receiving msg)\<rparr>"
proof -
  obtain g p msg rsp buf att where g: "(sys_step careful)\<^sup>*\<^sup>* two_pods g" "gs_pods g = [4 \<mapsto> asking msg p]" "fresh_pod p"
      "pod_name p = ''pod1''" "next_id (pod_comm p) = next_id comm_init + 1"
      "gs_sched g = (gs_sched two_pods)\<lparr>conns := (\<lambda>_. NoConn)(4 := Receiving buf), sent := [(4, rsp)]\<rparr>" "gs_up g 4 = 0"
      "gs_down g 4 = 1"
    and msg: "carries msg ''pod1'' (next_id comm_init + 1) REQ_QUOTA att"
      "get_msg_data 8 word64 att 0 = Some (bits_of_double 0, 8)" "get_msg_data 8 word64 att 8 = Some (bits_of_double tiny_burst, 16)"
    by (rule first_asks)
  define q where "q = (asking msg p)\<lparr>sender := SLoop, sender_signalled := False, request_queue := [],
    to_scheduler := to_scheduler (asking msg p) @ [msg]\<rparr>"
  have "pod_local\<^sup>*\<^sup>* (asking msg p) q" unfolding q_def by (rule send_run [OF asking_sel(3,1) [OF g(3)]])
  then have r2: "(sys_step careful)\<^sup>*\<^sup>* g (set_pod 4 q g)" by (rule pod_run) (simp add: g(2))
  let ?g = "set_pod 4 q g" and ?s = "arrives 4 ''pod1'' (next_id comm_init + 1) msg 0 tiny_burst (gs_sched g)"
  let ?h = "?g\<lparr>gs_up := (gs_up ?g)(4 := Suc (gs_up ?g 4)), gs_sched := ?s\<rparr>"
  have known: "client_info_map (gs_sched g) ''pod1'' = Some (asked_pod1\<lparr>burst := 0\<rparr>)"
    by (simp add: g(6) two_pods_def asked_pod1_def new_ClientInfo_def)
  have "requests_under_way 4 q ?g = [msg]" by (simp add: requests_under_way_def set_pod_def g(7) q_def asking_sel(2) [OF g(3)])
  moreover have "crashed (gs_sched ?g) = None" "conns (gs_sched ?g) 4 = Receiving buf" "gs_pods ?g 4 = Some q"
    by (simp_all add: set_pod_def g(6) two_pods_def boot_state_def)
  ultimately have r3: "(sys_step careful)\<^sup>*\<^sup>* ?g ?h"
    using arrive_run [of ?g 4 q buf msg "''pod1''" _ att "bits_of_double 0" "bits_of_double tiny_burst", OF _ _ _ _ msg] known
    by (simp add: set_pod_def zero_bits tiny_bits)
  have hist: "history_list (gs_sched g) = []" by (simp add: g(6) two_pods_def boot_state_def)
  have "gs_sched ?h = (left_behind rsp)\<lparr>conns := (\<lambda>_. NoConn)(4 := Receiving msg)\<rparr>"
    using known by (simp add: arrives_def hist update_return_time_absent push_candidate_def Let_def set_burst_def)
      (simp add: g(6) left_behind_def two_pods_def boot_state_def orphan_def asked_pod1_def new_ClientInfo_def ms_since_start_def ms_of_def
        to_microseconds_def sdiv_nonneg)
  moreover have "(sys_step careful)\<^sup>*\<^sup>* two_pods ?h" using g(1) r2 r3 by (meson rtranclp_trans)
  moreover have "gs_pods ?h = [4 \<mapsto> q]" "gs_down ?h 4 = 1" by (simp_all add: set_pod_def g(2,8))
  moreover have "pod_name q = ''pod1''" "hooks q 5 = HBlocked (launch_message, 7) (next_id comm_init + 1)" "response_map q = Map.empty"
    using asking_sel(4,5,7) [OF g(3), of msg] g(4,5) by (simp_all add: q_def pod_name_def)
  ultimately show thesis by (intro that [of ?h q msg rsp]) (assumption | simp)+
qed

lemma orphaned:
  obtains g rsp where "(sys_step False)\<^sup>*\<^sup>* two_pods g" "gs_pods g = Map.empty" "gs_sched g = left_behind rsp"
proof -
  obtain g p msg rsp where g: "(sys_step False)\<^sup>*\<^sup>* two_pods g" "gs_pods g = [4 \<mapsto> p]"
      "gs_sched g = (left_behind rsp)\<lparr>conns := (\<lambda>_. NoConn)(4 := Receiving msg)\<rparr>"
    by (rule first_arrives)
  let ?h = "g\<lparr>gs_sched := (gs_sched g)\<lparr>conns := (conns (gs_sched g))(4 := NoConn)\<rparr>, gs_pods := (gs_pods g)(4 := None)\<rparr>"
  have "sys_step False g ?h"
    by (rule sys_leave [where p = p and buf = msg]) (simp_all add: g(2,3) left_behind_def two_pods_def boot_state_def)
  with g(1) have "(sys_step False)\<^sup>*\<^sup>* two_pods ?h" by (rule rtranclp.rtrancl_into_rtrancl)
  moreover have "conns (left_behind rsp) = (\<lambda>_. NoConn)" by (simp add: left_behind_def two_pods_def boot_state_def)
  then have "gs_sched ?h = left_behind rsp" by (simp add: g(3) fun_upd_idem)
  moreover have "gs_pods ?h = Map.empty" by (simp add: g(2))
  ultimately show thesis using that by blast
qed

text \<open>The second pod's manager is given the same descriptor, and its client asks under the same request id.\<close>

lemma second_asks:
  obtains g p rsp msg buf rsp' where "(sys_step False)\<^sup>*\<^sup>* two_pods g" "gs_pods g = [4 \<mapsto> asking msg p]" "fresh_pod p"
    "pod_name p = ''pod2''" "next_id (pod_comm p) = cand_req_id orphan" "gs_down g 4 = 2"
    "gs_sched g = (left_behind rsp)\<lparr>conns := (\<lambda>_. NoConn)(4 := Receiving buf), sent := [(4, rsp), (4, rsp')]\<rparr>"
proof -
  obtain g rsp where g: "(sys_step False)\<^sup>*\<^sup>* two_pods g" "gs_pods g = Map.empty" "gs_sched g = left_behind rsp"
    by (rule orphaned)
  have boot: "conns (left_behind rsp) = (\<lambda>_. NoConn)" "sent (left_behind rsp) = [(4, rsp)]" "crashed (left_behind rsp) = None"
      "client_info_map (left_behind rsp) ''pod2'' \<noteq> None"
    by (simp_all add: left_behind_def two_pods_def boot_state_def)
  obtain h where h: "sys_step False g h" "joins 4 (sample_pod ''pod2'') g h"
    using join_run [of g 4 False "''pod2''" "sample_pod ''pod2''"] boot g(2,3) by (auto simp: c_safe_def)
  obtain p where p: "gs_pods h = [4 \<mapsto> p]" "fresh_pod p" "pod_name p = ''pod2''" "next_id (pod_comm p) = next_id comm_init + 1"
    using joins_pod [OF h(2)] by (auto simp: c_safe_def g(2))
  obtain buf rsp' where s: "gs_sched h = (left_behind rsp)\<lparr>conns := (\<lambda>_. NoConn)(4 := Receiving buf), sent := [(4, rsp), (4, rsp')]\<rparr>"
      "gs_down h 4 = 2"
    using h(2) unfolding joins_def boot sent_to_def g(3) by auto
  obtain msg att where ask: "pod_local\<^sup>*\<^sup>* p (asking msg p)" by (rule ask_run [OF p(2)])
  have "gs_pods h 4 = Some p" using p(1) by simp
  then have "(sys_step False)\<^sup>*\<^sup>* h (set_pod 4 (asking msg p) h)" by (rule pod_run [OF ask])
  then have "(sys_step False)\<^sup>*\<^sup>* two_pods (set_pod 4 (asking msg p) h)" using g(1) h(1) by (meson rtranclp.rtrancl_into_rtrancl rtranclp_trans)
  then show thesis
    by (rule that [of "set_pod 4 (asking msg p) h" msg p rsp rsp' buf])
      (use p s in \<open>simp_all add: set_pod_def orphan_def\<close>)
qed

lemma representable_250: "representable 250"
  unfolding representable_def
  by (intro exI [of _ "0x406F400000000000"])
    (simp add: finite_bits_def double_of_bits_def magnitude_def bits_exponent_def bits_mantissa_def power_int_minus)

lemma quota_pod1: "fst (get_quota asked_pod1) = 250"
proof -
  have "tiny_burst < 1 / 10 ^ 9"
    by (simp add: tiny_burst_def double_of_bits_def magnitude_def bits_exponent_def bits_mantissa_def power_int_minus field_simps)
  then show ?thesis by (simp add: get_quota_def asked_pod1_def new_ClientInfo_def Let_def)
qed

text \<open>The daemon grants the one candidate and the pod manager on its descriptor takes the quota.\<close>

lemma answer_run:
  assumes "gs_pods g 4 = Some a" and "hooks a 5 = HBlocked (launch_message, 7) (cand_req_id orphan)" and "response_map a = Map.empty"
    and "gs_sched g = (left_behind rsp)\<lparr>conns := f, sent := map (Pair 4) rsps\<rparr>" and "gs_down g 4 = length rsps"
  obtains g' p where "(sys_step careful)\<^sup>*\<^sup>* g g'" "gs_pods g' 4 = Some p" "pod_name p = pod_name a" "pod_quota p = 250"
    "hooks p 5 = HRecv launch_message" "s_log (gs_sched g') = [Granted orphan 250 (s_clock (gs_sched g)), Arrived orphan]"
proof -
  have s: "crashed (gs_sched g) = None" "daemon (gs_sched g) = DTop" "candidates (gs_sched g) = [orphan]"
      "client_info_map (gs_sched g) (cand_name orphan) = Some asked_pod1" "history_list (gs_sched g) = []"
      "s_log (gs_sched g) = [Arrived orphan]" "sent_to 4 (gs_sched g) = rsps"
    by (simp_all add: assms(4) left_behind_def two_pods_def boot_state_def orphan_def sent_to_def filter_map comp_def)
  obtain u q off where u: "(sys_step careful)\<^sup>*\<^sup>* g (g\<lparr>gs_sched := u\<rparr>)" "s_log u = Granted orphan 250 (s_clock (gs_sched g)) # s_log (gs_sched g)"
      "sent u = sent (gs_sched g) @ [(cand_socket orphan, q)]"
    and q: "length q = RSP_MSG_LEN" "parse_response q = Some (cand_req_id orphan, off)"
      "get_msg_data 8 word64 (attached_data q off) 0 = Some (bits_of_double 250, 8)"
    using grant_run [OF s(1-5), of careful] unfolding quota_pod1 by blast
  let ?g = "g\<lparr>gs_sched := u\<rparr>"
  let ?r = "a\<lparr>response_map := (response_map a)(cand_req_id orphan \<mapsto> attached_data q off), rsp_signalled := {j. \<exists>c i. hooks a j = HBlocked c i}\<rparr>"
  let ?h = "set_pod 4 ?r (?g\<lparr>gs_down := (gs_down ?g)(4 := Suc (gs_down ?g 4))\<rparr>)"
  have "receiver_step q a = Some ?r" by (rule receiver_stores [OF q(1,2)]) (simp add: assms(3))
  moreover have "sent_to 4 u = rsps @ [q]" using s(7) by (simp add: sent_to_def u(3) orphan_def)
  then have "responses_under_way 4 ?g = [q]" by (simp add: responses_under_way_def assms(5))
  ultimately have d: "sys_step careful ?g ?h" using assms(1) by (intro sys_down [where p = a]) simp_all
  obtain p2 where c: "pod_local\<^sup>*\<^sup>* ?r p2" "hooks p2 5 = HRecv launch_message" "pod_quota p2 = double_of_bits (bits_of_double 250)"
      "pod_name p2 = pod_name ?r"
    using thread_completes [of ?r 5 "(launch_message, 7)" "cand_req_id orphan" "attached_data q off" "bits_of_double 250" 8]
      assms(2) q(3) by auto
  have "(sys_step careful)\<^sup>*\<^sup>* ?h (set_pod 4 p2 ?h)" by (rule pod_run [OF c(1)]) (simp add: set_pod_def)
  then have "(sys_step careful)\<^sup>*\<^sup>* g (set_pod 4 p2 ?h)" using u(1) d by (meson converse_rtranclp_into_rtranclp rtranclp_trans)
  moreover have "pod_name p2 = pod_name a" "pod_quota p2 = 250"
    using c(3,4) bits_of_double_exact [OF representable_250] by (simp_all add: pod_name_def)
  moreover have "s_log (gs_sched (set_pod 4 p2 ?h)) = [Granted orphan 250 (s_clock (gs_sched g)), Arrived orphan]"
      "gs_pods (set_pod 4 p2 ?h) 4 = Some p2"
    by (simp_all add: set_pod_def u(2) s(6))
  ultimately show thesis using c(2) that by blast
qed

lemma reach_two_pods: "(sys_step careful)\<^sup>*\<^sup>* two_pods g \<Longrightarrow> reach sys_init (sys_step careful) g"
  by (rule reach_rtranclp [OF reach_init [of sys_init, OF two_pods_init]])

lemma sent_request:
  obtains g p msg where "reach sys_init (sys_step careful) g" "gs_pods g 4 = Some p" "pod_name p = ''pod1''"
    "requests_under_way 4 p g = [msg]" "req_id_of msg = next_id comm_init + 1"
proof -
  obtain g p msg att where g: "(sys_step careful)\<^sup>*\<^sup>* two_pods g" "gs_pods g = [4 \<mapsto> asking msg p]" "fresh_pod p"
      "pod_name p = ''pod1''" "gs_up g 4 = 0" "carries msg ''pod1'' (next_id comm_init + 1) REQ_QUOTA att"
    by (rule first_asks)
  define q where "q = (asking msg p)\<lparr>sender := SLoop, sender_signalled := False, request_queue := [],
    to_scheduler := to_scheduler (asking msg p) @ [msg]\<rparr>"
  have "pod_local\<^sup>*\<^sup>* (asking msg p) q" unfolding q_def by (rule send_run [OF asking_sel(3,1) [OF g(3)]])
  then have "(sys_step careful)\<^sup>*\<^sup>* g (set_pod 4 q g)" by (rule pod_run) (simp add: g(2))
  with g(1) have "reach sys_init (sys_step careful) (set_pod 4 q g)" by (intro reach_two_pods) (rule rtranclp_trans)
  moreover have "requests_under_way 4 q (set_pod 4 q g) = [msg]"
    by (simp add: requests_under_way_def set_pod_def g(5) q_def asking_sel(2) [OF g(3)])
  moreover have "pod_name q = ''pod1''" using asking_sel(5) [OF g(3), of msg] g(4) by (simp add: q_def pod_name_def)
  moreover have "req_id_of msg = next_id comm_init + 1" using g(6) by (auto simp: carries_def req_id_of_def)
  ultimately show thesis by (intro that [of "set_pod 4 q g" q msg]) (simp_all add: set_pod_def)
qed

section \<open>Properties\<close>

text \<open>The system refines its processes: whatever the interleaving, in both environments, the scheduler and every connected pod
  manager are in states their own step relations reach, on one clock, so what is proved of a process alone holds of it here.\<close>

lemma system_refines_processes:
  assumes "reach sys_init (sys_step careful) g"
  shows "reach sched_init sched_step (gs_sched g)
    \<and> (\<forall>k p. gs_pods g k = Some p \<longrightarrow> reach pod_init pod_step p \<and> pod_clock p = s_clock (gs_sched g))"
  using component.reach_inv [OF assms] by (auto simp: component_inv_def)

lemma waiting_pod:
  obtains g p where "reach sys_init (sys_step careful) g" "gs_pods g 4 = Some p" "pod_name p = ''pod1''"
    "hooks p 5 = HBlocked (launch_message, 7) (next_id comm_init + 1)" "issued p = 1" "pod_quota p = 0" "response_map p = Map.empty"
proof -
  obtain g p msg where g: "(sys_step careful)\<^sup>*\<^sup>* two_pods g" "gs_pods g = [4 \<mapsto> asking msg p]" "fresh_pod p"
      "pod_name p = ''pod1''" "next_id (pod_comm p) = next_id comm_init + 1"
    by (rule first_asks)
  have "reach sys_init (sys_step careful) g" by (rule reach_two_pods [OF g(1)])
  then show thesis using that [of g "asking msg p"] asking_sel [OF g(3)] g(2,4,5) by simp
qed

text \<open>C16. Every request of a pod manager is understood: in every reachable state of the system, in which only pod managers of the
  repository whose pod is in the configuration and whose name has at most 47 characters are connected, every message a pod manager has
  sent is a quota request under its pod's name with two numbers, the overuse and the burst. Handling it, with the lock held, reads
  nothing outside the message, applies the overuse and the burst to that pod's client and to no other, and queues a candidate under this
  name and the request's id. This holds whatever the clients send and however descriptors are reused.\<close>

theorem every_request_is_understood:
  assumes "reach sys_init (sys_step careful) g" and "gs_pods g k = Some p" and "msg \<in> set (to_scheduler p)"
  shows "\<exists>att a b c c' h. carries msg (pod_name p) (req_id_of msg) REQ_QUOTA att
    \<and> get_msg_data 8 word64 att 0 = Some (a, 8) \<and> get_msg_data 8 word64 att 8 = Some (b, 16)
    \<and> client_info_map (gs_sched g) (pod_name p) = Some c
    \<and> update_return_time (ms_since_start (gs_sched g)) (double_of_bits a) c (history_list (gs_sched g)) = (c', h)
    \<and> handle_unlocked k msg (gs_sched g) =
        Some ((gs_sched g)\<lparr>client_info_map := (client_info_map (gs_sched g))(pod_name p \<mapsto> set_burst (double_of_bits b) c'), history_list := h\<rparr>,
          Some (pod_name p, req_id_of msg))"
proof -
  have "link_base k p g" using sys_invD(3) [OF system.reach_inv [OF assms(1)] assms(2)] by (simp add: link_inv_def)
  from up_understood [OF this assms(3)] show ?thesis by metis
qed

theorem every_request_is_understood_witness:
  "\<exists>g p msg t. reach sys_init (sys_step False) g \<and> gs_pods g 4 = Some p \<and> requests_under_way 4 p g = [msg]
     \<and> handle_unlocked 4 msg (gs_sched g) = Some (t, Some (''pod1'', next_id comm_init + 1))"
proof -
  obtain g p msg where g: "reach sys_init (sys_step False) g" "gs_pods g 4 = Some p" "pod_name p = ''pod1''"
      "requests_under_way 4 p g = [msg]" "req_id_of msg = next_id comm_init + 1"
    by (rule sent_request)
  have "msg \<in> set (to_scheduler p)" using g(4) by (metis requests_under_way_def in_set_dropD list.set_intros(1))
  from every_request_is_understood [OF g(1,2) this] show ?thesis using g by metis
qed

text \<open>C3. A pod runs only on quotas granted to it: when descriptors are given away carefully, a pod manager's quota is zero or the value of
  a grant the scheduler made to this pod's client, for a request that came on this connection, not later than the quota clock was
  restarted.\<close>

theorem quota_was_granted:
  assumes "reach sys_init (sys_step True) g" and "gs_pods g k = Some p" and "pod_quota p \<noteq> 0"
  shows "\<exists>c q t. Granted c q t \<in> set (s_log (gs_sched g)) \<and> cand_socket c = k \<and> cand_name c = pod_name p
    \<and> pod_quota p = double_of_bits (bits_of_double q) \<and> t \<le> quota_updated_tp p"
  using link_soundD(6) [of k p g] sys_invD(3) [OF system.reach_inv [OF assms(1)] assms(2)] assms(3)
  by (auto simp: link_inv_def granted_to_def)

theorem quota_was_granted_witness:
  "\<exists>g p c q t. reach sys_init (sys_step True) g \<and> gs_pods g 4 = Some p \<and> pod_quota p = 250 \<and> Granted c q t \<in> set (s_log (gs_sched g))
     \<and> cand_name c = ''pod1'' \<and> t \<le> quota_updated_tp p"
proof -
  obtain g p msg rsp where g: "(sys_step True)\<^sup>*\<^sup>* two_pods g" "gs_pods g = [4 \<mapsto> p]" "gs_down g 4 = 1" "pod_name p = ''pod1''"
      "hooks p 5 = HBlocked (launch_message, 7) (next_id comm_init + 1)" "response_map p = Map.empty"
      "gs_sched g = (left_behind rsp)\<lparr>conns := (\<lambda>_. NoConn)(4 := Receiving msg)\<rparr>"
    by (rule first_arrives)
  obtain g' p' where g': "(sys_step True)\<^sup>*\<^sup>* g g'" "gs_pods g' 4 = Some p'" "pod_name p' = pod_name p" "pod_quota p' = 250"
    by (rule answer_run [where g = g and a = p and rsp = rsp and f = "(\<lambda>_. NoConn)(4 := Receiving msg)" and rsps = "[rsp]"])
      (use g(2,3,5,6) in \<open>simp_all add: g(7) left_behind_def orphan_def\<close>)
  have r: "reach sys_init (sys_step True) g'" using g(1) g'(1) by (intro reach_two_pods) (rule rtranclp_trans)
  have "pod_quota p' \<noteq> 0" by (simp add: g'(4))
  from quota_was_granted [OF r g'(2) this] show ?thesis using r g'(2-4) g(4) by metis
qed

text \<open>C6. No request is lost or answered twice: when descriptors are given away carefully and a pod manager has made at most \<open>2^32\<close>
  requests, every request a thread of it waits for is in exactly one place (its queue, the connection, the scheduler's push, candidate
  list or sending, the connection back, or the response map), and no other request is anywhere.\<close>

theorem requests_conserved:
  assumes "reach sys_init (sys_step True) g" and "gs_pods g k = Some p" and "issued p \<le> 2 ^ 32"
  shows "count (travelling k p g) i + (if response_map p i = None then 0 else 1) = (if \<exists>h. awaiting p h = Some i then 1 else 0)"
proof -
  have "link_sound k p g" using sys_invD(3) [OF system.reach_inv [OF assms(1)] assms(2)] by (simp add: link_inv_def)
  from link_soundD(7) [OF this assms(3), of i] show ?thesis
    by (cases "\<exists>h. awaiting p h = Some i"; cases "response_map p i = None") (simp_all add: asked_def)
qed

theorem requests_conserved_witness:
  "\<exists>g p. gs_pods g 4 = Some p \<and> awaiting p 5 = Some (next_id comm_init + 1) \<and> count (travelling 4 p g) (next_id comm_init + 1) = 1"
proof -
  obtain g p where g: "reach sys_init (sys_step True) g" "gs_pods g 4 = Some p"
      "hooks p 5 = HBlocked (launch_message, 7) (next_id comm_init + 1)" "issued p = 1" "response_map p = Map.empty"
    by (rule waiting_pod)
  have a: "awaiting p 5 = Some (next_id comm_init + 1)" by (simp add: awaiting_def g(3))
  then have "\<exists>h. awaiting p h = Some (next_id comm_init + 1)" by blast
  then have "count (travelling 4 p g) (next_id comm_init + 1) = 1"
    using requests_conserved [OF g(1,2), of "next_id comm_init + 1"] g(4,5) by simp
  then show ?thesis using g(2) a by blast
qed

text \<open>C5. Every blocked launch can be served, when descriptors are given away carefully (only when the scheduler has no candidate left of the
  closed connection) and the pod manager has made at most \<open>2^32\<close> requests: from any state reachable in this environment in which a thread of
  the pod manager is blocked in the wait for its quota, whatever the other pods are doing and even when the wait has missed its signal,
  there is a run of the processes, in the same environment and with spurious wake-ups, after which the thread has taken the quota of a
  grant made for its request and has sent it to its client under the client's id.\<close>

theorem blocked_launch_can_be_served:
  assumes "reach sys_init (sys_step True) g" and "gs_pods g k = Some p" and "hooks p h = HBlocked ctx i" and "issued p \<le> 2 ^ 32"
  shows "\<exists>g' p' q t buf off. (sys_step True)\<^sup>*\<^sup>* g g' \<and> gs_pods g' k = Some p' \<and> hooks p' h = HRecv (fst ctx)
    \<and> granted_to k (pod_name p) i q t (gs_sched g') \<and> pod_quota p' = double_of_bits (bits_of_double q)
    \<and> last (to_hooks p') = (h, buf) \<and> parse_response buf = Some (snd ctx, off)
    \<and> get_msg_data 8 word64 (attached_data buf off) 0 = Some (bits_of_double (pod_quota p'), 8)"
  by (rule blocked_can_complete [OF system.reach_inv [OF assms(1)] assms(2-4)])

theorem blocked_launch_can_be_served_witness:
  "\<exists>g p g' p' q t. reach sys_init (sys_step True) g \<and> gs_pods g 4 = Some p \<and> pod_quota p = 0 \<and> (sys_step True)\<^sup>*\<^sup>* g g'
     \<and> gs_pods g' 4 = Some p' \<and> granted_to 4 ''pod1'' (next_id comm_init + 1) q t (gs_sched g')"
proof -
  obtain g p where g: "reach sys_init (sys_step True) g" "gs_pods g 4 = Some p" "pod_name p = ''pod1''"
      "hooks p 5 = HBlocked (launch_message, 7) (next_id comm_init + 1)" "issued p = 1" "pod_quota p = 0"
    by (rule waiting_pod)
  have "issued p \<le> 2 ^ 32" by (simp add: g(5))
  from blocked_launch_can_be_served [OF g(1,2,4) this] show ?thesis using g(1,2,3,6) by fastforce
qed

text \<open>C30. A grant can reach the wrong pod: the scheduler leaves the candidates of a closed connection in its list, and sends the grant to the
  descriptor stored there. When the descriptor has been given to the next pod manager, that one, whose first request has the
  same id, takes the quota as the answer to its own. There is a reachable state in which \<open>pod2\<close> runs on a quota of 250 ms although
  the scheduler has accepted one request and made one grant, both of \<open>pod1\<close>.\<close>

theorem stale_grant:
  "\<exists>g p t. reach sys_init (sys_step False) g \<and> gs_pods g 4 = Some p \<and> pod_name p = ''pod2'' \<and> pod_quota p = 250
     \<and> hooks p 5 = HRecv launch_message \<and> s_log (gs_sched g) = [Granted orphan 250 t, Arrived orphan] \<and> cand_name orphan = ''pod1''"
proof -
  obtain g p rsp msg buf rsp' where g: "(sys_step False)\<^sup>*\<^sup>* two_pods g" "gs_pods g = [4 \<mapsto> asking msg p]" "fresh_pod p"
      "pod_name p = ''pod2''" "next_id (pod_comm p) = cand_req_id orphan" "gs_down g 4 = 2"
      "gs_sched g = (left_behind rsp)\<lparr>conns := (\<lambda>_. NoConn)(4 := Receiving buf), sent := [(4, rsp), (4, rsp')]\<rparr>"
    by (rule second_asks)
  obtain g' p' where g': "(sys_step False)\<^sup>*\<^sup>* g g'" "gs_pods g' 4 = Some p'" "pod_name p' = pod_name (asking msg p)" "pod_quota p' = 250"
      "hooks p' 5 = HRecv launch_message" "s_log (gs_sched g') = [Granted orphan 250 (s_clock (gs_sched g)), Arrived orphan]"
    by (rule answer_run [where g = g and a = "asking msg p" and rsp = rsp and rsps = "[rsp, rsp']"]) (simp_all add: g(2,5,6,7) asking_sel [OF g(3)])
  have "reach sys_init (sys_step False) g'" using g(1) g'(1) by (intro reach_two_pods) (rule rtranclp_trans)
  moreover have "pod_name p' = ''pod2''" using g'(3) asking_sel(5) [OF g(3)] g(4) by simp
  moreover have "cand_name orphan = ''pod1''" by (simp add: orphan_def)
  ultimately show ?thesis using g'(2,4-6) by blast
qed

end
