(* ===== verification/Gem_Log.thy ===== *)
theory Gem_Log
  imports Gem_Config Gem_Double
begin

text \<open>
  What the processes write for people: the log lines of \<^verbatim>\<open>src/src/debug.cpp\<close>, and the history of the \<^verbatim>\<open>_DEBUG\<close> build
  of the scheduler with the file \<^verbatim>\<open>dump_history\<close> writes. The arguments of a log call are taken as the text \<^verbatim>\<open>vsnprintf\<close>
  makes of them, without a NUL; \<^verbatim>\<open>localtime\<close> and the two clock readings are arguments.
\<close>

section \<open>Formats of printf\<close>

text \<open>\<^verbatim>\<open>%0wd\<close> of a natural number, and \<^verbatim>\<open>%.3lf\<close>, which rounds to the nearest thousandth, ties to even.\<close>

definition pad :: "nat \<Rightarrow> nat \<Rightarrow> string" where
  "pad w n = replicate (w - length (show_nat n)) CHR ''0'' @ show_nat n"

definition show_int :: "int \<Rightarrow> string" where
  "show_int i = (if i < 0 then ''-'' else []) @ show_nat (nat \<bar>i\<bar>)"

definition thousandths :: "double \<Rightarrow> nat" where
  "thousandths x = nat (round_even (\<bar>x\<bar> * 1000))"

definition printf_f3 :: "double \<Rightarrow> string" where
  "printf_f3 x = (if x < 0 then ''-'' else []) @ show_decimal (thousandths x div 1000, pad 3 (thousandths x mod 1000))"

section \<open>The log\<close>

record tm =
  tm_year :: nat
  tm_mon :: nat
  tm_mday :: nat
  tm_hour :: nat
  tm_min :: nat
  tm_sec :: nat

definition strftime_FT :: "tm \<Rightarrow> string" where
  "strftime_FT t = pad 4 (1900 + tm_year t) @ ''-'' @ pad 2 (tm_mon t + 1) @ ''-'' @ pad 2 (tm_mday t) @ '' ''
     @ pad 2 (tm_hour t) @ '':'' @ pad 2 (tm_min t) @ '':'' @ pad 2 (tm_sec t)"

text \<open>The second comes from \<^verbatim>\<open>time\<close>, the fraction from a second reading of the clock.\<close>

definition sprint_date :: "(int \<Rightarrow> tm) \<Rightarrow> int \<Rightarrow> nat \<Rightarrow> string" where
  "sprint_date localtime timer nsec =
     strftime_FT (localtime timer) @ take 10 (take 9 (CHR ''.'' # pad 6 (nsec div 1000)))"

definition DEBUG_MSG_LEN :: nat where "DEBUG_MSG_LEN = 256"

definition print_line :: "string \<Rightarrow> string \<Rightarrow> string \<Rightarrow> string" where
  "print_line level date_buf msg = date_buf @ '' Gemini '' @ level @ ''/ '' @ take (DEBUG_MSG_LEN - 1) msg @ [CHR 0x0A]"

datatype log_call = DEBUG string | INFO string | WARNING string | ERROR string

fun log_output :: "bool \<Rightarrow> string \<Rightarrow> log_call \<Rightarrow> string" where
  "log_output debug_build date (DEBUG msg) = (if debug_build then print_line ''D'' date msg else [])"
| "log_output debug_build date (INFO msg) = print_line ''I'' date msg"
| "log_output debug_build date (WARNING msg) = print_line ''W'' date msg"
| "log_output debug_build date (ERROR msg) = print_line ''E'' date msg"

section \<open>The full history\<close>

definition full_update_return_time :: "double \<Rightarrow> double \<Rightarrow> ClientInfo \<Rightarrow> History list \<Rightarrow> History list" where
  "full_update_return_time now overuse c full_history = rev (fst (close_latest (c_name c) now overuse (rev full_history)))"

definition full_Record :: "double \<Rightarrow> double \<Rightarrow> ClientInfo \<Rightarrow> History list \<Rightarrow> History list" where
  "full_Record now q c full_history = full_history @ [\<lparr>h_name = c_name c, h_start = now, h_end = now + q\<rparr>]"

definition quote :: char where "quote = CHR 0x22"

definition entry_open :: string where
  "entry_open = CHR 0x09 # ''{'' @ quote # ''container'' @ quote # '': '' @ [quote]"

definition entry_start :: string where
  "entry_start = quote # '', '' @ quote # ''start'' @ quote # '': ''"

definition entry_end :: string where
  "entry_end = '', '' @ quote # ''end'' @ quote # '' : ''"

definition dump_entry :: "History \<Rightarrow> string" where
  "dump_entry it = entry_open @ h_name it @ entry_start @ printf_f3 (h_start it / 1000)
     @ entry_end @ printf_f3 (h_end it / 1000) @ ''}''"

fun dump_loop :: "History list \<Rightarrow> string" where
  "dump_loop [] = []"
| "dump_loop (it # rest) = dump_entry it @ (if rest = [] then [CHR 0x0A] else [CHR '','', CHR 0x0A]) @ dump_loop rest"

datatype dump_error = NameBuffer | NotOpened

text \<open>The name goes to a buffer of 20 bytes; the result of \<^verbatim>\<open>fopen\<close> is not checked.\<close>

definition dump_history :: "int \<Rightarrow> (string \<Rightarrow> bool) \<Rightarrow> History list \<Rightarrow> dump_error + string \<times> string" where
  "dump_history now can_open full_history =
     (let filename = show_int now @ ''.json'' in
      if 20 \<le> length filename then Inl NameBuffer
      else if \<not> can_open filename then Inl NotOpened
      else Inr (filename, [CHR ''['', CHR 0x0A] @ dump_loop full_history @ [CHR '']'', CHR 0x0A]))"

section \<open>Reading JSON\<close>

text \<open>
  A reader of JSON texts, independent of what \<^verbatim>\<open>dump_history\<close> writes: values with arbitrary white space
  between their tokens, objects, arrays, strings and numbers. Strings with escapes or control characters and the
  three literals are left out; of a number the first character has to be a digit or a minus. The first
  argument bounds the nesting and the length of the arrays and objects.
\<close>

datatype json = JObject "(string \<times> json) list" | JArray "json list" | JString string | JNumber double

definition skip :: "string \<Rightarrow> string" where
  "skip s = dropWhile (\<lambda>c. c \<in> {CHR '' '', CHR 0x09, CHR 0x0A, CHR 0x0D}) s"

definition json_plain :: "char \<Rightarrow> bool" where
  "json_plain c \<longleftrightarrow> c \<noteq> CHR 0x22 \<and> c \<noteq> CHR 0x5C \<and> 32 \<le> (of_char c :: nat)"

definition json_string :: "string \<Rightarrow> (string \<times> string) option" where
  "json_string s =
     (case dropWhile json_plain s of
        c # r \<Rightarrow> if c = CHR 0x22 then Some (takeWhile json_plain s, r) else None
      | [] \<Rightarrow> None)"

definition json_number :: "string \<Rightarrow> (double \<times> string) option" where
  "json_number s =
     (if s \<noteq> [] \<and> (is_digit (hd s) \<or> hd s = CHR ''-'')
      then (case scan_double s of (Some v, r) \<Rightarrow> Some (v, r) | _ \<Rightarrow> None) else None)"

definition expect :: "char \<Rightarrow> string \<Rightarrow> string option" where
  "expect c s = (case skip s of d # r \<Rightarrow> if d = c then Some r else None | [] \<Rightarrow> None)"

fun json_value :: "nat \<Rightarrow> string \<Rightarrow> (json \<times> string) option"
  and json_items :: "nat \<Rightarrow> string \<Rightarrow> (json list \<times> string) option"
  and json_members :: "nat \<Rightarrow> string \<Rightarrow> ((string \<times> json) list \<times> string) option" where
  "json_value 0 s = None"
| "json_value (Suc n) s =
     (case skip s of
        [] \<Rightarrow> None
      | c # r \<Rightarrow>
          if c = CHR ''['' then
            (case expect CHR '']'' r of
               Some r \<Rightarrow> Some (JArray [], r)
             | None \<Rightarrow> map_option (apfst JArray) (json_items n r))
          else if c = CHR ''{'' then
            (case expect CHR ''}'' r of
               Some r \<Rightarrow> Some (JObject [], r)
             | None \<Rightarrow> map_option (apfst JObject) (json_members n r))
          else if c = CHR 0x22 then map_option (apfst JString) (json_string r)
          else map_option (apfst JNumber) (json_number (c # r)))"
| "json_items 0 s = None"
| "json_items (Suc n) s = do {
     (v, s) \<leftarrow> json_value n s;
     (case expect CHR '','' s of
        Some r \<Rightarrow> map_option (apfst ((#) v)) (json_items n r)
      | None \<Rightarrow> map_option (Pair [v]) (expect CHR '']'' s))
   }"
| "json_members 0 s = None"
| "json_members (Suc n) s = do {
     s \<leftarrow> expect CHR 0x22 s;
     (key, s) \<leftarrow> json_string s;
     s \<leftarrow> expect CHR '':'' s;
     (v, s) \<leftarrow> json_value n s;
     (case expect CHR '','' s of
        Some r \<Rightarrow> map_option (apfst ((#) (key, v))) (json_members n r)
      | None \<Rightarrow> map_option (Pair [(key, v)]) (expect CHR ''}'' s))
   }"

definition parse_json :: "string \<Rightarrow> json option" where
  "parse_json s = (case json_value (length s) s of Some (v, r) \<Rightarrow> if skip r = [] then Some v else None | None \<Rightarrow> None)"

lemma skip_simps [simp]:
  "skip [] = []" "skip (CHR '' '' # s) = skip s" "skip (CHR 0x09 # s) = skip s" "skip (CHR 0x0A # s) = skip s"
  "skip (CHR '','' # s) = CHR '','' # s" "skip (CHR '':'' # s) = CHR '':'' # s" "skip (CHR ''['' # s) = CHR ''['' # s"
  "skip (CHR '']'' # s) = CHR '']'' # s" "skip (CHR ''{'' # s) = CHR ''{'' # s" "skip (CHR ''}'' # s) = CHR ''}'' # s"
  "skip (CHR 0x22 # s) = CHR 0x22 # s"
  by (simp_all add: skip_def)

lemma expect_simps [simp]:
  "expect c [] = None" "expect c (CHR '' '' # s) = expect c s" "expect c (CHR 0x09 # s) = expect c s" "expect c (CHR 0x0A # s) = expect c s"
  "expect c (CHR '','' # s) = (if c = CHR '','' then Some s else None)" "expect c (CHR '':'' # s) = (if c = CHR '':'' then Some s else None)"
  "expect c (CHR '']'' # s) = (if c = CHR '']'' then Some s else None)" "expect c (CHR ''{'' # s) = (if c = CHR ''{'' then Some s else None)"
  "expect c (CHR ''}'' # s) = (if c = CHR ''}'' then Some s else None)" "expect c (CHR 0x22 # s) = (if c = CHR 0x22 then Some s else None)"
  by (simp_all add: expect_def)

lemma json_string_plain: "list_all json_plain t \<Longrightarrow> json_string (t @ CHR 0x22 # r) = Some (t, r)"
  by (induction t) (auto simp: json_string_def json_plain_def split: list.splits)

lemma pad_digits: "list_all is_digit (pad w n) \<and> digits_value (pad w n) = n \<and> length (pad w n) = max w (length (show_nat n))"
proof -
  have "list_all is_digit (replicate k CHR ''0'') \<and> digits_value (replicate k CHR ''0'') = 0" for k
    by (induction k) (simp_all add: is_digit_def digits_value_def digit_value_def)
  then show ?thesis using show_nat_digits [of n] by (simp add: pad_def digits_value_append)
qed

lemma show_nat_length: "n < 10 ^ k \<Longrightarrow> 0 < k \<Longrightarrow> length (show_nat n) \<le> k"
proof (induction n arbitrary: k rule: show_nat.induct)
  case (1 n)
  show ?case
  proof (cases "n < 10")
    case True
    then show ?thesis using 1(3) by (subst show_nat.simps) simp
  next
    case False
    then obtain j where k: "k = Suc j" "0 < j" using 1(2,3) by (cases k; cases "k - 1") auto
    then have "n div 10 < 10 ^ j" using 1(2) by (simp add: less_mult_imp_div_less mult.commute)
    then show ?thesis using 1(1) [OF False] k False by (subst show_nat.simps) simp
  qed
qed

lemma round_even_near: "\<bar>real_of_int (round_even x) - x\<bar> \<le> 1 / 2"
  by (auto simp: round_even_def Let_def)

lemma scan_double_minus:
  assumes "scan_double (c # s) = (Some v, r)" and "is_digit c"
  shows "scan_double (CHR ''-'' # c # s) = (Some (- v), r)"
proof -
  have sign: "read_sign (CHR ''-'' # c # s) = (True, c # s)" "read_sign (c # s) = (False, c # s)"
    using read_sign_digit [OF assms(2)] by (simp_all add: read_sign_def)
  show ?thesis
    using assms(1) unfolding scan_double_def sign Let_def prod.case
    by (cases "dropWhile is_digit (c # s)") (auto simp: case_prod_unfold split: if_splits)
qed

lemma json_value_number:
  assumes "is_digit c \<or> c = CHR ''-''" and "t = c # s" and "scan_double t = (Some v, r)"
  shows "json_value (Suc n) t = Some (JNumber v, r)"
proof -
  have "skip t = t" "c \<noteq> CHR ''[''" "c \<noteq> CHR ''{''" "c \<noteq> CHR 0x22" using assms(1,2) by (auto simp: skip_def is_digit_def)
  then show ?thesis using assms by (simp add: json_number_def)
qed

text \<open>The number that is read is within half a thousandth of the number that was printed.\<close>

lemma read_printed:
  assumes "r \<noteq> []" and "hd r = CHR '','' \<or> hd r = CHR ''}''"
  obtains v where "json_value (Suc n) (printf_f3 x @ r) = Some (JNumber v, r)" "\<bar>v - x\<bar> \<le> 1 / 2000"
proof -
  let ?n = "thousandths x"
  let ?d = "(?n div 1000, pad 3 (?n mod 1000))"
  have len: "length (pad 3 (?n mod 1000)) = 3"
    using pad_digits [of 3 "?n mod 1000"] show_nat_length [of "?n mod 1000" 3] by simp
  have "decimal_value ?d = real (?n div 1000) + real (?n mod 1000) / 1000"
    using pad_digits [of 3 "?n mod 1000"] by (simp add: decimal_value_def len)
  moreover have "real ?n = real (?n div 1000) * 1000 + real (?n mod 1000)"
    using arg_cong [OF div_mult_mod_eq [of ?n 1000], of real] by (simp only: of_nat_add of_nat_mult of_nat_numeral)
  ultimately have val: "decimal_value ?d = real ?n / 1000" by simp
  have near: "\<bar>real ?n / 1000 - \<bar>x\<bar>\<bar> \<le> 1 / 2000"
  proof -
    have "0 \<le> round_even (\<bar>x\<bar> * 1000)" by (auto simp: round_even_def Let_def)
    then have "real ?n = real_of_int (round_even (\<bar>x\<bar> * 1000))" by (simp add: thousandths_def)
    then show ?thesis using round_even_near [of "\<bar>x\<bar> * 1000"] by (simp add: field_simps abs_if split: if_splits)
  qed
  have scan: "scan_double (show_decimal ?d @ r) = (Some (decimal_value ?d), r)"
    using assms pad_digits [of 3 "?n mod 1000"] by (intro scan_double_stop) (auto simp: is_digit_def)
  obtain c cs where c: "show_nat (?n div 1000) = c # cs" "is_digit c"
    using show_nat_digits [of "?n div 1000"] by (cases "show_nat (?n div 1000)") auto
  show thesis
  proof (cases "x < 0")
    case False
    then have "json_value (Suc n) (printf_f3 x @ r) = Some (JNumber (real ?n / 1000), r)"
      using scan val c by (intro json_value_number [of c _ "cs @ CHR ''.'' # snd ?d @ r"]) (simp_all add: printf_f3_def show_decimal_def)
    then show thesis by (rule that) (use False near in simp)
  next
    case True
    have "scan_double (CHR ''-'' # show_decimal ?d @ r) = (Some (- decimal_value ?d), r)"
      using scan_double_minus [of c "cs @ CHR ''.'' # snd ?d @ r"] scan c by (simp add: show_decimal_def)
    then have "json_value (Suc n) (printf_f3 x @ r) = Some (JNumber (- (real ?n / 1000)), r)"
      using val True by (intro json_value_number [of "CHR ''-''" _ "show_decimal ?d @ r"]) (simp_all add: printf_f3_def)
    moreover have "\<bar>- (real ?n / 1000) - x\<bar> \<le> 1 / 2000" using near True by linarith
    ultimately show thesis using that by blast
  qed
qed

text \<open>One member of an object, then an entry, then the array.\<close>

lemma json_members_step:
  assumes "list_all json_plain key" and "expect CHR '':'' s = Some s'" and "json_value n s' = Some (v, r)"
  shows "json_members (Suc n) (CHR 0x22 # key @ CHR 0x22 # s) =
    (case expect CHR '','' r of
       Some r \<Rightarrow> map_option (apfst ((#) (key, v))) (json_members n r)
     | None \<Rightarrow> map_option (Pair [(key, v)]) (expect CHR ''}'' r))"
  using assms by (simp add: json_string_plain)

lemma json_members_skip: "json_members n (CHR '' '' # s) = json_members n s"
  by (cases n) simp_all

text \<open>A record in the dump.\<close>

definition dumped :: "History \<Rightarrow> json \<Rightarrow> bool" where
  "dumped h e \<longleftrightarrow> (\<exists>a b. e = JObject [(''container'', JString (h_name h)), (''start'', JNumber a), (''end'', JNumber b)]
     \<and> \<bar>a - h_start h / 1000\<bar> \<le> 1 / 2000 \<and> \<bar>b - h_end h / 1000\<bar> \<le> 1 / 2000)"

lemma read_dumped_entry:
  assumes "list_all json_plain (h_name h)"
  obtains e where "json_value (Suc (Suc (Suc (Suc (Suc n))))) (dump_entry h @ r) = Some (e, r)" "dumped h e"
proof -
  let ?x = "h_start h / 1000" and ?y = "h_end h / 1000" and ?q = "CHR 0x22"
  let ?e = "printf_f3 ?y @ CHR ''}'' # r"
  let ?s = "printf_f3 ?x @ CHR '','' # CHR '' '' # ?q # ''end'' @ ?q # CHR '' '' # CHR '':'' # CHR '' '' # ?e"
  obtain b where b: "json_value (Suc n) (CHR '' '' # ?e) = Some (JNumber b, CHR ''}'' # r)" "\<bar>b - ?y\<bar> \<le> 1 / 2000"
    using read_printed [of "CHR ''}'' # r" n ?y] by auto
  obtain a where a: "json_value (Suc (Suc n)) (CHR '' '' # ?s) =
      Some (JNumber a, CHR '','' # CHR '' '' # ?q # ''end'' @ ?q # CHR '' '' # CHR '':'' # CHR '' '' # ?e)" "\<bar>a - ?x\<bar> \<le> 1 / 2000"
    using read_printed [of "CHR '','' # CHR '' '' # ?q # ''end'' @ ?q # CHR '' '' # CHR '':'' # CHR '' '' # ?e" "Suc n" ?x] by auto
  have plain: "list_all json_plain ''container''" "list_all json_plain ''start''" "list_all json_plain ''end''"
    by (simp_all add: json_plain_def)
  have m3: "json_members (Suc (Suc n)) (?q # ''end'' @ ?q # CHR '' '' # CHR '':'' # CHR '' '' # ?e) = Some ([(''end'', JNumber b)], r)"
    using json_members_step [OF plain(3), of "CHR '' '' # CHR '':'' # CHR '' '' # ?e", OF _ b(1)] by simp
  have m2: "json_members (Suc (Suc (Suc n))) (?q # ''start'' @ ?q # CHR '':'' # CHR '' '' # ?s) =
      Some ([(''start'', JNumber a), (''end'', JNumber b)], r)"
    using json_members_step [OF plain(2), of "CHR '':'' # CHR '' '' # ?s", OF _ a(1)] m3 by (simp add: json_members_skip del: json_members.simps)
  have v1: "json_value (Suc (Suc (Suc n))) (CHR '' '' # ?q # h_name h @ ?q # CHR '','' # CHR '' '' # ?q # ''start'' @ ?q # CHR '':'' # CHR '' '' # ?s) =
      Some (JString (h_name h), CHR '','' # CHR '' '' # ?q # ''start'' @ ?q # CHR '':'' # CHR '' '' # ?s)"
    using json_string_plain [OF assms] by simp
  have "json_members (Suc (Suc (Suc (Suc n)))) (?q # ''container'' @ ?q # CHR '':'' # CHR '' '' # ?q # h_name h @ ?q # CHR '','' # CHR '' '' # ?q # ''start'' @ ?q # CHR '':'' # CHR '' '' # ?s) =
      Some ([(''container'', JString (h_name h)), (''start'', JNumber a), (''end'', JNumber b)], r)"
    using json_members_step [OF plain(1), OF _ v1] m2 by (simp add: json_members_skip del: json_members.simps)
  moreover have "dump_entry h @ r = CHR 0x09 # CHR ''{'' # ?q # ''container'' @ ?q # CHR '':'' # CHR '' '' # ?q # h_name h @ ?q # CHR '','' # CHR '' '' # ?q # ''start'' @ ?q # CHR '':'' # CHR '' '' # ?s"
    by (simp add: dump_entry_def entry_open_def entry_start_def entry_end_def quote_def)
  ultimately show thesis
    using a(2) b(2) by (intro that [of "JObject [(''container'', JString (h_name h)), (''start'', JNumber a), (''end'', JNumber b)]"])
      (simp_all add: dumped_def del: json_members.simps)
qed

lemma read_dumped_entries:
  assumes "hs \<noteq> []" and "\<forall>h\<in>set hs. list_all json_plain (h_name h)" and "length hs + 5 \<le> n"
  shows "\<exists>es. json_items n (dump_loop hs @ [CHR '']'', CHR 0x0A]) = Some (es, [CHR 0x0A]) \<and> list_all2 dumped hs es"
  using assms
proof (induction hs arbitrary: n)
  case (Cons h hs)
  obtain k where k: "n = Suc (Suc (Suc (Suc (Suc (Suc k)))))"
    using Cons(4) by (intro that [of "n - 6"]) simp
  obtain e where e: "json_value (Suc (Suc (Suc (Suc (Suc k))))) (dump_entry h @ (if hs = [] then [CHR 0x0A] else [CHR '','', CHR 0x0A]) @ dump_loop hs @ [CHR '']'', CHR 0x0A]) =
      Some (e, (if hs = [] then [CHR 0x0A] else [CHR '','', CHR 0x0A]) @ dump_loop hs @ [CHR '']'', CHR 0x0A])" "dumped h e"
    by (rule read_dumped_entry) (use Cons(3) in auto)
  show ?case
  proof (cases "hs = []")
    case True
    then show ?thesis using e by (simp add: k del: json_value.simps)
  next
    case False
    then obtain es where es: "json_items (Suc (Suc (Suc (Suc (Suc k))))) (dump_loop hs @ [CHR '']'', CHR 0x0A]) = Some (es, [CHR 0x0A])" "list_all2 dumped hs es"
      using Cons(1) [of "Suc (Suc (Suc (Suc (Suc k))))"] Cons(3,4) k by auto
    have "json_items (Suc (Suc (Suc (Suc (Suc k))))) (CHR 0x0A # s) = json_items (Suc (Suc (Suc (Suc (Suc k))))) s" for s
      by simp
    then show ?thesis using e False es by (simp add: k del: json_value.simps json_items.simps add: json_items.simps(2) [of "Suc (Suc (Suc (Suc (Suc k))))"])
  qed
qed simp

lemma dump_loop_length: "8 * length hs \<le> length (dump_loop hs)"
proof (induction hs)
  case (Cons h hs)
  have "8 \<le> length (dump_entry h)" by (simp add: dump_entry_def entry_open_def)
  then show ?case using Cons by simp
qed simp

section \<open>The log lines\<close>

text \<open>A message longer than 255 characters is cut; every call writes exactly one line and \<^verbatim>\<open>DEBUG\<close> writes none in a
  build without \<^verbatim>\<open>_DEBUG\<close>.\<close>

lemma log_one_line:
  assumes "CHR 0x0A \<notin> set date" and "CHR 0x0A \<notin> set msg" and "call \<in> {DEBUG msg, INFO msg, WARNING msg, ERROR msg}"
  shows "filter (\<lambda>c. c = CHR 0x0A) (log_output debug_build date call) = (if call = DEBUG msg \<and> \<not> debug_build then [] else [CHR 0x0A])"
    and "length (log_output debug_build date call) \<le> length date + 267"
proof -
  have "\<forall>c\<in>set (take (DEBUG_MSG_LEN - 1) msg). c \<noteq> CHR 0x0A" using assms(2) by (auto dest: in_set_takeD)
  then have "filter (\<lambda>c. c = CHR 0x0A) (take (DEBUG_MSG_LEN - 1) msg) = []" by (simp add: filter_empty_conv)
  moreover have "filter (\<lambda>c. c = CHR 0x0A) date = []" using assms(1) by (auto simp: filter_empty_conv)
  ultimately show "filter (\<lambda>c. c = CHR 0x0A) (log_output debug_build date call) = (if call = DEBUG msg \<and> \<not> debug_build then [] else [CHR 0x0A])"
    using assms(3) by (auto simp: print_line_def)
  show "length (log_output debug_build date call) \<le> length date + 267"
    using assms(3) by (auto simp: print_line_def DEBUG_MSG_LEN_def)
qed

text \<open>A date of four digits fits the 100 bytes of its buffer, with the six digits of the fraction.\<close>

lemma sprint_date_fits:
  assumes "1900 + tm_year (localtime t) < 10000" and "tm_mon (localtime t) < 12" and "tm_mday (localtime t) < 32"
    and "tm_hour (localtime t) < 24" and "tm_min (localtime t) < 60" and "tm_sec (localtime t) < 61" and "nsec < 1000000000"
  shows "length (sprint_date localtime t nsec) = 26"
proof -
  have "length (pad 2 n) = 2" if "n < 100" for n using that pad_digits [of 2 n] show_nat_length [of n 2] by simp
  moreover have "length (pad 4 n) = 4" if "n < 10000" for n using that pad_digits [of 4 n] show_nat_length [of n 4] by simp
  moreover have "length (pad 6 (nsec div 1000)) = 6"
    using assms(7) pad_digits [of 6 "nsec div 1000"] show_nat_length [of "nsec div 1000" 6] by simp
  ultimately show ?thesis using assms by (simp add: sprint_date_def strftime_FT_def)
qed

section \<open>The two histories\<close>

text \<open>The methods treat both lists alike, so they differ only by the records \<^verbatim>\<open>select_candidate\<close> has dropped.\<close>

lemma full_history_agrees:
  "full_update_return_time now overuse c hist = snd (update_return_time now overuse c hist)"
  "full_Record now q c hist = Record now q c hist"
  by (simp_all add: full_update_return_time_def update_return_time_def full_Record_def Record_def case_prod_unfold Let_def)

section \<open>Properties\<close>

text \<open>C40. The dump of the history is JSON: when the name of the file fits its buffer of 20 bytes, the file
  can be opened and no name has a quotation mark, a backslash or a control character, \<^verbatim>\<open>dump_history\<close> writes
  a text that a JSON reader takes as an array with one object per record, in order, whose members are
  \<open>container\<close>, \<open>start\<close> and \<open>end\<close>: the name, and in seconds the start and end of the record to the nearest
  millisecond, for negative numbers too.\<close>

theorem dump_history_readable:
  assumes "length (show_int now) < 15" and "can_open (show_int now @ ''.json'')" and "\<forall>h\<in>set hs. list_all json_plain (h_name h)"
  shows "\<exists>out es. dump_history now can_open hs = Inr (show_int now @ ''.json'', out) \<and> parse_json out = Some (JArray es)
    \<and> list_all2 (\<lambda>h e. \<exists>a b. e = JObject [(''container'', JString (h_name h)), (''start'', JNumber a), (''end'', JNumber b)]
        \<and> \<bar>a - h_start h / 1000\<bar> \<le> 1 / 2000 \<and> \<bar>b - h_end h / 1000\<bar> \<le> 1 / 2000) hs es"
proof -
  let ?s = "dump_loop hs @ [CHR '']'', CHR 0x0A]"
  have "\<exists>es. parse_json (CHR ''['' # CHR 0x0A # ?s) = Some (JArray es) \<and> list_all2 dumped hs es"
  proof (cases hs)
    case Nil
    then show ?thesis by (simp add: parse_json_def)
  next
    case (Cons h t)
    have ne: "hs \<noteq> []" and "length hs + 5 \<le> length ?s" using Cons dump_loop_length [of hs] by simp_all
    then obtain es where es: "json_items (Suc (length ?s)) ?s = Some (es, [CHR 0x0A])" "list_all2 dumped hs es"
      using read_dumped_entries [OF ne assms(3), of "Suc (length ?s)"] by auto
    have "expect CHR '']'' ?s = None" by (simp add: Cons dump_entry_def entry_open_def)
    then have "json_value (length (CHR ''['' # CHR 0x0A # ?s)) (CHR ''['' # CHR 0x0A # ?s) = Some (JArray es, [CHR 0x0A])"
      using es(1) by simp
    then show ?thesis using es(2) unfolding parse_json_def by (intro exI [of _ es]) (simp del: json_value.simps)
  qed
  then show ?thesis using assms(1,2) unfolding dumped_def [abs_def] by (auto simp: dump_history_def)
qed

theorem dump_history_readable_witness:
  "\<exists>out a b. dump_history 1700000000 (\<lambda>_. True) [\<lparr>h_name = ''pod1'', h_start = 0, h_end = 250\<rparr>] = Inr (show_int 1700000000 @ ''.json'', out)
    \<and> parse_json out = Some (JArray [JObject [(''container'', JString ''pod1''), (''start'', JNumber a), (''end'', JNumber b)]])
    \<and> \<bar>a\<bar> \<le> 1 / 2000 \<and> \<bar>b - 1 / 4\<bar> \<le> 1 / 2000"
proof -
  have "length (show_int 1700000000) < 15" using show_nat_length [of 1700000000 10] by (simp add: show_int_def)
  from dump_history_readable [OF this, of "\<lambda>_. True" "[\<lparr>h_name = ''pod1'', h_start = 0, h_end = 250\<rparr>]"]
  obtain out es where t: "dump_history 1700000000 (\<lambda>_. True) [\<lparr>h_name = ''pod1'', h_start = 0, h_end = 250\<rparr>] =
      Inr (show_int 1700000000 @ ''.json'', out)" "parse_json out = Some (JArray es)"
    and es: "list_all2 (\<lambda>h e. \<exists>a b. e = JObject [(''container'', JString (h_name h)), (''start'', JNumber a), (''end'', JNumber b)]
        \<and> \<bar>a - h_start h / 1000\<bar> \<le> 1 / 2000 \<and> \<bar>b - h_end h / 1000\<bar> \<le> 1 / 2000)
      [\<lparr>h_name = ''pod1'', h_start = 0, h_end = 250\<rparr>] es"
    by (auto simp: json_plain_def)
  from es obtain a b where "es = [JObject [(''container'', JString ''pod1''), (''start'', JNumber a), (''end'', JNumber b)]]"
      "\<bar>a\<bar> \<le> 1 / 2000" "\<bar>b - 1 / 4\<bar> \<le> 1 / 2000"
    by (auto simp: list_all2_Cons1)
  then show ?thesis using t by blast
qed

end
