(* ===== verification/Gem_Reload.thy ===== *)
theory Gem_Reload
  imports Gem_Sched
begin

text \<open>
  The reload of the configuration and a request at the grain of the sources: \<^verbatim>\<open>client_info_map\<close> of
  \<^verbatim>\<open>src/src/scheduler.cpp\<close> is a map to pointers, and neither \<^verbatim>\<open>read_resource_config\<close>, which deletes the
  object of a client it registers anew, nor the part of \<^verbatim>\<open>handle_message\<close> that looks up the pointer and
  then uses it holds a mutex. The other theories take \<^verbatim>\<open>handle_message\<close> up to its lock and a reload as one step each;
  here they are the steps of their threads.

  An object is a position in a store; \<^verbatim>\<open>delete\<close> empties the position, and \<^verbatim>\<open>new\<close> never reuses one, so that
  every use of a deleted object is seen as a fault. The scheduler's state without the client map is that of \<open>Gem_Sched\<close>;
  \<open>view\<close> follows the pointers. Reads and writes within one line of the sources are whole. The daemon thread follows
  pointers of the map in the same way and is left out here.
\<close>

section \<open>The threads\<close>

text \<open>The connection thread between the lookup of \<^verbatim>\<open>client_inf\<close> and the lock: before
  \<^verbatim>\<open>update_return_time\<close>, before \<^verbatim>\<open>set_burst\<close>, before the two kinds of answers, and with the request to push.\<close>

datatype handler_pc =
    MIdle
  | MUpdate string int32 double double nat
  | MBurst string int32 double nat
  | MLimit int32 nat
  | MAnswer int32
  | MDone "(string \<times> int32) option"

text \<open>The thread of \<^verbatim>\<open>monitor_file\<close> inside \<^verbatim>\<open>read_resource_config\<close>, with the lines still to register: before a line, after
  \<^verbatim>\<open>new\<close>, and after \<^verbatim>\<open>delete\<close>.\<close>

type_synonym config_entry = "string \<times> double \<times> double \<times> size_t"

datatype reader_pc = RIdle | RLines "config_entry list" | RNew string nat "config_entry list" | RStore string nat "config_entry list"

record heap_sched =
  hp_sched :: sched_state
  hp_objects :: "nat \<Rightarrow> ClientInfo option"
  hp_fresh :: nat
  hp_pointers :: "string \<Rightarrow> nat option"
  hp_handler :: handler_pc
  hp_reader :: reader_pc
  hp_freed_use :: bool

definition resolve :: "(string \<Rightarrow> nat option) \<Rightarrow> (nat \<Rightarrow> ClientInfo option) \<Rightarrow> (string \<rightharpoonup> ClientInfo)" where
  "resolve pointers objects n = (case pointers n of None \<Rightarrow> None | Some p \<Rightarrow> objects p)"

definition view :: "heap_sched \<Rightarrow> sched_state" where
  "view s = (hp_sched s)\<lparr>client_info_map := resolve (hp_pointers s) (hp_objects s)\<rparr>"

section \<open>handle_message\<close>

text \<open>The message is read and the pointer looked up.\<close>

definition look_up :: "byte list \<Rightarrow> heap_sched \<Rightarrow> handler_pc option" where
  "look_up message s = do {
     pr \<leftarrow> parse_request message;
     name \<leftarrow> c_string message (pr_name pr);
     let attached = attached_data message (pr_attached pr);
     (case hp_pointers s name of
        None \<Rightarrow> Some (MDone None)
      | Some client_inf \<Rightarrow>
          if pr_type pr = REQ_QUOTA then do {
            (overuse, offset) \<leftarrow> get_msg_data 8 word64 attached 0;
            (burst, offset) \<leftarrow> get_msg_data 8 word64 attached offset;
            Some (MUpdate name (pr_id pr) (double_of_bits overuse) (double_of_bits burst) client_inf)
          }
          else if pr_type pr = REQ_MEM_LIMIT then Some (MLimit (pr_id pr) client_inf)
          else if pr_type pr = REQ_MEM_UPDATE then Some (MAnswer (pr_id pr))
          else Some (MDone None))
   }"

text \<open>The next line of the handler; a use of an object that is not there is the fault.\<close>

definition answer :: "sockfd \<Rightarrow> comm_request_t \<Rightarrow> int32 \<Rightarrow> vararg list \<Rightarrow> heap_sched \<Rightarrow> heap_sched option" where
  "answer sock req rid args s =
     map_option (\<lambda>(sbuf, pos). s\<lparr>hp_sched := (hp_sched s)\<lparr>sent := sent (hp_sched s) @ [(sock, sbuf)]\<rparr>, hp_handler := MDone None\<rparr>)
       (prepare_response (replicate RSP_MSG_LEN 0) req rid args)"

definition handler_next :: "sockfd \<Rightarrow> heap_sched \<Rightarrow> heap_sched option" where
  "handler_next sock s = (case hp_handler s of
     MUpdate name rid overuse brst client_inf \<Rightarrow>
       (case hp_objects s client_inf of
          None \<Rightarrow> Some (s\<lparr>hp_freed_use := True\<rparr>)
        | Some c \<Rightarrow>
            let (c, hist) = update_return_time (ms_since_start (hp_sched s)) overuse c (history_list (hp_sched s))
            in Some (s\<lparr>hp_sched := (hp_sched s)\<lparr>history_list := hist\<rparr>, hp_objects := (hp_objects s)(client_inf \<mapsto> c),
                 hp_handler := MBurst name rid brst client_inf\<rparr>))
   | MBurst name rid brst client_inf \<Rightarrow>
       (case hp_objects s client_inf of
          None \<Rightarrow> Some (s\<lparr>hp_freed_use := True\<rparr>)
        | Some c \<Rightarrow> Some (s\<lparr>hp_objects := (hp_objects s)(client_inf \<mapsto> set_burst brst c), hp_handler := MDone (Some (name, rid))\<rparr>))
   | MLimit rid client_inf \<Rightarrow>
       (case hp_objects s client_inf of
          None \<Rightarrow> Some (s\<lparr>hp_freed_use := True\<rparr>)
        | Some c \<Rightarrow> answer sock REQ_MEM_LIMIT rid [ASize 0, ASize (gpu_mem_limit c)] s)
   | MAnswer rid \<Rightarrow> answer sock REQ_MEM_UPDATE rid [AInt 1] s
   | _ \<Rightarrow> None)"

section \<open>read_resource_config\<close>

definition reader_next :: "heap_sched \<Rightarrow> heap_sched option" where
  "reader_next s = (case hp_reader s of
     RIdle \<Rightarrow> None
   | RLines [] \<Rightarrow> Some (s\<lparr>hp_reader := RIdle\<rparr>)
   | RLines ((name, minf, maxf, mem) # lines) \<Rightarrow>
       Some (s\<lparr>hp_objects := (hp_objects s)(hp_fresh s \<mapsto> configured_client (s_cfg (hp_sched s)) name minf maxf mem),
         hp_fresh := Suc (hp_fresh s), hp_reader := RNew name (hp_fresh s) lines\<rparr>)
   | RNew name client_inf lines \<Rightarrow>
       Some (s\<lparr>hp_objects := (case hp_pointers s name of None \<Rightarrow> hp_objects s | Some old \<Rightarrow> (hp_objects s)(old := None)),
         hp_reader := RStore name client_inf lines\<rparr>)
   | RStore name client_inf lines \<Rightarrow>
       Some (s\<lparr>hp_pointers := (hp_pointers s)(name \<mapsto> client_inf), hp_reader := RLines lines\<rparr>))"

section \<open>Both threads\<close>

definition heap_init :: "heap_sched \<Rightarrow> bool" where
  "heap_init s \<longleftrightarrow> sched_init (view s) \<and> inj_on (hp_pointers s) (dom (hp_pointers s))
     \<and> (\<forall>n p. hp_pointers s n = Some p \<longrightarrow> hp_objects s p \<noteq> None) \<and> (\<forall>p. hp_objects s p \<noteq> None \<longrightarrow> p < hp_fresh s)
     \<and> hp_handler s = MIdle \<and> hp_reader s = RIdle \<and> \<not> hp_freed_use s"

inductive heap_step :: "sockfd \<Rightarrow> heap_sched \<Rightarrow> heap_sched \<Rightarrow> bool" for sock where
  heap_tick: "\<not> hp_freed_use s \<Longrightarrow> s_clock (hp_sched s) \<le> t \<Longrightarrow> heap_step sock s (s\<lparr>hp_sched := (hp_sched s)\<lparr>s_clock := t\<rparr>\<rparr>)"
| heap_message: "\<not> hp_freed_use s \<Longrightarrow> hp_handler s = MIdle \<Longrightarrow> look_up message s = Some pc \<Longrightarrow> heap_step sock s (s\<lparr>hp_handler := pc\<rparr>)"
| heap_handler: "\<not> hp_freed_use s \<Longrightarrow> handler_next sock s = Some t \<Longrightarrow> heap_step sock s t"
| heap_push: "\<not> hp_freed_use s \<Longrightarrow> hp_handler s = MDone push \<Longrightarrow>
    heap_step sock s (s\<lparr>hp_sched := (case push of None \<Rightarrow> hp_sched s | Some (name, rid) \<Rightarrow> push_candidate sock name rid (hp_sched s)),
      hp_handler := MIdle\<rparr>)"
| heap_event: "\<not> hp_freed_use s \<Longrightarrow> hp_reader s = RIdle \<Longrightarrow> heap_step sock s (s\<lparr>hp_reader := RLines lines\<rparr>)"
| heap_reader: "\<not> hp_freed_use s \<Longrightarrow> reader_next s = Some t \<Longrightarrow> heap_step sock s t"

text \<open>A connection thread that runs on alone.\<close>

inductive handler_run :: "sockfd \<Rightarrow> heap_sched \<Rightarrow> heap_sched \<Rightarrow> bool" for sock where
  handler_run: "\<not> hp_freed_use s \<Longrightarrow> handler_next sock s = Some t \<Longrightarrow> handler_run sock s t"

section \<open>The invariant\<close>

text \<open>The name a handler works for and the pointer it holds.\<close>

fun held_pointer :: "handler_pc \<Rightarrow> nat option" where
  "held_pointer (MUpdate name rid overuse brst p) = Some p"
| "held_pointer (MBurst name rid brst p) = Some p"
| "held_pointer (MLimit rid p) = Some p"
| "held_pointer _ = None"

fun new_pointer :: "reader_pc \<Rightarrow> nat option" where
  "new_pointer (RNew name p lines) = Some p"
| "new_pointer (RStore name p lines) = Some p"
| "new_pointer _ = None"

fun replaced_name :: "reader_pc \<Rightarrow> string option" where
  "replaced_name (RStore name p lines) = Some name"
| "replaced_name _ = None"

text \<open>Different names have different objects, the new object is nobody's yet, and every pointer of the map
  leads to an object unless its client is being replaced.\<close>

definition heap_inv :: "heap_sched \<Rightarrow> bool" where
  "heap_inv s \<longleftrightarrow>
     (\<forall>n m p. hp_pointers s n = Some p \<longrightarrow> hp_pointers s m = Some p \<longrightarrow> n = m)
     \<and> (\<forall>n p. hp_pointers s n = Some p \<longrightarrow> p < hp_fresh s \<and> new_pointer (hp_reader s) \<noteq> Some p
          \<and> (replaced_name (hp_reader s) \<noteq> Some n \<longrightarrow> hp_objects s p \<noteq> None))
     \<and> (\<forall>p. held_pointer (hp_handler s) = Some p \<longrightarrow> p < hp_fresh s \<and> new_pointer (hp_reader s) \<noteq> Some p)
     \<and> (\<forall>p. new_pointer (hp_reader s) = Some p \<longrightarrow> p < hp_fresh s \<and> hp_objects s p \<noteq> None)"

lemma heap_init_inv: "heap_init s \<Longrightarrow> heap_inv s"
  unfolding heap_inv_def heap_init_def by (fastforce simp: inj_on_def dom_def)

lemma heap_invD:
  assumes "heap_inv s"
  shows "hp_pointers s n = Some p \<Longrightarrow> hp_pointers s m = Some p \<Longrightarrow> n = m"
    and "hp_pointers s n = Some p \<Longrightarrow> p < hp_fresh s \<and> new_pointer (hp_reader s) \<noteq> Some p"
    and "hp_pointers s n = Some p \<Longrightarrow> replaced_name (hp_reader s) \<noteq> Some n \<Longrightarrow> hp_objects s p \<noteq> None"
    and "held_pointer (hp_handler s) = Some p \<Longrightarrow> p < hp_fresh s \<and> new_pointer (hp_reader s) \<noteq> Some p"
    and "new_pointer (hp_reader s) = Some p \<Longrightarrow> p < hp_fresh s \<and> hp_objects s p \<noteq> None"
  using assms unfolding heap_inv_def by blast+

lemma look_up_pointer:
  assumes "look_up message s = Some pc" and "held_pointer pc = Some p"
  shows "\<exists>n. hp_pointers s n = Some p"
proof -
  obtain pr name where pr: "parse_request message = Some pr" "c_string message (pr_name pr) = Some name"
    using assms(1) by (auto simp: look_up_def bind_eq_Some_conv)
  show ?thesis
  proof (cases "hp_pointers s name")
    case None
    then show ?thesis using assms pr by (auto simp: look_up_def)
  next
    case (Some q)
    have "p = q"
      using assms pr Some by (auto simp: look_up_def Let_def bind_eq_Some_conv case_prod_unfold split: if_splits)
    then show ?thesis using Some by blast
  qed
qed

text \<open>A step of the handler works on the object it holds, if it is there.\<close>

lemma handler_next_frame:
  assumes "handler_next sock s = Some t"
  shows "hp_pointers t = hp_pointers s \<and> hp_fresh t = hp_fresh s \<and> hp_reader t = hp_reader s
    \<and> (held_pointer (hp_handler t) = None \<or> held_pointer (hp_handler t) = held_pointer (hp_handler s))
    \<and> (\<forall>p. hp_objects t p = None \<longleftrightarrow> hp_objects s p = None)"
  using assms
  by (auto simp: handler_next_def answer_def Let_def case_prod_unfold split: handler_pc.splits option.splits if_splits)

lemma heap_step_inv: "heap_step sock s t \<Longrightarrow> heap_inv s \<Longrightarrow> heap_inv t"
proof (induction rule: heap_step.induct)
  case (heap_message s message pc)
  have "p < hp_fresh s \<and> new_pointer (hp_reader s) \<noteq> Some p" if "held_pointer pc = Some p" for p
    using look_up_pointer [OF heap_message(3) that] heap_invD(2) [OF heap_message(4)] by blast
  then show ?case using heap_message(4) by (simp add: heap_inv_def)
next
  case (heap_handler s t)
  note frame = handler_next_frame [OF heap_handler(2)]
  have held: "held_pointer (hp_handler t) = Some p \<Longrightarrow> held_pointer (hp_handler s) = Some p" for p
    using frame by auto
  have same: "hp_pointers t = hp_pointers s" "hp_fresh t = hp_fresh s" "hp_reader t = hp_reader s"
      "\<And>p. (hp_objects t p = None) = (hp_objects s p = None)"
    using frame by auto
  show ?case
    using heap_handler(3) held unfolding heap_inv_def same by blast
next
  case (heap_reader s t)
  note inv = heap_invD [OF heap_reader(3)]
  show ?case
  proof (cases "hp_reader s")
    case RIdle
    then show ?thesis using heap_reader(2) by (simp add: reader_next_def)
  next
    case (RLines lines)
    show ?thesis
    proof (cases lines)
      case Nil
      then show ?thesis using heap_reader(2,3) RLines by (auto simp: reader_next_def heap_inv_def)
    next
      case (Cons l ls)
      obtain name a b m where l: "l = (name, a, b, m)" by (cases l)
      show ?thesis
        using heap_reader(2,3) unfolding heap_inv_def
        by (auto simp: RLines Cons l reader_next_def less_Suc_eq) blast+
    qed
  next
    case (RNew name p lines)
    then have "hp_objects s p \<noteq> None" "p < hp_fresh s" "hp_pointers s n \<noteq> Some p" for n
      using inv(5) [of p] inv(2) [of n p] by auto
    then show ?thesis
      using heap_reader(2,3) RNew unfolding heap_inv_def by (auto simp: reader_next_def split: option.splits if_splits)
  next
    case (RStore name p lines)
    then have "hp_objects s p \<noteq> None" "p < hp_fresh s" "hp_pointers s n \<noteq> Some p" for n
      using inv(5) [of p] inv(2) [of n p] by auto
    then show ?thesis
      using heap_reader(2,3) RStore unfolding heap_inv_def by (auto simp: reader_next_def split: if_splits)
  qed
qed (auto simp: heap_inv_def)

interpretation heap: inductive_invariant heap_init "heap_step sock" heap_inv for sock
  by unfold_locales (use heap_init_inv heap_step_inv in auto)

text \<open>Every pointer of the map leads to its client's object, except of a client just being replaced.\<close>

lemma registered_client_there:
  assumes "reach heap_init (heap_step sock) s" and "hp_pointers s n = Some p" and "replaced_name (hp_reader s) \<noteq> Some n"
  shows "hp_objects s p \<noteq> None"
  using heap_invD(3) [OF heap.reach_inv [OF assms(1)] assms(2,3)] .

section \<open>A handler without a reload\<close>

lemma view_sel [simp]:
  "client_info_map (view s) = resolve (hp_pointers s) (hp_objects s)" "history_list (view s) = history_list (hp_sched s)"
  "sent (view s) = sent (hp_sched s)"
  by (simp_all add: view_def)

lemma ms_since_start_view [simp]: "ms_since_start (view s) = ms_since_start (hp_sched s)"
  by (simp add: ms_since_start_def view_def)

text \<open>Writing an object is an update of the client map, since no other client shares it.\<close>

lemma view_write:
  assumes "heap_inv s" and "hp_pointers s n = Some p"
  shows "resolve (hp_pointers s) ((hp_objects s)(p \<mapsto> c)) = (resolve (hp_pointers s) (hp_objects s))(n \<mapsto> c)"
proof
  fix m
  show "resolve (hp_pointers s) ((hp_objects s)(p \<mapsto> c)) m = ((resolve (hp_pointers s) (hp_objects s))(n \<mapsto> c)) m"
    using heap_invD(1) [OF assms(1), of m p n] assms(2)
    by (cases "m = n"; cases "hp_pointers s m") (auto simp: resolve_def)
qed

lemma handler_runs_quota:
  assumes inv: "heap_inv s" and live: "\<not> hp_freed_use s" and p: "hp_pointers s name = Some p" "hp_objects s p = Some c"
    and upd: "update_return_time (ms_since_start (hp_sched s)) overuse c (history_list (hp_sched s)) = (c', hist)"
  shows "\<exists>t. (handler_run sock)\<^sup>*\<^sup>* (s\<lparr>hp_handler := MUpdate name rid overuse brst p\<rparr>) t \<and> hp_handler t = MDone (Some (name, rid))
    \<and> view t = (view s)\<lparr>client_info_map := (client_info_map (view s))(name \<mapsto> set_burst brst c'), history_list := hist\<rparr>
    \<and> \<not> hp_freed_use t"
proof -
  let ?s1 = "s\<lparr>hp_handler := MUpdate name rid overuse brst p\<rparr>"
  let ?s2 = "?s1\<lparr>hp_sched := (hp_sched s)\<lparr>history_list := hist\<rparr>, hp_objects := (hp_objects s)(p \<mapsto> c'), hp_handler := MBurst name rid brst p\<rparr>"
  let ?s3 = "?s2\<lparr>hp_objects := (hp_objects ?s2)(p \<mapsto> set_burst brst c'), hp_handler := MDone (Some (name, rid))\<rparr>"
  have "handler_next sock ?s1 = Some ?s2" using p(2) upd by (simp add: handler_next_def)
  then have "handler_run sock ?s1 ?s2" using live by (intro handler_run.intros) simp_all
  moreover have "handler_next sock ?s2 = Some ?s3" by (simp add: handler_next_def)
  then have "handler_run sock ?s2 ?s3" using live by (intro handler_run.intros) simp_all
  ultimately have "(handler_run sock)\<^sup>*\<^sup>* ?s1 ?s3" by (meson converse_rtranclp_into_rtranclp rtranclp.rtrancl_refl)
  moreover have "view ?s3 = (view s)\<lparr>client_info_map := (client_info_map (view s))(name \<mapsto> set_burst brst c'), history_list := hist\<rparr>"
    using view_write [OF inv p(1), of "set_burst brst c'"] by (intro sched_state.equality) (simp_all add: view_def)
  ultimately show ?thesis using live by (intro exI [of _ ?s3]) simp
qed

lemma handler_ignores:
  assumes "look_up msg s = Some (MDone None)" and "\<not> hp_freed_use s"
  shows "\<exists>pc t. look_up msg s = Some pc \<and> (handler_run sock)\<^sup>*\<^sup>* (s\<lparr>hp_handler := pc\<rparr>) t \<and> hp_handler t = MDone None
    \<and> view t = view s \<and> \<not> hp_freed_use t"
  using assms by (intro exI [of _ "MDone None"] exI [of _ "s\<lparr>hp_handler := MDone None\<rparr>"]) (simp add: view_def)

lemma handler_runs_answer:
  assumes live: "\<not> hp_freed_use s" and buf: "prepare_response (replicate RSP_MSG_LEN 0) req rid args = Some (buf, pos)"
    and step: "handler_next sock (s\<lparr>hp_handler := pc\<rparr>) = answer sock req rid args (s\<lparr>hp_handler := pc\<rparr>)"
  shows "\<exists>t. (handler_run sock)\<^sup>*\<^sup>* (s\<lparr>hp_handler := pc\<rparr>) t \<and> hp_handler t = MDone None
    \<and> view t = (view s)\<lparr>sent := sent (view s) @ [(sock, buf)]\<rparr> \<and> \<not> hp_freed_use t"
proof -
  let ?s = "s\<lparr>hp_handler := pc\<rparr>"
  let ?t = "?s\<lparr>hp_sched := (hp_sched s)\<lparr>sent := sent (hp_sched s) @ [(sock, buf)]\<rparr>, hp_handler := MDone None\<rparr>"
  have "handler_next sock ?s = Some ?t" using step buf by (simp add: answer_def)
  then have "handler_run sock ?s ?t" using live by (intro handler_run.intros) simp_all
  moreover have "view ?t = (view s)\<lparr>sent := sent (view s) @ [(sock, buf)]\<rparr>"
    by (intro sched_state.equality) (simp_all add: view_def)
  ultimately show ?thesis using live by (intro exI [of _ ?t]) auto
qed

text \<open>The monitor thread alone, too, does to the map what \<^verbatim>\<open>register_client\<close> of \<open>Gem_Config\<close> does for
  one line.\<close>

lemma undisturbed_line_registers:
  assumes inv: "heap_inv s" and reader: "hp_reader s = RLines ((name, minf, maxf, mem) # lines)"
  shows "\<exists>t u v. reader_next s = Some t \<and> reader_next t = Some u \<and> reader_next u = Some v
    \<and> view v = (view s)\<lparr>client_info_map :=
        (client_info_map (view s))(name \<mapsto> configured_client (s_cfg (hp_sched s)) name minf maxf mem)\<rparr>
    \<and> hp_reader v = RLines lines"
proof -
  let ?c = "configured_client (s_cfg (hp_sched s)) name minf maxf mem" and ?new = "(hp_objects s)(hp_fresh s \<mapsto> configured_client (s_cfg (hp_sched s)) name minf maxf mem)"
  let ?o = "case hp_pointers s name of None \<Rightarrow> ?new | Some old \<Rightarrow> ?new(old := None)"
  let ?t = "s\<lparr>hp_objects := ?new, hp_fresh := Suc (hp_fresh s), hp_reader := RNew name (hp_fresh s) lines\<rparr>"
  let ?u = "?t\<lparr>hp_objects := ?o, hp_reader := RStore name (hp_fresh s) lines\<rparr>"
  let ?v = "?u\<lparr>hp_pointers := (hp_pointers s)(name \<mapsto> hp_fresh s), hp_reader := RLines lines\<rparr>"
  have other: "hp_pointers s n = Some p \<Longrightarrow> p \<noteq> hp_fresh s" for n p using heap_invD(2) [OF inv, of n p] by auto
  have "resolve ((hp_pointers s)(name \<mapsto> hp_fresh s)) ?o n = ((resolve (hp_pointers s) (hp_objects s))(name \<mapsto> ?c)) n" for n
  proof (cases "n = name")
    case True
    then show ?thesis using other [of name] by (auto simp: resolve_def split: option.split)
  next
    case False
    have "hp_pointers s n = Some p \<Longrightarrow> hp_pointers s name \<noteq> Some p" for p using heap_invD(1) [OF inv, of n p name] False by blast
    then show ?thesis using False other [of n] by (auto simp: resolve_def split: option.split)
  qed
  then have "resolve ((hp_pointers s)(name \<mapsto> hp_fresh s)) ?o = (resolve (hp_pointers s) (hp_objects s))(name \<mapsto> ?c)" by blast
  then have "view ?v = (view s)\<lparr>client_info_map := (client_info_map (view s))(name \<mapsto> ?c)\<rparr>"
    by (intro sched_state.equality) (simp_all add: view_def)
  moreover have "reader_next s = Some ?t" "reader_next ?t = Some ?u" "reader_next ?u = Some ?v"
    using reader by (cases "hp_pointers s name"; simp add: reader_next_def)+
  ultimately show ?thesis by (intro exI [of _ ?t] exI [of _ ?u] exI [of _ ?v]) simp
qed

section \<open>A reload in between\<close>

lemma look_up_quota:
  assumes "carries msg name rid REQ_QUOTA att" and "get_msg_data 8 word64 att 0 = Some (overuse, 8)"
    and "get_msg_data 8 word64 att 8 = Some (brst, 16)" and "hp_pointers s name = Some p"
  shows "look_up msg s = Some (MUpdate name rid (double_of_bits overuse) (double_of_bits brst) p)"
  using assms by (auto simp: carries_def look_up_def Let_def)

text \<open>The monitor thread registers a line up to and including the \<^verbatim>\<open>delete\<close>.\<close>

lemma reload_deletes:
  assumes "\<not> hp_freed_use s" and "hp_reader s = RIdle" and "hp_pointers s name = Some p"
  shows "\<exists>t. (heap_step sock)\<^sup>*\<^sup>* s t \<and> hp_handler t = hp_handler s \<and> hp_objects t p = None \<and> hp_pointers t = hp_pointers s
    \<and> \<not> hp_freed_use t"
proof -
  let ?s1 = "s\<lparr>hp_reader := RLines [(name, minf, maxf, mem)]\<rparr>"
  let ?s2 = "?s1\<lparr>hp_objects := (hp_objects s)(hp_fresh s \<mapsto> configured_client (s_cfg (hp_sched s)) name minf maxf mem),
      hp_fresh := Suc (hp_fresh s), hp_reader := RNew name (hp_fresh s) []\<rparr>"
  let ?s3 = "?s2\<lparr>hp_objects := (hp_objects ?s2)(p := None), hp_reader := RStore name (hp_fresh s) []\<rparr>"
  have "heap_step sock s ?s1" using assms(1,2) by (rule heap_event)
  moreover have "heap_step sock ?s1 ?s2" by (rule heap_reader) (simp_all add: assms(1) reader_next_def)
  moreover have "heap_step sock ?s2 ?s3" by (rule heap_reader) (simp_all add: assms(1,3) reader_next_def)
  ultimately have "(heap_step sock)\<^sup>*\<^sup>* s ?s3" by (meson converse_rtranclp_into_rtranclp rtranclp.rtrancl_refl)
  then show ?thesis using assms(1) by (intro exI [of _ ?s3]) simp
qed

text \<open>A scheduler that has started with one client, and its first request.\<close>

definition boot_heap :: heap_sched where
  "boot_heap = \<lparr>hp_sched = boot_state, hp_objects = [0 \<mapsto> (new_ClientInfo 250 100 8000 (1/2) (4/5))\<lparr>c_name := ''pod1'', gpu_mem_limit := 4096\<rparr>],
     hp_fresh = 1, hp_pointers = [''pod1'' \<mapsto> 0], hp_handler = MIdle, hp_reader = RIdle, hp_freed_use = False\<rparr>"

lemma view_boot: "view boot_heap = boot_state"
  by (rule sched_state.equality) (auto simp: view_def boot_heap_def boot_state_def resolve_def split: option.split)

lemma boot_heap_init: "heap_init boot_heap"
  unfolding heap_init_def view_boot by (simp add: boot_init) (simp add: boot_heap_def inj_on_def)

lemma first_message_carries:
  "carries first_message ''pod1'' 0 REQ_QUOTA (bytes64 0 @ bytes64 0 @ replicate 43 0)"
  unfolding first_message_def by (rule carries_request_header) (simp_all add: c_safe_def)

section \<open>Properties\<close>

text \<open>C27. The atomic step of the other theories is what the code does as long as no reload comes in
  between: in a reachable state in which no client is just being replaced, a connection thread that takes
  a message from its socket and runs on alone up to its lock makes exactly the change of
  \<^verbatim>\<open>handle_message\<close> as one step, on the client map the pointers stand for, and uses no deleted object.\<close>

theorem undisturbed_handler_is_atomic:
  assumes "reach heap_init (heap_step sock) s" and "\<not> hp_freed_use s" and "hp_handler s = MIdle"
    and "replaced_name (hp_reader s) = None"
    and "handle_unlocked sock msg (view s) = Some (v, push)"
  shows "\<exists>pc t. look_up msg s = Some pc \<and> (handler_run sock)\<^sup>*\<^sup>* (s\<lparr>hp_handler := pc\<rparr>) t
    \<and> hp_handler t = MDone push \<and> view t = v \<and> \<not> hp_freed_use t"
proof -
  have inv: "heap_inv s" using heap.reach_inv [OF assms(1)] .
  have there: "hp_objects s p \<noteq> None" if "hp_pointers s n = Some p" for n p
    using registered_client_there [OF assms(1) that] assms(4) by simp
  obtain pr name where pr: "parse_request msg = Some pr" "c_string msg (pr_name pr) = Some name"
    using assms(5) by (auto simp: handle_unlocked_def Let_def bind_eq_Some_conv)
  let ?att = "attached_data msg (pr_attached pr)"
  show ?thesis
  proof (cases "hp_pointers s name")
    case None
    have "look_up msg s = Some (MDone None)" "v = view s" "push = None"
      using assms(5) pr None by (simp_all add: handle_unlocked_def Let_def look_up_def resolve_def)
    then show ?thesis using handler_ignores [OF _ assms(2), of msg sock] by simp
  next
    case (Some p)
    obtain c where c: "hp_objects s p = Some c" using there [OF Some] by blast
    have client: "client_info_map (view s) name = Some c" by (simp add: resolve_def Some c)
    consider "pr_type pr = REQ_QUOTA" | "pr_type pr = REQ_MEM_LIMIT" | "pr_type pr = REQ_MEM_UPDATE"
      | w where "pr_type pr = REQ_UNKNOWN w" by (cases "pr_type pr") auto
    then show ?thesis
    proof cases
      case 1
      obtain o1 i where o1: "get_msg_data 8 word64 ?att 0 = Some (o1, i)"
        using assms(5) pr client 1 by (auto simp: handle_unlocked_def Let_def bind_eq_Some_conv)
      obtain b1 j where b1: "get_msg_data 8 word64 ?att i = Some (b1, j)"
        using assms(5) pr client 1 o1 by (auto simp: handle_unlocked_def Let_def bind_eq_Some_conv)
      obtain c' hist where upd: "update_return_time (ms_since_start (hp_sched s)) (double_of_bits o1) c (history_list (hp_sched s)) = (c', hist)"
        by (cases "update_return_time (ms_since_start (hp_sched s)) (double_of_bits o1) c (history_list (hp_sched s))")
      have v: "v = (view s)\<lparr>client_info_map := (client_info_map (view s))(name \<mapsto> set_burst (double_of_bits b1) c'), history_list := hist\<rparr>"
          "push = Some (name, pr_id pr)"
        using assms(5) pr client 1 o1 b1 upd by (simp_all add: handle_unlocked_def Let_def)
      have "look_up msg s = Some (MUpdate name (pr_id pr) (double_of_bits o1) (double_of_bits b1) p)"
        using pr Some 1 o1 b1 by (simp add: look_up_def Let_def)
      then show ?thesis using handler_runs_quota [OF inv assms(2) Some c upd] v by blast
    next
      case 2
      obtain buf pos where buf: "prepare_response (replicate RSP_MSG_LEN 0) REQ_MEM_LIMIT (pr_id pr) [ASize 0, ASize (gpu_mem_limit c)] = Some (buf, pos)"
          "v = (view s)\<lparr>sent := sent (view s) @ [(sock, buf)]\<rparr>" "push = None"
        using assms(5) pr client 2 by (auto simp: handle_unlocked_def Let_def bind_eq_Some_conv)
      have "look_up msg s = Some (MLimit (pr_id pr) p)" using pr Some 2 by (simp add: look_up_def Let_def)
      moreover have "handler_next sock (s\<lparr>hp_handler := MLimit (pr_id pr) p\<rparr>) =
          answer sock REQ_MEM_LIMIT (pr_id pr) [ASize 0, ASize (gpu_mem_limit c)] (s\<lparr>hp_handler := MLimit (pr_id pr) p\<rparr>)"
        by (simp add: handler_next_def c)
      ultimately show ?thesis using handler_runs_answer [OF assms(2) buf(1)] buf(2,3) by blast
    next
      case 3
      obtain buf pos where buf: "prepare_response (replicate RSP_MSG_LEN 0) REQ_MEM_UPDATE (pr_id pr) [AInt 1] = Some (buf, pos)"
          "v = (view s)\<lparr>sent := sent (view s) @ [(sock, buf)]\<rparr>" "push = None"
        using assms(5) pr client 3 by (auto simp: handle_unlocked_def Let_def bind_eq_Some_conv)
      have "look_up msg s = Some (MAnswer (pr_id pr))" using pr Some 3 by (simp add: look_up_def Let_def)
      moreover have "handler_next sock (s\<lparr>hp_handler := MAnswer (pr_id pr)\<rparr>) =
          answer sock REQ_MEM_UPDATE (pr_id pr) [AInt 1] (s\<lparr>hp_handler := MAnswer (pr_id pr)\<rparr>)"
        by (simp add: handler_next_def)
      ultimately show ?thesis using handler_runs_answer [OF assms(2) buf(1)] buf(2,3) by blast
    next
      case 4
      have "look_up msg s = Some (MDone None)" "v = view s" "push = None"
        using assms(5) pr client Some 4 by (simp_all add: handle_unlocked_def Let_def look_up_def)
      then show ?thesis using handler_ignores [OF _ assms(2), of msg sock] by simp
    qed
  qed
qed

theorem undisturbed_handler_is_atomic_witness:
  "\<exists>pc t. look_up first_message boot_heap = Some pc \<and> (handler_run 4)\<^sup>*\<^sup>* (boot_heap\<lparr>hp_handler := pc\<rparr>) t
     \<and> hp_handler t = MDone (Some (''pod1'', 0)) \<and> \<not> hp_freed_use t"
proof -
  have "\<exists>v. handle_unlocked 4 first_message (view boot_heap) = Some (v, Some (''pod1'', 0))"
    using handle_unlocked_quota [OF first_message_carries, of 0 0 "view boot_heap" _ 4] get_two_64 [of 0 0 "replicate 43 0"]
    by (simp add: view_boot boot_state_def case_prod_unfold Let_def)
  then obtain v where v: "handle_unlocked 4 first_message (view boot_heap) = Some (v, Some (''pod1'', 0))" by blast
  have "reach heap_init (heap_step 4) boot_heap" using boot_heap_init by (rule reach_init)
  from undisturbed_handler_is_atomic [OF this _ _ _ v] show ?thesis by (auto simp: boot_heap_def)
qed

text \<open>C26. A reload can delete a client that is in use: in every reachable state in which both threads are idle,
  whatever client is registered and whatever quota request of it arrives, there is a run in which the monitor
  thread reads a line with the client's name and deletes its object after the connection thread has
  looked the pointer up, and the connection thread's next step uses the deleted object.\<close>

theorem reload_frees_client_in_use:
  assumes "reach heap_init (heap_step sock) s" and "\<not> hp_freed_use s" and "hp_handler s = MIdle" and "hp_reader s = RIdle"
    and "hp_pointers s name = Some p" and "carries msg name rid REQ_QUOTA att"
    and "get_msg_data 8 word64 att 0 = Some (overuse, 8)" and "get_msg_data 8 word64 att 8 = Some (brst, 16)"
  shows "hp_objects s p \<noteq> None
    \<and> (\<exists>t u. (heap_step sock)\<^sup>*\<^sup>* s t \<and> held_pointer (hp_handler t) = Some p \<and> hp_pointers t name = Some p \<and> hp_objects t p = None
        \<and> heap_step sock t u \<and> hp_freed_use u)"
proof
  show "hp_objects s p \<noteq> None" using registered_client_there [OF assms(1,5)] assms(4) by simp
  let ?pc = "MUpdate name rid (double_of_bits overuse) (double_of_bits brst) p"
  have look: "look_up msg s = Some ?pc" using look_up_quota assms(5-8) by blast
  have step: "heap_step sock s (s\<lparr>hp_handler := ?pc\<rparr>)" using assms(2,3) look by (rule heap_message)
  obtain t where t: "(heap_step sock)\<^sup>*\<^sup>* (s\<lparr>hp_handler := ?pc\<rparr>) t" "hp_handler t = ?pc" "hp_objects t p = None"
      "hp_pointers t = hp_pointers s" "\<not> hp_freed_use t"
    using reload_deletes [of "s\<lparr>hp_handler := ?pc\<rparr>" name p sock] assms(2,4,5) by auto
  have "handler_next sock t = Some (t\<lparr>hp_freed_use := True\<rparr>)" using t(2,3) by (simp add: handler_next_def)
  with t(5) have "heap_step sock t (t\<lparr>hp_freed_use := True\<rparr>)" by (rule heap_handler)
  moreover have "(heap_step sock)\<^sup>*\<^sup>* s t" using step t(1) by (rule converse_rtranclp_into_rtranclp)
  ultimately show "\<exists>t u. (heap_step sock)\<^sup>*\<^sup>* s t \<and> held_pointer (hp_handler t) = Some p \<and> hp_pointers t name = Some p
      \<and> hp_objects t p = None \<and> heap_step sock t u \<and> hp_freed_use u"
    using t(2-4) assms(5) by (intro exI [of _ t] exI [of _ "t\<lparr>hp_freed_use := True\<rparr>"]) simp
qed

theorem reload_frees_client_in_use_witness:
  "\<exists>t u. (heap_step 4)\<^sup>*\<^sup>* boot_heap t \<and> hp_pointers t ''pod1'' = Some 0 \<and> heap_step 4 t u \<and> hp_freed_use u"
proof -
  have "reach heap_init (heap_step 4) boot_heap" using boot_heap_init by (rule reach_init)
  from reload_frees_client_in_use [OF this _ _ _ _ first_message_carries, of 0 0 0] get_two_64 [of 0 0 "replicate 43 0"]
  show ?thesis by (simp add: boot_heap_def) blast
qed

end
