(* ===== verification/Spec2Isabelle.thy ===== *)
theory Spec2Isabelle
  imports Gem_Comm Gem_Double Gem_Predictor Gem_Client Gem_Select Gem_Config Gem_Sched Gem_PodMem Gem_Pod
    Gem_Intercept Gem_HookConn Gem_HookMem Gem_Isolation Gem_Launch Gem_Boot Gem_Link
    Gem_System Gem_Delivery Gem_Service Gem_Runs Gem_Log Gem_Reload
begin

text \<open>
  Gemini, a GPU sharing runtime: the scheduler, the pod manager and the hook library of \<^verbatim>\<open>src/src/\<close>.

  \<^bold>\<open>The program.\<close> A client program is started with the hook library in \<^verbatim>\<open>LD_PRELOAD\<close>. The library
  answers \<^verbatim>\<open>dlsym\<close> for the CUDA driver functions with its own, which run a prehook, the driver function
  and a posthook. Memory hooks book every allocation with the pod manager; the launch hook lets a kernel
  pass while the pod's quota covers the predicted burst and asks for a token otherwise. The pod
  manager keeps the memory account of its pod and one quota for all its clients; when a launch is
  expected to go over the quota it asks the scheduler. The scheduler queues the requests of all pods and
  one daemon thread grants the GPU to one of them at a time, by the usage in a sliding time window and the fractions in
  its configuration file. The processes exchange fixed-size byte messages (\<^verbatim>\<open>comm.cpp\<close>).

  \<^bold>\<open>The theories.\<close>
  \<^item> \<open>Gem_Prelude\<close>: the number types, machine arithmetic, reachability and \<^verbatim>\<open>std::sort\<close>; the locales
    \<open>inductive_invariant\<close> (a step relation and its invariant) and \<open>sort_contract\<close> (what a sort promises for a strict weak order).
    \<open>std_sort\<close> is the insertion sort libstdc++ uses up to 16 elements; on longer lists only the contract, on which the theorems rest, is
    that of the library.
  \<^item> \<open>Gem_Double\<close>: doubles as real numbers and their 64-bit representation, where they travel in a message.
  \<^item> \<open>Gem_Comm\<close>, for \<^verbatim>\<open>comm.h\<close> and \<^verbatim>\<open>comm.cpp\<close>: objects as bytes, the copy helpers, \<^verbatim>\<open>prepare_*\<close>, \<^verbatim>\<open>parse_*\<close>,
    \<^verbatim>\<open>multiple_attempt\<close>. The locale \<open>msg_datum\<close> is what a serialised object must satisfy; it has an
    interpretation per type. Results: round trips, and exactly when a request overflows its buffer.
  \<^item> \<open>Gem_Predictor\<close>, for \<^verbatim>\<open>predictor.h\<close> and \<^verbatim>\<open>predictor.cpp\<close>: \<open>RecordKeeper\<close> (a monotone queue; locale
    \<open>sliding_max\<close>) and \<open>Predictor\<close>, refined to a specification that remembers all bursts.
  \<^item> \<open>Gem_Client\<close>, for \<^verbatim>\<open>scheduler.h\<close> and the class \<^verbatim>\<open>ClientInfo\<close> in \<^verbatim>\<open>scheduler.cpp\<close>: history, burst, quota.
  \<^item> \<open>Gem_Select\<close>, for \<^verbatim>\<open>schd-priority.cpp\<close> and \<^verbatim>\<open>select_candidate\<close>: the comparator, the sweep over the time stamps
    of the window (every client's share of each interval between two time stamps; a record that ends exactly at the start of the window,
    which \<^verbatim>\<open>remove_if\<close> keeps, is counted twice, and otherwise the shares are the fair ones), and the choice of a candidate.
  \<^item> \<open>Gem_Config\<close>, for \<^verbatim>\<open>read_resource_config\<close> with the stream extraction it uses; \<open>Gem_Boot\<close> for the event
    buffer of \<^verbatim>\<open>monitor_file\<close> and both servers' \<^verbatim>\<open>main\<close> up to their accept loops, with the ports they bind.
  \<^item> \<open>Gem_Sched\<close>: the scheduler process as the step relation \<open>sched_step\<close> on \<open>sched_state\<close>: one step per critical
    section of \<^verbatim>\<open>schedule_daemon_func\<close>, \<^verbatim>\<open>pod_client_func\<close> and \<^verbatim>\<open>handle_message\<close>. Results: one holder of the GPU, no fault, every
    request served at most once, no lost wake-up, and from every state the daemon alone can grant the first request.
  \<^item> \<open>Gem_Reload\<close>: the client map as the sources have it, a map to pointers, with \<^verbatim>\<open>read_resource_config\<close>, which deletes an object,
    and the unlocked part of \<^verbatim>\<open>handle_message\<close>, which uses one, line by line. Results: run alone, that part is the one step
    \<open>Gem_Sched\<close> takes it for; with a reload in between it can use a deleted object.
  \<^item> \<open>Gem_Ledger\<close> and \<open>Gem_PodMem\<close>: a memory account as a total and entries (locale \<open>ledger\<close>), and the pod manager's
    account (\<^verbatim>\<open>hook_update_memory_usage\<close>, \<^verbatim>\<open>retrieve_mem_info\<close>).
  \<^item> \<open>Gem_Pod\<close>: the pod manager process as the step relation \<open>pod_step\<close> on \<open>pod_state\<close>, with the program
    counters of the hook threads and of the sender explicit.
  \<^item> \<open>Gem_Intercept\<close>, \<open>Gem_HookConn\<close>, \<open>Gem_HookMem\<close>, \<open>Gem_Launch\<close>, for \<^verbatim>\<open>hook.h\<close> and \<^verbatim>\<open>hook.cpp\<close>: \<^verbatim>\<open>dlsym\<close>, the hook
    tables and the interceptor macro; the connection to the pod manager; the memory hooks; the launch gate,
    \<^verbatim>\<open>initialize\<close>, and the launching and the tracking thread as the step relation \<open>track_step\<close>.
  \<^item> \<open>Gem_Isolation\<close> runs the hook library against the modelled pod manager: over all memory calls of a client the
    memory in use is what the client's own ledger says is outstanding, and stays within the limit of the pod. Managed memory and mipmapped
    arrays are not booked by the hooks and not in the ledger.
  \<^item> \<open>Gem_Link\<close>: what the messages of a pod manager do at the scheduler, and \<^verbatim>\<open>retrieve_mem_info\<close> against it. The root
    theory states the two directions of a connection and the start of a pod manager.
  \<^item> \<open>Gem_System\<close>: the scheduler and any number of pod managers as one step relation \<open>sys_step\<close>, with connections, pods that
    join and leave, one clock, and arbitrary clients. Every reachable state projects to reachable states of the processes.
    \<open>Gem_Delivery\<close> has the invariant of a connection (where each request is, whose grants travel), \<open>Gem_Service\<close>
    the runs that serve a blocked thread, \<open>Gem_Runs\<close> concrete runs and the properties of the system.
  \<^item> \<open>Gem_Log\<close>, for \<^verbatim>\<open>debug.cpp\<close>, \<^verbatim>\<open>dump_history\<close> and the \<^verbatim>\<open>_DEBUG\<close> code of \<^verbatim>\<open>ClientInfo\<close>: the log lines and the dump, which
    a reader of JSON written independently of the dump reads back.

  \<^bold>\<open>Correspondence.\<close> A struct or class is a record and the globals of a process are one record, with the
  names of the source where HOL allows them. \<^verbatim>\<open>size_t\<close>, \<^verbatim>\<open>int32_t\<close> and \<^verbatim>\<open>uint16_t\<close> are words and wrap; descriptors and results of system
  calls are integers. A double is a real number: rounding is not modelled, nor infinities and NaNs; where one travels in a message it is its 64 bits, and the theorem says which numbers are
  representable. The clock is an unbounded number of nanoseconds. A C++ \<^verbatim>\<open>map\<close> is a map, an association list where
  iteration order or an inserted default matters. An access outside a buffer, a null or uninitialised value, an ill-typed \<^verbatim>\<open>va_arg\<close>
  and an \<^verbatim>\<open>exit\<close> are values (\<open>None\<close> or an error) and never a default result.

  \<^bold>\<open>Loops and bounds.\<close> The code's loops need no fuel. The retry loop and the loops over a list recurse on what is left; the
  tokenizer of \<^verbatim>\<open>POD_MANAGER_PORT\<close> and the event loop of \<^verbatim>\<open>monitor_file\<close>, which move an index or a pointer, are partial
  functions, where a loop that does not end is \<open>None\<close>, and are proved to return (\<open>port_loop_terminates\<close>,
  \<open>initialize_establishes\<close> for the loop over the ports, \<open>config_change_applied\<close>). The buffer sizes (80 and 40 bytes, 32 kB of events, 20 bytes for the name of a dump) are the code's. Only the
  JSON reader in \<open>Gem_Log\<close>, which is not code of the repository, has fuel: the length of the text.

  \<^bold>\<open>Threads.\<close> What a thread does between two points at which another can observe it is one step; a mutex is the
  atomicity of its section. A condition variable has no memory: a signal with nobody waiting is lost, and a wait may end
  spuriously. Where the code loses a signal a theorem exhibits the reachable state, and where it does not a theorem says so:
  \<open>no_lost_wakeup\<close> (scheduler, not lost), \<open>response_can_be_missed\<close> (pod manager), \<open>start_can_be_lost\<close> and
  \<open>completion_not_lost\<close> (hook library). \<open>waiting_request_can_be_granted\<close> and \<open>blocked_launch_can_be_served\<close> state that a run
  to the good end exists; the latter needs spurious wake-ups, because of the signals the pod manager loses.

  \<^bold>\<open>Races.\<close> The sources access \<^verbatim>\<open>client_info_map\<close>, its objects and \<^verbatim>\<open>history_list\<close> without a lock. \<open>Gem_Reload\<close> shows the
  use of a deleted client that follows for the connection threads. Everywhere else, in \<open>Gem_Sched\<close> and the theories built on it, the unlocked part of
  \<^verbatim>\<open>handle_message\<close>, the daemon's use of clients and a reload are whole steps, so that this fault, and an iteration over
  \<^verbatim>\<open>history_list\<close> that meets a node the daemon has erased, are not represented: the results there are about runs without them.

  \<^bold>\<open>The system's environment.\<close> \<open>sys_step\<close> delivers the messages of a connection in order and whole. A pod manager joins when the scheduler
  knows its name and the name fits a request (47 characters), and leaves when the scheduler's thread is between two
  messages. \<^verbatim>\<open>send\<close> of the scheduler neither fails nor raises \<^verbatim>\<open>SIGPIPE\<close> when the pod manager has gone. With \<open>careful\<close> the descriptor of a closed connection is reused only when the scheduler has no request of it left;
  then \<open>quota_was_granted\<close>, \<open>requests_conserved\<close> and \<open>blocked_launch_can_be_served\<close> hold, the last two up to \<open>2^32\<close> requests, where the ids begin to repeat. The code does not see to that: it closes the descriptor and keeps the candidates,
  and without \<open>careful\<close> \<open>stale_grant\<close> is a run in which one pod takes the quota of another.

  \<^bold>\<open>Parameters.\<close> Code outside the repository is an argument: the network and \<^verbatim>\<open>sleep\<close> (functions on a state of
  their own), the file system (a map), the environment, \<^verbatim>\<open>getopt_long\<close> (the options it delivers), the CUDA driver, the names
  \<^verbatim>\<open>cuda.h\<close> expands to, and what \<^verbatim>\<open>va_arg\<close> finds for an ill-typed argument. In this theory, in \<open>Gem_System\<close> and in \<open>Gem_Isolation\<close> the network is
  the model of the other process.

  \<^bold>\<open>Not modelled.\<close> The backtrace handlers of \<^verbatim>\<open>SIGSEGV\<close>, the settings \<^verbatim>\<open>main\<close> prints and the calls of the log functions inside the operations: output that
  nothing reads. \<^verbatim>\<open>util.h\<close> only includes headers. The set-up of inotify, sockets and threads beyond their results. CUDA events,
  whose elapsed time is an argument. The memory model of C++: unlocked accesses are interleaved as whole
  steps. Partial sends and receives of TCP. System calls that never return: \<^verbatim>\<open>recv\<close> in the hook library without a timeout.
  Signed overflow of the request counter, which wraps here as a word. The usage of a history with records that end before they start, for which
  the sweep divides by zero. The Python launch scripts.

  \<^bold>\<open>Left in the plan.\<close> The hook library's launching thread as a client of the system; the share of the GPU of each pod over time;
  \<open>DBL_MAX\<close> and rounding at the edges of the quota arithmetic.
\<close>

section \<open>Properties\<close>

text \<open>C7. A token request travels from the pod manager to the scheduler: the bytes that
  \<^verbatim>\<open>prepare_request\<close> produces for an overuse and a burst make \<^verbatim>\<open>handle_message\<close> close the client's
  latest history record with that overuse, store that burst, and append one candidate with the
  socket, the client's name, the request id and the time of arrival; nothing is sent.\<close>

theorem quota_request_reaches_scheduler:
  assumes "prepare_request env st (replicate REQ_MSG_LEN 0) REQ_QUOTA [ADouble a, ADouble b] = Some (rid, st', msg)"
    and "c_safe (resolve_name env st)" and "client_info_map s (resolve_name env st) = Some c"
  shows "\<exists>s'. handle_message sock msg s = Some s'
    \<and> candidates s' = candidates s @ [\<lparr>cand_socket = sock, cand_name = resolve_name env st, cand_req_id = rid,
         cand_arrived_time = ms_since_start s\<rparr>]
    \<and> history_list s' = snd (update_return_time (ms_since_start s) (double_of_bits a) c (history_list s))
    \<and> map_option burst (client_info_map s' (resolve_name env st)) = Some (double_of_bits b)
    \<and> sent s' = sent s"
proof -
  let ?n = "resolve_name env st"
  let ?u = "update_return_time (ms_since_start s) (double_of_bits a) c (history_list s)"
  obtain att where "carries msg ?n rid REQ_QUOTA att" "get_msg_data 8 word64 att 0 = Some (a, 8)"
      "get_msg_data 8 word64 att 8 = Some (b, 16)"
    using prepared_quota_request(1) [OF assms(1,2)] by blast
  then have "handle_message sock msg s = Some (push_candidate sock ?n rid
      (s\<lparr>client_info_map := (client_info_map s)(?n \<mapsto> set_burst (double_of_bits b) (fst ?u)), history_list := snd ?u\<rparr>))"
    using handle_unlocked_quota [of msg ?n rid att a b s c sock] assms(3)
    by (simp add: handle_message_def case_prod_unfold Let_def)
  then show ?thesis by (simp add: push_candidate_def Let_def ms_since_start_def set_burst_def)
qed

theorem quota_request_reaches_scheduler_witness:
  "\<exists>s' msg st'. prepare_request \<lparr>env_pod_name = Some ''pod1'', env_hostname = ''node''\<rparr> comm_init (replicate REQ_MSG_LEN 0)
       REQ_QUOTA [ADouble 0, ADouble 1] = Some (0, st', msg)
     \<and> handle_message 4 msg boot_state = Some s' \<and> length (candidates s') = 1"
proof -
  let ?env = "\<lparr>env_pod_name = Some ''pod1'', env_hostname = ''node''\<rparr>"
  have n: "resolve_name ?env comm_init = ''pod1''" by (simp add: resolve_name_def comm_init_def)
  obtain msg st' where p: "prepare_request ?env comm_init (replicate REQ_MSG_LEN 0) REQ_QUOTA [ADouble 0, ADouble 1] = Some (0, st', msg)"
    using prepare_request_carries [of "replicate REQ_MSG_LEN 0" REQ_QUOTA "[ADouble 0, ADouble 1]" "bytes64 0 @ bytes64 1" ?env comm_init]
    by (auto simp: REQ_MSG_LEN_def n c_safe_def comm_init_def [symmetric]) (simp add: comm_init_def)
  obtain c where c: "client_info_map boot_state ''pod1'' = Some c" by (simp add: boot_state_def)
  from quota_request_reaches_scheduler [OF p, of boot_state c 4] show ?thesis
    using p c by (simp add: n c_safe_def) (auto simp: boot_state_def)
qed

text \<open>C32. A pod manager starts with the limit of its pod. Given are: ports in the environment that are
  decimal numbers (or none), a scheduler address of at most 19 characters, a pod name without NUL that fits
  \<^verbatim>\<open>HOST_NAME_MAX\<close>; every \<^verbatim>\<open>socket\<close> call opens a new descriptor; connecting the first socket to the configured
  address and port, and binding the second one to the configured port, succeed within the retries; at the
  other end is a scheduler that knows the pod. Then \<^verbatim>\<open>main\<close> asks the scheduler for the memory limit over the
  first socket and reaches its accept loop in an initial state whose account is empty and has exactly the limit
  configured for the pod. The scheduler has answered this one request and granted nothing.\<close>

theorem pod_starts:
  assumes "configured_port (ev_manager_port ev) 50052 mport" and "configured_port (ev_scheduler_port ev) 50051 sport"
    and "ip = (case ev_scheduler_ip ev of None \<Rightarrow> ''127.0.0.1'' | Some a \<Rightarrow> a)" and "length ip < 20"
    and "c_safe (resolve_name (pod_env_of ev) comm_init)" and "length (resolve_name (pod_env_of ev) comm_init) < HOST_NAME_MAX"
    and "\<And>s j. nt_socket ops (s, j) = (j, 0, (s, j + 1))" and "0 \<le> fd"
    and "multiple_attempt (nt_connect ops fd ip sport) (nt_sleep ops) 5 10 (s0, fd + 1) = (Some 0, (s1, fd + 1))"
    and "nt_exchange ops fd = host_exchange sock"
    and "client_info_map s1 (resolve_name (pod_env_of ev) comm_init) = Some c"
    and "\<And>s j. multiple_attempt (nt_bind ops (fd + 1) mport) (nt_sleep ops) 5 10 (s, j) = (Some 0, (s, j))"
  shows "\<exists>p s'. pod_main ops ev (s0, fd) = Inr (p, (s', fd + 2)) \<and> pod_init p
    \<and> pod_account p = fresh_account (gpu_mem_limit c) \<and> pod_env p = pod_env_of ev
    \<and> candidates s' = candidates s1 \<and> history_list s' = history_list s1 \<and> length (sent s') = Suc (length (sent s1))"
proof -
  note ports = env_port_configured [OF assms(1)] env_port_configured [OF assms(2)]
  obtain st' rsp where "retrieve_mem_info (pod_env_of ev) comm_init (schd_exchange sock) 5 (nt_stack ops, s1) =
      Some (Inr (fresh_account (gpu_mem_limit c)), st', s1\<lparr>sent := sent s1 @ [(sock, rsp)]\<rparr>)"
    using pod_learns_limit [of "pod_env_of ev" comm_init 5 s1 c sock "nt_stack ops"] assms(5,6,11) by (auto simp: HOST_NAME_MAX_def)
  then have r: "retrieve_mem_info (pod_env_of ev) comm_init (nt_exchange ops fd) 5 (nt_stack ops, s1, fd + 1) =
      Some (Inr (fresh_account (gpu_mem_limit c)), st', s1\<lparr>sent := sent s1 @ [(sock, rsp)]\<rparr>, fd + 1)"
    by (simp add: assms(10) retrieve_mem_info_host)
  define s' where "s' = s1\<lparr>sent := sent s1 @ [(sock, rsp)]\<rparr>"
  have s': "candidates s' = candidates s1 \<and> history_list s' = history_list s1 \<and> length (sent s') = Suc (length (sent s1))"
    by (simp add: s'_def)
  have "pod_main ops ev (s0, fd) =
      Inr (started_pod ev st' (fresh_account (gpu_mem_limit c)) (nt_clock ops (s', fd + 1)), (s', fd + 2))"
    unfolding pod_main_def pod_listen_def Let_def using assms(4,6,8)
    by (simp add: ports assms(7,9,12) r s'_def not_le flip: assms(3))
  moreover have "pod_env (started_pod ev st' a now) = pod_env_of ev" "pod_account (started_pod ev st' a now) = a" for a now
    by (simp_all add: started_pod_def)
  ultimately show ?thesis using s' started_pod_init by blast
qed

text \<open>A network on which only the port 50051 of the local host can be connected and only the port 50059 bound.\<close>

definition sample_net :: "(sched_state \<times> int) net_ops" where
  "sample_net = \<lparr>nt_socket = (\<lambda>(s, j). (j, 0, (s, j + 1))),
     nt_connect = (\<lambda>fd ip port net. (if ip = ''127.0.0.1'' \<and> port = 50051 then 0 else -1, 111, net)),
     nt_exchange = (\<lambda>fd. host_exchange 4), nt_bind = (\<lambda>fd port net. (if port = 50059 then 0 else -1, 98, net)),
     nt_sleep = (\<lambda>net. net), nt_clock = (\<lambda>net. s_clock (fst net)), nt_stack = []\<rparr>"

theorem pod_starts_witness:
  "\<exists>p s'. pod_main sample_net \<lparr>ev_pod_name = Some ''pod1'', ev_hostname = ''node'', ev_manager_port = Some (show_nat 50059),
        ev_scheduler_ip = None, ev_scheduler_port = None\<rparr> (boot_state, 3) = Inr (p, (s', 5))
     \<and> pod_init p \<and> pod_account p = fresh_account 4096"
proof -
  let ?ev = "\<lparr>ev_pod_name = Some ''pod1'', ev_hostname = ''node'', ev_manager_port = Some (show_nat 50059),
        ev_scheduler_ip = None, ev_scheduler_port = None\<rparr>"
  have name: "resolve_name (pod_env_of ?ev) comm_init = ''pod1''" by (simp add: resolve_name_def comm_init_def pod_env_of_def)
  have mport: "configured_port (ev_manager_port ?ev) 50052 50059"
    unfolding configured_port_def by (intro disjI2 exI [of _ 50059]) simp
  have sport: "configured_port (ev_scheduler_port ?ev) 50051 50051" by (simp add: configured_port_def)
  have ops: "nt_socket sample_net (s, j) = (j, 0, (s, j + 1))" "nt_exchange sample_net 3 = host_exchange 4"
      "multiple_attempt (nt_connect sample_net 3 ''127.0.0.1'' 50051) (nt_sleep sample_net) 5 10 (s, j) = (Some 0, (s, j))"
      "multiple_attempt (nt_bind sample_net 4 50059) (nt_sleep sample_net) 5 10 (s, j) = (Some 0, (s, j))" for s j
    by (simp_all add: sample_net_def multiple_attempt_def numeral_eq_Suc)
  obtain c where c: "client_info_map boot_state ''pod1'' = Some c" "gpu_mem_limit c = 4096" by (simp add: boot_state_def)
  show ?thesis
    using pod_starts [OF mport sport refl, of sample_net 3 boot_state boot_state 4 c] c
    by (simp add: name c_safe_def HOST_NAME_MAX_def ops) blast
qed




end
